(* ===== verification/Prelude.thy ===== *)
theory Prelude
  imports Main "HOL-Library.Word"
begin

text \<open>
  Shared vocabulary of the development: the byte type, the 64-bit \<open>size_t\<close> arithmetic
  with its wrap-around, the two list operations every buffer access is made of
  (\<open>slice\<close> reads a byte range, \<open>blit\<close> overwrites one), the concatenation of
  variable-length blocks that a work buffer is, and the lemma collections the component
  theories add to.
\<close>

named_theorems size_defs \<open>unfolding of the size_t operations\<close>
named_theorems size_exact \<open>size_t operations that do not wrap\<close>

section \<open>Bytes and size_t\<close>

type_synonym byte = "8 word"
type_synonym bytes = "byte list"

text \<open>
  A \<open>std::size_t\<close> is a natural number below \<open>2 ^ 64\<close>; the operations wrap around as
  unsigned C++ arithmetic does.
\<close>

definition size_modulus :: nat where
  "size_modulus = 2 ^ 64"

definition size_add :: "nat \<Rightarrow> nat \<Rightarrow> nat" where
  [size_defs]: "size_add a b = (a + b) mod size_modulus"

definition size_sub :: "nat \<Rightarrow> nat \<Rightarrow> nat" where
  [size_defs]: "size_sub a b = (a + (size_modulus - b mod size_modulus)) mod size_modulus"

definition size_mul :: "nat \<Rightarrow> nat \<Rightarrow> nat" where
  [size_defs]: "size_mul a b = (a * b) mod size_modulus"

lemma size_modulus_pos [simp]: "0 < size_modulus"
  by (simp add: size_modulus_def)

lemma size_add_exact [size_exact]: "a + b < size_modulus \<Longrightarrow> size_add a b = a + b"
  by (simp add: size_add_def)

lemma size_mul_exact [size_exact]: "a * b < size_modulus \<Longrightarrow> size_mul a b = a * b"
  by (simp add: size_mul_def)

lemma size_sub_exact [size_exact]:
  assumes "b \<le> a" and "a < size_modulus"
  shows "size_sub a b = a - b"
proof -
  have "a + (size_modulus - b mod size_modulus) = (a - b) + size_modulus"
    using assms by simp
  then have "size_sub a b = ((a - b) + size_modulus) mod size_modulus"
    by (simp only: size_sub_def)
  also have "\<dots> = a - b"
    using assms(2) by simp
  finally show ?thesis .
qed

lemma size_sub_wraps: "size_sub 0 1 = size_modulus - 1"
  by (simp add: size_sub_def size_modulus_def)

section \<open>Slices and overwrites\<close>

definition slice :: "nat \<Rightarrow> nat \<Rightarrow> 'a list \<Rightarrow> 'a list" where
  "slice off n xs = take n (drop off xs)"

definition blit :: "nat \<Rightarrow> 'a list \<Rightarrow> 'a list \<Rightarrow> 'a list" where
  "blit off ds xs = take off xs @ ds @ drop (off + length ds) xs"

lemma length_slice [simp]: "off + n \<le> length xs \<Longrightarrow> length (slice off n xs) = n"
  by (simp add: slice_def)

lemma slice_zero [simp]: "slice off 0 xs = []"
  by (simp add: slice_def)

lemma slice_all [simp]: "length xs = n \<Longrightarrow> slice 0 n xs = xs"
  by (simp add: slice_def)

lemma length_blit [simp]: "off + length ds \<le> length xs \<Longrightarrow> length (blit off ds xs) = length xs"
  by (simp add: blit_def)

lemma blit_Nil [simp]: "blit off [] xs = xs"
  by (simp add: blit_def)

lemma nth_slice: "off + n \<le> length xs \<Longrightarrow> i < n \<Longrightarrow> slice off n xs ! i = xs ! (off + i)"
  by (simp add: slice_def)

lemma nth_blit:
  "off + length ds \<le> length xs \<Longrightarrow> i < length xs \<Longrightarrow>
   blit off ds xs ! i = (if i < off then xs ! i
     else if i < off + length ds then ds ! (i - off) else xs ! i)"
  by (auto simp: blit_def nth_append min_def)

lemma slice_slice:
  "k + m \<le> n \<Longrightarrow> slice k m (slice off n xs) = slice (off + k) m xs"
  unfolding slice_def drop_take take_take drop_drop by (simp add: add.commute)

lemma slice_append_left: "off + n \<le> length xs \<Longrightarrow> slice off n (xs @ ys) = slice off n xs"
  by (simp add: slice_def)

lemma slice_append_right:
  "slice (length xs + off) n (xs @ ys) = slice off n ys"
  by (simp add: slice_def)

lemma slice_split: "slice off (m + n) xs = slice off m xs @ slice (off + m) n xs"
  by (simp add: slice_def take_add add.commute)

lemma slice_blit_same:
  "off + length ds \<le> length xs \<Longrightarrow> n = length ds \<Longrightarrow> slice off n (blit off ds xs) = ds"
  by (simp add: slice_def blit_def)

lemma slice_blit_other:
  assumes "off + length ds \<le> length xs" and "a + n \<le> length xs"
    and "a + n \<le> off \<or> off + length ds \<le> a"
  shows "slice a n (blit off ds xs) = slice a n xs"
proof (rule nth_equalityI)
  show "length (slice a n (blit off ds xs)) = length (slice a n xs)"
    using assms by simp
next
  fix i
  assume "i < length (slice a n (blit off ds xs))"
  with assms have i: "i < n" by simp
  with assms show "slice a n (blit off ds xs) ! i = slice a n xs ! i"
    by (auto simp: nth_slice nth_blit)
qed

lemma blit_append_right:
  "blit (length xs + off) ds (xs @ ys) = xs @ blit off ds ys"
  by (simp add: blit_def)

lemma blit_append_left:
  "off + length ds \<le> length xs \<Longrightarrow> blit off ds (xs @ ys) = blit off ds xs @ ys"
  by (simp add: blit_def)

lemma blit_blit_append:
  assumes "off + length rs + length ds \<le> length xs"
  shows "blit (off + length rs) ds (blit off rs xs) = blit off (rs @ ds) xs"
proof (rule nth_equalityI)
  show "length (blit (off + length rs) ds (blit off rs xs)) = length (blit off (rs @ ds) xs)"
    using assms by simp
next
  fix i
  assume "i < length (blit (off + length rs) ds (blit off rs xs))"
  with assms show "blit (off + length rs) ds (blit off rs xs) ! i = blit off (rs @ ds) xs ! i"
    by (auto simp: nth_blit nth_append diff_diff_add)
qed

lemma blit_slice_id: "off + n \<le> length xs \<Longrightarrow> blit off (slice off n xs) xs = xs"
  by (rule nth_equalityI) (auto simp: nth_slice nth_blit)

lemma blit_whole: "length ds = length xs \<Longrightarrow> blit 0 ds xs = ds"
  by (simp add: blit_def)

section \<open>Blocks laid end to end\<close>

text \<open>
  A buffer of \<open>n\<close> blocks is the concatenation of their contents; the offset of block
  \<open>b\<close> is the total length of the blocks before it.
\<close>

definition joined :: "(nat \<Rightarrow> 'a list) \<Rightarrow> nat \<Rightarrow> 'a list" where
  "joined B n = concat (map B [0..<n])"

definition block_start :: "(nat \<Rightarrow> nat) \<Rightarrow> nat \<Rightarrow> nat" where
  "block_start len b = (\<Sum>i<b. len i)"

lemma block_start_0 [simp]: "block_start len 0 = 0"
  by (simp add: block_start_def)

lemma block_start_Suc [simp]: "block_start len (Suc b) = block_start len b + len b"
  by (simp add: block_start_def)

lemma joined_0 [simp]: "joined B 0 = []"
  by (simp add: joined_def)

lemma joined_Suc [simp]: "joined B (Suc n) = joined B n @ B n"
  by (simp add: joined_def)

lemma joined_cong: "(\<And>i. i < n \<Longrightarrow> A i = B i) \<Longrightarrow> joined A n = joined B n"
  by (induction n) auto

lemma joined_upd_beyond [simp]: "n \<le> b \<Longrightarrow> joined (B(b := x)) n = joined B n"
  by (rule joined_cong) simp

lemma length_joined:
  "(\<And>i. i < n \<Longrightarrow> length (B i) = len i) \<Longrightarrow> length (joined B n) = block_start len n"
  by (induction n) auto

lemma block_start_mono: "a \<le> b \<Longrightarrow> block_start len a \<le> block_start len b"
  by (induction b) (auto simp: le_Suc_eq)

lemma block_start_next: "a < b \<Longrightarrow> block_start len a + len a \<le> block_start len b"
  using block_start_mono [of "Suc a" b len] by simp

lemma block_start_scale: "block_start (\<lambda>i. len i * k) b = block_start len b * k"
  by (induction b) (auto simp: algebra_simps)

lemma joined_split:
  assumes "b < n"
  shows "\<exists>rest. joined B n = joined B b @ B b @ rest \<and>
    joined (B(b := x)) n = joined B b @ x @ rest"
  using assms
proof (induction n)
  case (Suc n)
  show ?case
  proof (cases "b = n")
    case True
    have "joined (B(b := x)) (Suc b) = joined B b @ x"
      unfolding joined_Suc by (simp only: joined_upd_beyond [OF order.refl] fun_upd_same)
    then have "joined B (Suc b) = joined B b @ B b @ [] \<and>
        joined (B(b := x)) (Suc b) = joined B b @ x @ []"
      by (simp only: joined_Suc append_Nil2)
    with True show ?thesis by blast
  next
    case False
    with Suc.prems have "b < n" by simp
    then obtain rest where "joined B n = joined B b @ B b @ rest"
      and "joined (B(b := x)) n = joined B b @ x @ rest"
      using Suc.IH by blast
    then have "joined B (Suc n) = joined B b @ B b @ (rest @ B n) \<and>
        joined (B(b := x)) (Suc n) = joined B b @ x @ (rest @ B n)"
      using False by (simp only: joined_Suc fun_upd_other [of n b] append_assoc not_sym)
    then show ?thesis by blast
  qed
qed simp

lemma slice_joined:
  assumes "b < n" and lens: "\<And>i. i < n \<Longrightarrow> length (B i) = len i" and "k + m \<le> len b"
  shows "slice (block_start len b + k) m (joined B n) = slice k m (B b)"
proof -
  obtain rest where r: "joined B n = joined B b @ B b @ rest"
    using joined_split [OF \<open>b < n\<close>] by blast
  have "length (joined B b) = block_start len b"
    using assms(1) lens by (intro length_joined) simp
  then have "slice (block_start len b + k) m (joined B n) = slice k m (B b @ rest)"
    unfolding r by (metis slice_append_right)
  also have "\<dots> = slice k m (B b)"
    using assms by (intro slice_append_left) simp
  finally show ?thesis .
qed

lemma blit_joined:
  assumes "b < n" and lens: "\<And>i. i < n \<Longrightarrow> length (B i) = len i" and "k + length ds \<le> len b"
  shows "blit (block_start len b + k) ds (joined B n) = joined (B(b := blit k ds (B b))) n"
proof -
  obtain rest where r: "joined B n = joined B b @ B b @ rest"
    and u: "joined (B(b := blit k ds (B b))) n = joined B b @ blit k ds (B b) @ rest"
    using joined_split [OF \<open>b < n\<close>] by blast
  have "length (joined B b) = block_start len b"
    using assms(1) lens by (intro length_joined) simp
  then have "blit (block_start len b + k) ds (joined B n) = joined B b @ blit k ds (B b @ rest)"
    unfolding r by (metis blit_append_right)
  also have "blit k ds (B b @ rest) = blit k ds (B b) @ rest"
    using assms by (intro blit_append_left) simp
  finally show ?thesis
    by (simp add: u)
qed

lemma block_range_in:
  assumes "b < n"
  shows "block_start len b + len b \<le> block_start len n"
  using block_start_next [OF assms, of len] .

lemma block_ranges_apart:
  assumes "a \<noteq> b" and "x + m \<le> len a" and "y + k \<le> len b"
  shows "block_start len a + x + m \<le> block_start len b + y \<or>
    block_start len b + y + k \<le> block_start len a + x"
proof (cases "a < b")
  case True
  with block_start_next [OF True, of len] assms show ?thesis by linarith
next
  case False
  with assms have "b < a" by simp
  with block_start_next [of b a len] assms show ?thesis by linarith
qed

end
