(* ===== verification/Pg_Types.thy ===== *)
theory Pg_Types
  imports Prelude
begin

text \<open>
  The C types the modules share (\<open>include/ring_collectives.h\<close> and
  \<open>include/pg_transport.h\<close>), and the memory the buffers live in. A C enum object can
  hold a value that is none of its enumerators, and the code has \<open>default\<close> branches for
  it, so each enum has one more constructor for such a value. Memory is a partial map from
  allocated blocks to their bytes; a pointer is a block with a byte offset. Access outside a
  block is undefined in C++: \<open>load\<close> and \<open>store\<close> answer None there.
\<close>

section \<open>Enumerations and status codes\<close>

datatype DATATYPE = PG_INT32 | PG_FLOAT32 | PG_FLOAT64 | Bad_datatype int

datatype OPERATION = PG_SUM | PG_MIN | PG_MAX | Bad_operation int

datatype pg_transfer_mode =
  PG_TRANSFER_AUTO | PG_TRANSFER_EAGER | PG_TRANSFER_RENDEZVOUS | Bad_mode int

definition PG_SUCCESS :: int where [simp]: "PG_SUCCESS = 0"
definition PG_ERR_INVALID_ARGUMENT :: int where [simp]: "PG_ERR_INVALID_ARGUMENT = -1"
definition PG_ERR_NO_MEMORY :: int where [simp]: "PG_ERR_NO_MEMORY = -2"
definition PG_ERR_TRANSPORT :: int where [simp]: "PG_ERR_TRANSPORT = -3"
definition PG_ERR_UNSUPPORTED_DATATYPE :: int where [simp]: "PG_ERR_UNSUPPORTED_DATATYPE = -4"
definition PG_ERR_UNSUPPORTED_OPERATION :: int where [simp]: "PG_ERR_UNSUPPORTED_OPERATION = -5"
definition PG_ERR_TAG_RANGE :: int where [simp]: "PG_ERR_TAG_RANGE = -6"

type_synonym pg_tag = "32 word"

text \<open>
  A request handle: \<open>internal\<close> is the address of the transport's private request state,
  None the null pointer.
\<close>

record pg_request =
  id :: "64 word"
  internal :: "nat option"

definition null_request :: pg_request where
  "null_request = \<lparr>id = 0, internal = None\<rparr>"

section \<open>Pointers and memory\<close>

datatype pointer = NullPtr | Ptr nat nat

type_synonym memory = "nat \<Rightarrow> bytes option"

fun byte_offset :: "pointer \<Rightarrow> nat \<Rightarrow> pointer" where
  "byte_offset NullPtr n = NullPtr"
| "byte_offset (Ptr b off) n = Ptr b (off + n)"

fun load :: "memory \<Rightarrow> pointer \<Rightarrow> nat \<Rightarrow> bytes option" where
  "load m NullPtr n = None"
| "load m (Ptr b off) n =
     (case m b of
        None \<Rightarrow> None
      | Some bs \<Rightarrow> if off + n \<le> length bs then Some (slice off n bs) else None)"

fun store :: "memory \<Rightarrow> pointer \<Rightarrow> bytes \<Rightarrow> memory option" where
  "store m NullPtr ds = None"
| "store m (Ptr b off) ds =
     (case m b of
        None \<Rightarrow> None
      | Some bs \<Rightarrow>
          if off + length ds \<le> length bs then Some (m(b \<mapsto> blit off ds bs)) else None)"

lemma length_load: "load m p n = Some bs \<Longrightarrow> length bs = n"
  by (cases p) (auto split: option.splits if_splits)

lemma load_store_same:
  "store m p ds = Some m' \<Longrightarrow> n = length ds \<Longrightarrow> load m' p n = Some ds"
  by (cases p) (auto simp: slice_blit_same split: option.splits if_splits)

lemma store_defined: "load m p (length ds) = Some bs \<Longrightarrow> \<exists>m'. store m p ds = Some m'"
  by (cases p) (auto split: option.splits if_splits)

text \<open>A memory region and when two of them share no byte.\<close>

fun region_disjoint :: "pointer \<Rightarrow> nat \<Rightarrow> pointer \<Rightarrow> nat \<Rightarrow> bool" where
  "region_disjoint (Ptr a i) n (Ptr b j) k = (a \<noteq> b \<or> i + n \<le> j \<or> j + k \<le> i)"
| "region_disjoint _ _ _ _ = True"

lemma region_disjoint_sym: "region_disjoint p n q k = region_disjoint q k p n"
  by (cases p; cases q) auto

lemma load_store_other:
  assumes "store m p ds = Some m'" and "region_disjoint p (length ds) q n"
  shows "load m' q n = load m q n"
proof (cases p)
  case (Ptr b off)
  with assms show ?thesis
    by (cases q) (auto simp: slice_blit_other split: option.splits if_splits)
qed (use assms in simp)

end
