(* ===== verification/Reduction_Ops.thy ===== *)
theory Reduction_Ops
  imports Pg_Types
begin

text \<open>
  \<open>src/reduction_ops.cpp\<close>: the element-wise reduction of one buffer into another. The C++
  template \<open>reduce_typed<T>\<close> is a function of a record that says how \<open>T\<close> is stored in
  bytes, added and compared; \<open>int32_t\<close> is a 32-bit two's complement word, \<open>float\<close> and
  \<open>double\<close> are IEEE 754 bit patterns added with round-to-nearest-even. The lemmas show
  that the loop over memory is the element-wise map of the operation, and what the three
  integer operations compute.
\<close>

section \<open>Little-endian storage\<close>

fun le_bytes :: "nat \<Rightarrow> nat \<Rightarrow> bytes" where
  "le_bytes 0 v = []"
| "le_bytes (Suc n) v = word_of_nat (v mod 256) # le_bytes n (v div 256)"

fun le_value :: "bytes \<Rightarrow> nat" where
  "le_value [] = 0"
| "le_value (b # bs) = unat b + 256 * le_value bs"

lemma length_le_bytes [simp]: "length (le_bytes n v) = n"
  by (induction n arbitrary: v) auto

lemma le_bytes_numeral [simp]:
  "le_bytes (numeral k) v = word_of_nat (v mod 256) # le_bytes (pred_numeral k) (v div 256)"
  by (simp only: numeral_eq_Suc [of k] le_bytes.simps)

lemma le_value_le_bytes: "le_value (le_bytes n v) = v mod 256 ^ n"
proof (induction n arbitrary: v)
  case (Suc n)
  have "unat (word_of_nat (v mod 256) :: byte) = v mod 256"
    by (simp add: unat_of_nat)
  then show ?case
    using Suc.IH by (simp add: mod_mult2_eq)
qed simp

lemma le_value_bound: "le_value bs < 256 ^ length bs"
proof (induction bs)
  case (Cons b bs)
  have "unat b < 256"
    using unsigned_less [of b] by simp
  with Cons show ?case by simp
qed simp

lemma le_bytes_le_value: "le_bytes (length bs) (le_value bs) = bs"
proof (induction bs)
  case (Cons b bs)
  have "unat b < 256"
    using unsigned_less [of b] by simp
  with Cons show ?case by simp
qed simp

section \<open>IEEE 754 arithmetic on bit patterns\<close>

text \<open>
  A format with \<open>p\<close> fraction bits and \<open>w\<close> exponent bits. Every finite value is an
  integer multiple of the least subnormal, so addition is exact on those integers and then
  rounded once. A NaN operand is returned quieted, the first one first, and the NaN of
  \<open>\<infinity> - \<infinity>\<close> is the negative quiet one, as the x86-64 instructions the code compiles
  to do; no lemma depends on this choice.
\<close>

fun bit_length :: "nat \<Rightarrow> nat" where
  "bit_length n = (if n = 0 then 0 else Suc (bit_length (n div 2)))"

declare bit_length.simps [simp del]

definition fp_sign :: "nat \<Rightarrow> nat \<Rightarrow> nat \<Rightarrow> bool" where
  "fp_sign p w x = odd (x div 2 ^ (p + w))"

definition fp_exp :: "nat \<Rightarrow> nat \<Rightarrow> nat \<Rightarrow> nat" where
  "fp_exp p w x = (x div 2 ^ p) mod 2 ^ w"

definition fp_frac :: "nat \<Rightarrow> nat \<Rightarrow> nat" where
  "fp_frac p x = x mod 2 ^ p"

definition fp_nan :: "nat \<Rightarrow> nat \<Rightarrow> nat \<Rightarrow> bool" where
  "fp_nan p w x = (fp_exp p w x = 2 ^ w - 1 \<and> fp_frac p x \<noteq> 0)"

definition fp_inf :: "nat \<Rightarrow> nat \<Rightarrow> nat \<Rightarrow> bool" where
  "fp_inf p w x = (fp_exp p w x = 2 ^ w - 1 \<and> fp_frac p x = 0)"

definition fp_int :: "nat \<Rightarrow> nat \<Rightarrow> nat \<Rightarrow> int" where
  "fp_int p w x =
     (let e = fp_exp p w x; f = fp_frac p x;
          mag = (if e = 0 then f else (2 ^ p + f) * 2 ^ (e - 1))
      in if fp_sign p w x then - int mag else int mag)"

definition fp_round :: "nat \<Rightarrow> nat \<Rightarrow> nat \<Rightarrow> nat" where
  "fp_round p w n =
     (if n < 2 ^ (p + 1) then n
      else
        let k = bit_length n - (p + 1); q = n div 2 ^ k; r = n mod 2 ^ k;
            q' = (if 2 * r > 2 ^ k \<or> (2 * r = 2 ^ k \<and> odd q) then q + 1 else q)
        in min (k * 2 ^ p + q') ((2 ^ w - 1) * 2 ^ p))"

definition fp_quiet :: "nat \<Rightarrow> nat \<Rightarrow> nat" where
  "fp_quiet p x = (if odd (x div 2 ^ (p - 1)) then x else x + 2 ^ (p - 1))"

definition fp_add :: "nat \<Rightarrow> nat \<Rightarrow> nat \<Rightarrow> nat \<Rightarrow> nat" where
  "fp_add p w a b =
     (if fp_nan p w a then fp_quiet p a
      else if fp_nan p w b then fp_quiet p b
      else if fp_inf p w a then
        (if fp_inf p w b \<and> fp_sign p w a \<noteq> fp_sign p w b
         then 2 ^ (p + w) + (2 ^ w - 1) * 2 ^ p + 2 ^ (p - 1) else a)
      else if fp_inf p w b then b
      else
        let v = fp_int p w a + fp_int p w b in
        if v = 0 then (if fp_sign p w a \<and> fp_sign p w b then 2 ^ (p + w) else 0)
        else if v < 0 then 2 ^ (p + w) + fp_round p w (nat (- v))
        else fp_round p w (nat v))"

definition fp_less :: "nat \<Rightarrow> nat \<Rightarrow> nat \<Rightarrow> nat \<Rightarrow> bool" where
  "fp_less p w a b = (\<not> fp_nan p w a \<and> \<not> fp_nan p w b \<and> fp_int p w a < fp_int p w b)"

section \<open>The template and its instances\<close>

record 'e element_type =
  et_size :: nat
  et_decode :: "bytes \<Rightarrow> 'e"
  et_encode :: "'e \<Rightarrow> bytes"
  et_plus :: "'e \<Rightarrow> 'e \<Rightarrow> 'e"
  et_less :: "'e \<Rightarrow> 'e \<Rightarrow> bool"

text \<open>Signed overflow of \<open>+=\<close> is undefined in C++; the model wraps, as the compiled code does.\<close>

definition int32_type :: "32 word element_type" where
  "int32_type = \<lparr>et_size = 4, et_decode = (\<lambda>bs. word_of_nat (le_value bs)),
     et_encode = (\<lambda>x. le_bytes 4 (unat x)), et_plus = (+), et_less = word_sless\<rparr>"

definition float_type :: "nat element_type" where
  "float_type = \<lparr>et_size = 4, et_decode = le_value, et_encode = le_bytes 4,
     et_plus = fp_add 23 8, et_less = fp_less 23 8\<rparr>"

definition double_type :: "nat element_type" where
  "double_type = \<lparr>et_size = 8, et_decode = le_value, et_encode = le_bytes 8,
     et_plus = fp_add 52 11, et_less = fp_less 52 11\<rparr>"

text \<open>\<open>std::min(a, b)\<close> is \<open>b < a ? b : a\<close>, \<open>std::max(a, b)\<close> is \<open>a < b ? b : a\<close>.\<close>

definition std_min :: "('e \<Rightarrow> 'e \<Rightarrow> bool) \<Rightarrow> 'e \<Rightarrow> 'e \<Rightarrow> 'e" where
  "std_min lt a b = (if lt b a then b else a)"

definition std_max :: "('e \<Rightarrow> 'e \<Rightarrow> bool) \<Rightarrow> 'e \<Rightarrow> 'e \<Rightarrow> 'e" where
  "std_max lt a b = (if lt a b then b else a)"

text \<open>The three loops of the switch: \<open>destination[i] = f(destination[i], source[i])\<close>.\<close>

function reduce_loop :: "'e element_type \<Rightarrow> ('e \<Rightarrow> 'e \<Rightarrow> 'e) \<Rightarrow> pointer \<Rightarrow> pointer \<Rightarrow>
    nat \<Rightarrow> nat \<Rightarrow> memory \<Rightarrow> memory option" where
  "reduce_loop T f destination source i count m =
     (if i < count then
        case load m (byte_offset destination (i * et_size T)) (et_size T) of
          None \<Rightarrow> None
        | Some d \<Rightarrow>
          (case load m (byte_offset source (i * et_size T)) (et_size T) of
             None \<Rightarrow> None
           | Some s \<Rightarrow>
             (case store m (byte_offset destination (i * et_size T))
                     (et_encode T (f (et_decode T d) (et_decode T s))) of
                None \<Rightarrow> None
              | Some m' \<Rightarrow> reduce_loop T f destination source (Suc i) count m'))
      else Some m)"
  by pat_completeness auto
termination
  by (relation "measure (\<lambda>(T, f, d, s, i, count, m). count - i)") auto

declare reduce_loop.simps [simp del]

definition reduce_typed :: "'e element_type \<Rightarrow> memory \<Rightarrow> pointer \<Rightarrow> pointer \<Rightarrow> nat \<Rightarrow> OPERATION \<Rightarrow>
    (int \<times> memory) option" where
  "reduce_typed T m destination source count operation =
     (if destination = NullPtr \<or> source = NullPtr then
        Some (if count = 0 then PG_SUCCESS else PG_ERR_INVALID_ARGUMENT, m)
      else
        case operation of
          PG_SUM \<Rightarrow> map_option (Pair PG_SUCCESS)
            (reduce_loop T (et_plus T) destination source 0 count m)
        | PG_MIN \<Rightarrow> map_option (Pair PG_SUCCESS)
            (reduce_loop T (std_min (et_less T)) destination source 0 count m)
        | PG_MAX \<Rightarrow> map_option (Pair PG_SUCCESS)
            (reduce_loop T (std_max (et_less T)) destination source 0 count m)
        | Bad_operation _ \<Rightarrow> Some (PG_ERR_UNSUPPORTED_OPERATION, m))"

fun datatype_size :: "DATATYPE \<Rightarrow> nat" where
  "datatype_size PG_INT32 = 4"
| "datatype_size PG_FLOAT32 = 4"
| "datatype_size PG_FLOAT64 = 8"
| "datatype_size (Bad_datatype _) = 0"

definition reduce_in_place :: "memory \<Rightarrow> pointer \<Rightarrow> pointer \<Rightarrow> nat \<Rightarrow> DATATYPE \<Rightarrow> OPERATION \<Rightarrow>
    (int \<times> memory) option" where
  "reduce_in_place m destination source count datatype operation =
     (if count = 0 then Some (PG_SUCCESS, m)
      else
        case datatype of
          PG_INT32 \<Rightarrow> reduce_typed int32_type m destination source count operation
        | PG_FLOAT32 \<Rightarrow> reduce_typed float_type m destination source count operation
        | PG_FLOAT64 \<Rightarrow> reduce_typed double_type m destination source count operation
        | Bad_datatype _ \<Rightarrow> Some (PG_ERR_UNSUPPORTED_DATATYPE, m))"

section \<open>The operation on stored elements\<close>

text \<open>What one loop iteration does to the bytes of one element.\<close>

definition stored_op :: "'e element_type \<Rightarrow> ('e \<Rightarrow> 'e \<Rightarrow> 'e) \<Rightarrow> bytes \<Rightarrow> bytes \<Rightarrow> bytes" where
  "stored_op T f d s = et_encode T (f (et_decode T d) (et_decode T s))"

fun typed_op :: "'e element_type \<Rightarrow> OPERATION \<Rightarrow> (bytes \<Rightarrow> bytes \<Rightarrow> bytes) option" where
  "typed_op T PG_SUM = Some (stored_op T (et_plus T))"
| "typed_op T PG_MIN = Some (stored_op T (std_min (et_less T)))"
| "typed_op T PG_MAX = Some (stored_op T (std_max (et_less T)))"
| "typed_op T (Bad_operation _) = None"

fun byte_op :: "DATATYPE \<Rightarrow> OPERATION \<Rightarrow> (bytes \<Rightarrow> bytes \<Rightarrow> bytes) option" where
  "byte_op PG_INT32 operation = typed_op int32_type operation"
| "byte_op PG_FLOAT32 operation = typed_op float_type operation"
| "byte_op PG_FLOAT64 operation = typed_op double_type operation"
| "byte_op (Bad_datatype _) operation = None"

text \<open>The element-wise reduction of two byte strings of \<open>n\<close> elements.\<close>

definition reduce_bytes :: "nat \<Rightarrow> (bytes \<Rightarrow> bytes \<Rightarrow> bytes) \<Rightarrow> nat \<Rightarrow> bytes \<Rightarrow> bytes \<Rightarrow> bytes" where
  "reduce_bytes sz g n d s =
     joined (\<lambda>i. g (slice (i * sz) sz d) (slice (i * sz) sz s)) n"

lemma reduce_bytes_0 [simp]: "reduce_bytes sz g 0 d s = []"
  by (simp add: reduce_bytes_def)

lemma length_reduce_bytes:
  "(\<And>a b. length (g a b) = sz) \<Longrightarrow> length (reduce_bytes sz g n d s) = n * sz"
  unfolding reduce_bytes_def
  by (subst length_joined [of _ _ "\<lambda>_. sz"]) (auto simp: block_start_def)

lemma slice_reduce_bytes_elem:
  assumes len: "\<And>a b. length (g a b) = sz" and "i < n"
  shows "slice (i * sz) sz (reduce_bytes sz g n d s) = g (slice (i * sz) sz d) (slice (i * sz) sz s)"
proof -
  let ?B = "\<lambda>i. g (slice (i * sz) sz d) (slice (i * sz) sz s)"
  have "slice (block_start (\<lambda>_. sz) i + 0) sz (joined ?B n) = slice 0 sz (?B i)"
    by (rule slice_joined) (use assms in auto)
  then show ?thesis
    by (simp add: reduce_bytes_def block_start_def len)
qed

lemma joined_shift_slice:
  assumes len: "\<And>i. length (B i) = sz" and "k + m \<le> n"
  shows "slice (k * sz) (m * sz) (joined B n) = joined (\<lambda>i. B (k + i)) m"
  using assms(2)
proof (induction m)
  case (Suc m)
  have el: "slice (block_start (\<lambda>_. sz) (k + m) + 0) sz (joined B n) = slice 0 sz (B (k + m))"
    by (rule slice_joined) (use Suc.prems len in auto)
  have "slice (k * sz) (Suc m * sz) (joined B n)
      = slice (k * sz) (m * sz) (joined B n) @ slice (k * sz + m * sz) sz (joined B n)"
    by (metis add.commute mult_Suc slice_split)
  also have "slice (k * sz + m * sz) sz (joined B n) = B (k + m)"
    using el by (simp add: block_start_def len add_mult_distrib)
  finally show ?case
    using Suc by simp
qed simp

text \<open>Reducing a range of whole elements is the range of the reduction.\<close>

lemma slice_reduce_bytes:
  assumes len: "\<And>a b. length (g a b) = sz" and "k + m \<le> n"
  shows "slice (k * sz) (m * sz) (reduce_bytes sz g n d s) =
    reduce_bytes sz g m (slice (k * sz) (m * sz) d) (slice (k * sz) (m * sz) s)"
proof -
  let ?B = "\<lambda>i. g (slice (i * sz) sz d) (slice (i * sz) sz s)"
  have sl: "slice (i * sz) sz (slice (k * sz) (m * sz) xs) = slice ((k + i) * sz) sz xs"
    if "i < m" for i and xs :: bytes
  proof -
    have "i * sz + sz \<le> m * sz"
      using that by (metis add.commute mult_Suc mult_le_mono1 Suc_leI)
    then show ?thesis by (simp add: slice_slice add_mult_distrib)
  qed
  have "slice (k * sz) (m * sz) (joined ?B n) = joined (\<lambda>i. ?B (k + i)) m"
    by (rule joined_shift_slice) (use assms in auto)
  also have "\<dots> = joined (\<lambda>i. g (slice (i * sz) sz (slice (k * sz) (m * sz) d))
      (slice (i * sz) sz (slice (k * sz) (m * sz) s))) m"
    by (rule joined_cong) (simp add: sl)
  finally show ?thesis by (simp add: reduce_bytes_def)
qed

lemma reduce_bytes_Suc:
  "reduce_bytes sz g (Suc n) d s =
   reduce_bytes sz g n d s @ g (slice (n * sz) sz d) (slice (n * sz) sz s)"
  by (simp add: reduce_bytes_def)

section \<open>The loop computes the element-wise reduction\<close>

text \<open>What the loop has written after \<open>i\<close> iterations.\<close>

definition reduced_upto :: "'e element_type \<Rightarrow> ('e \<Rightarrow> 'e \<Rightarrow> 'e) \<Rightarrow> nat \<Rightarrow> nat \<Rightarrow> bytes \<Rightarrow>
    nat \<Rightarrow> bytes \<Rightarrow> nat \<Rightarrow> memory \<Rightarrow> memory" where
  "reduced_upto T f a x D y S i m =
     m(a \<mapsto> blit x (reduce_bytes (et_size T) (stored_op T f) i (drop x D) (drop y S)) D)"

lemma reduce_loop_step:
  assumes m: "m a = Some D" "m b = Some S"
    and fits: "x + n * et_size T \<le> length D" "y + n * et_size T \<le> length S"
    and apart: "region_disjoint (Ptr a x) (n * et_size T) (Ptr b y) (n * et_size T)"
    and enc: "\<And>e. length (et_encode T e) = et_size T" and "i < n"
  shows "reduce_loop T f (Ptr a x) (Ptr b y) i n (reduced_upto T f a x D y S i m) =
    reduce_loop T f (Ptr a x) (Ptr b y) (Suc i) n (reduced_upto T f a x D y S (Suc i) m)"
proof -
  let ?sz = "et_size T" and ?g = "stored_op T f"
  let ?R = "reduce_bytes ?sz ?g i (drop x D) (drop y S)"
  let ?m = "reduced_upto T f a x D y S i m"
  let ?d = "slice (i * ?sz) ?sz (drop x D)" and ?s = "slice (i * ?sz) ?sz (drop y S)"
  have leR: "length ?R = i * ?sz"
    by (rule length_reduce_bytes) (simp add: stored_op_def enc)
  have le: "i * ?sz + ?sz \<le> n * ?sz"
    using \<open>i < n\<close> by (metis add.commute mult_Suc mult_le_mono1 Suc_leI)
  have mem_a: "?m a = Some (blit x ?R D)"
    by (simp add: reduced_upto_def)
  have ld: "load ?m (Ptr a (x + i * ?sz)) ?sz = Some ?d"
    using fits le leR by (simp add: mem_a slice_blit_other) (simp add: slice_def add.commute)
  have ls: "load ?m (Ptr b (y + i * ?sz)) ?sz = Some ?s"
  proof (cases "a = b")
    case False
    then have "?m b = Some S"
      using m by (simp add: reduced_upto_def)
    with fits le show ?thesis
      by (simp add: slice_def add.commute)
  next
    case True
    with m have "S = D" by simp
    have "slice (y + i * ?sz) ?sz (blit x ?R D) = slice (y + i * ?sz) ?sz D"
      using True \<open>S = D\<close> apart fits le leR by (intro slice_blit_other) auto
    with True \<open>S = D\<close> fits le leR mem_a show ?thesis
      by (simp add: slice_def add.commute)
  qed
  have st: "store ?m (Ptr a (x + i * ?sz)) (?g ?d ?s) = Some (reduced_upto T f a x D y S (Suc i) m)"
    using fits le leR blit_blit_append [of x ?R "?g ?d ?s" D]
    by (simp add: mem_a enc stored_op_def) (simp add: reduced_upto_def reduce_bytes_Suc stored_op_def)
  show ?thesis
    using \<open>i < n\<close> ld ls st by (subst reduce_loop.simps) (simp add: stored_op_def)
qed

lemma reduce_loop_from:
  assumes m: "m a = Some D" "m b = Some S"
    and fits: "x + n * et_size T \<le> length D" "y + n * et_size T \<le> length S"
    and apart: "region_disjoint (Ptr a x) (n * et_size T) (Ptr b y) (n * et_size T)"
    and enc: "\<And>e. length (et_encode T e) = et_size T" and "i \<le> n"
  shows "reduce_loop T f (Ptr a x) (Ptr b y) i n (reduced_upto T f a x D y S i m) =
    Some (reduced_upto T f a x D y S n m)"
  using \<open>i \<le> n\<close>
proof (induction "n - i" arbitrary: i)
  case 0
  then show ?case by (subst reduce_loop.simps) simp
next
  case (Suc k)
  then have "i < n" by simp
  from reduce_loop_step [OF m fits apart enc this, of f] Suc.hyps(1) [of "Suc i"] Suc.hyps(2) \<open>i < n\<close>
  show ?case by simp
qed

lemma reduce_bytes_cong_slice:
  "(\<And>i. i < n \<Longrightarrow> slice (i * sz) sz d = slice (i * sz) sz d') \<Longrightarrow>
   (\<And>i. i < n \<Longrightarrow> slice (i * sz) sz s = slice (i * sz) sz s') \<Longrightarrow>
   reduce_bytes sz g n d s = reduce_bytes sz g n d' s'"
  unfolding reduce_bytes_def by (rule joined_cong) simp

lemma slice_drop_slice:
  assumes "i < n"
  shows "slice (i * sz) sz (slice x (n * sz) D) = slice (i * sz) sz (drop x D)"
proof -
  have "i * sz + sz \<le> n * sz"
    using assms by (metis add.commute mult_Suc mult_le_mono1 Suc_leI)
  then have "slice (i * sz) sz (slice x (n * sz) D) = slice (x + i * sz) sz D"
    by (rule slice_slice)
  then show ?thesis
    by (simp add: slice_def add.commute)
qed

lemma reduce_loop_eq:
  assumes m: "m a = Some D" "m b = Some S"
    and fits: "x + n * et_size T \<le> length D" "y + n * et_size T \<le> length S"
    and apart: "region_disjoint (Ptr a x) (n * et_size T) (Ptr b y) (n * et_size T)"
    and enc: "\<And>e. length (et_encode T e) = et_size T"
  shows "reduce_loop T f (Ptr a x) (Ptr b y) 0 n m =
    Some (m(a \<mapsto> blit x (reduce_bytes (et_size T) (stored_op T f) n
      (slice x (n * et_size T) D) (slice y (n * et_size T) S)) D))"
proof -
  have "reduced_upto T f a x D y S 0 m = m"
    using m by (auto simp: reduced_upto_def)
  moreover have "reduce_bytes (et_size T) (stored_op T f) n (drop x D) (drop y S) =
      reduce_bytes (et_size T) (stored_op T f) n (slice x (n * et_size T) D) (slice y (n * et_size T) S)"
    by (rule reduce_bytes_cong_slice) (simp_all add: slice_drop_slice)
  ultimately show ?thesis
    using reduce_loop_from [OF m fits apart enc, of 0 f] by (simp add: reduced_upto_def)
qed

lemma reduce_typed_eq:
  assumes op: "typed_op T operation = Some g"
    and m: "m a = Some D" "m b = Some S"
    and fits: "x + n * et_size T \<le> length D" "y + n * et_size T \<le> length S"
    and apart: "region_disjoint (Ptr a x) (n * et_size T) (Ptr b y) (n * et_size T)"
    and enc: "\<And>e. length (et_encode T e) = et_size T"
  shows "reduce_typed T m (Ptr a x) (Ptr b y) n operation =
    Some (PG_SUCCESS, m(a \<mapsto> blit x (reduce_bytes (et_size T) g n
      (slice x (n * et_size T) D) (slice y (n * et_size T) S)) D))"
  using op by (cases operation) (auto simp: reduce_typed_def reduce_loop_eq [OF m fits apart enc])

lemma element_type_sizes [simp]:
  "et_size int32_type = 4" "et_size float_type = 4" "et_size double_type = 8"
  "length (et_encode int32_type e) = 4" "length (et_encode float_type x) = 4"
  "length (et_encode double_type x) = 8"
  by (simp_all add: int32_type_def float_type_def double_type_def)

lemma typed_op_length:
  "typed_op T operation = Some g \<Longrightarrow> (\<And>e. length (et_encode T e) = et_size T) \<Longrightarrow>
   length (g a b) = et_size T"
  by (cases operation) (auto simp: stored_op_def)

lemma byte_op_length:
  "byte_op datatype operation = Some g \<Longrightarrow> length (g a b) = datatype_size datatype"
  by (cases "datatype") (auto dest: typed_op_length)

lemma byte_op_size_pos: "byte_op datatype operation = Some g \<Longrightarrow> 0 < datatype_size datatype"
  by (cases "datatype") auto

lemma reduce_in_place_eq:
  assumes op: "byte_op datatype operation = Some g"
    and m: "m a = Some D" "m b = Some S" and sz: "sz = datatype_size datatype"
    and fits: "x + n * sz \<le> length D" "y + n * sz \<le> length S"
    and apart: "region_disjoint (Ptr a x) (n * sz) (Ptr b y) (n * sz)"
  shows "reduce_in_place m (Ptr a x) (Ptr b y) n datatype operation =
    Some (PG_SUCCESS, m(a \<mapsto> blit x (reduce_bytes sz g n (slice x (n * sz) D) (slice y (n * sz) S)) D))"
proof (cases "n = 0")
  case True
  with m show ?thesis by (auto simp: reduce_in_place_def)
next
  case False
  with op m fits apart sz show ?thesis
    using reduce_typed_eq [of int32_type operation g m a D b S x n y]
      reduce_typed_eq [of float_type operation g m a D b S x n y]
      reduce_typed_eq [of double_type operation g m a D b S x n y]
    by (cases "datatype") (simp_all add: reduce_in_place_def)
qed

text \<open>An unsupported operation or datatype changes nothing and is reported.\<close>

lemma reduce_in_place_unsupported:
  assumes "byte_op datatype operation = None" and "n \<noteq> 0"
  shows "\<exists>err. err \<noteq> PG_SUCCESS \<and>
    reduce_in_place m (Ptr a x) (Ptr b y) n datatype operation = Some (err, m)"
  using assms by (cases "datatype"; cases operation) (auto simp: reduce_in_place_def reduce_typed_def)

section \<open>Every branch of the reduction\<close>

text \<open>
  C20. On buffers that do not overlap, \<open>reduce_in_place\<close> succeeds, sets every element of the
  destination to the operation applied to it and the source's element, and changes no other byte.
\<close>

theorem reduce_elementwise:
  assumes "byte_op dt oper = Some g" and "m a = Some D" and "m b = Some S"
    and "x + n * datatype_size dt \<le> length D" and "y + n * datatype_size dt \<le> length S"
    and "region_disjoint (Ptr a x) (n * datatype_size dt) (Ptr b y) (n * datatype_size dt)"
  shows "\<exists>D'. reduce_in_place m (Ptr a x) (Ptr b y) n dt oper = Some (PG_SUCCESS, m(a \<mapsto> D')) \<and> length D' = length D \<and>
    (\<forall>i<n. slice (x + i * datatype_size dt) (datatype_size dt) D' =
       g (slice (x + i * datatype_size dt) (datatype_size dt) D) (slice (y + i * datatype_size dt) (datatype_size dt) S)) \<and>
    (\<forall>j<length D. j < x \<or> x + n * datatype_size dt \<le> j \<longrightarrow> D' ! j = D ! j)"
proof (intro exI conjI)
  let ?sz = "datatype_size dt"
  let ?R = "reduce_bytes ?sz g n (slice x (n * ?sz) D) (slice y (n * ?sz) S)"
  show "reduce_in_place m (Ptr a x) (Ptr b y) n dt oper = Some (PG_SUCCESS, m(a \<mapsto> blit x ?R D))"
    by (rule reduce_in_place_eq [OF assms(1-3) refl assms(4-6)])
  have R: "length ?R = n * ?sz"
    by (rule length_reduce_bytes) (rule byte_op_length [OF assms(1)])
  with assms(4) show "length (blit x ?R D) = length D" by simp
  have whole: "slice x (n * ?sz) (blit x ?R D) = ?R"
    using R assms(4) by (intro slice_blit_same) simp_all
  show "\<forall>i<n. slice (x + i * ?sz) ?sz (blit x ?R D) = g (slice (x + i * ?sz) ?sz D) (slice (y + i * ?sz) ?sz S)"
  proof (intro allI impI)
    fix i assume i: "i < n"
    then have fit: "i * ?sz + ?sz \<le> n * ?sz"
      by (metis add.commute mult_Suc mult_le_mono1 Suc_leI)
    have "slice (x + i * ?sz) ?sz (blit x ?R D) = slice (i * ?sz) ?sz ?R"
      using slice_slice [OF fit, of x "blit x ?R D"] whole by simp
    also have "\<dots> = g (slice (i * ?sz) ?sz (slice x (n * ?sz) D)) (slice (i * ?sz) ?sz (slice y (n * ?sz) S))"
      by (rule slice_reduce_bytes_elem [OF byte_op_length [OF assms(1)] i])
    finally show "slice (x + i * ?sz) ?sz (blit x ?R D) = g (slice (x + i * ?sz) ?sz D) (slice (y + i * ?sz) ?sz S)"
      by (simp add: slice_slice [OF fit])
  qed
  show "\<forall>j<length D. j < x \<or> x + n * ?sz \<le> j \<longrightarrow> blit x ?R D ! j = D ! j"
    using R assms(4) by (auto simp: nth_blit)
qed

theorem reduce_elementwise_witness:
  "\<exists>D'. reduce_in_place [0 \<mapsto> [9, 3, 0, 0, 0], 1 \<mapsto> [4, 0, 0, 0]] (Ptr 0 1) (Ptr 1 0) 1 PG_INT32 PG_SUM =
     Some (PG_SUCCESS, [0 \<mapsto> [9, 3, 0, 0, 0], 1 \<mapsto> [4, 0, 0, 0], 0 \<mapsto> D']) \<and> D' ! 0 = 9 \<and>
     slice 1 4 D' = [7, 0, 0, 0]"
proof -
  let ?m = "[0 \<mapsto> [9, 3, 0, 0, 0], 1 \<mapsto> [4, 0, 0, 0]] :: memory"
  have sum: "stored_op int32_type (+) [3, 0, 0, 0] [4, 0, 0, 0] = [7, 0, 0, 0]"
    by (simp add: stored_op_def int32_type_def)
  have op: "byte_op PG_INT32 PG_SUM = Some (stored_op int32_type (+))"
    by (simp add: int32_type_def)
  have pre: "?m 0 = Some [9, 3, 0, 0, 0]" "?m 1 = Some [4, 0, 0, 0]"
      "1 + 1 * datatype_size PG_INT32 \<le> length [9 :: byte, 3, 0, 0, 0]"
      "0 + 1 * datatype_size PG_INT32 \<le> length [4 :: byte, 0, 0, 0]"
      "region_disjoint (Ptr 0 1) (1 * datatype_size PG_INT32) (Ptr 1 0) (1 * datatype_size PG_INT32)"
    by simp_all
  from reduce_elementwise [OF op pre]
  obtain D' where D': "reduce_in_place ?m (Ptr 0 1) (Ptr 1 0) 1 PG_INT32 PG_SUM = Some (PG_SUCCESS, ?m(0 \<mapsto> D'))"
    "\<forall>i<1. slice (1 + i * datatype_size PG_INT32) (datatype_size PG_INT32) D' =
       stored_op int32_type (+) (slice (1 + i * datatype_size PG_INT32) (datatype_size PG_INT32) [9, 3, 0, 0, 0])
         (slice (0 + i * datatype_size PG_INT32) (datatype_size PG_INT32) [4, 0, 0, 0])"
    "\<forall>j<length [9 :: byte, 3, 0, 0, 0]. j < 1 \<or> 1 + 1 * datatype_size PG_INT32 \<le> j \<longrightarrow> D' ! j = [9, 3, 0, 0, 0] ! j"
    by blast
  have "slice 1 4 D' = [7, 0, 0, 0]"
    using D'(2) sum by (simp add: slice_def)
  moreover have "D' ! 0 = 9"
    using D'(3) by simp
  ultimately show ?thesis
    using D'(1) by blast
qed

text \<open>
  C24. The error branches of \<open>reduce_in_place\<close>: an empty reduction succeeds whatever else is
  given; otherwise an unknown datatype is reported first, then a null pointer, then an unknown
  operation; the memory stays as it is in all of them.
\<close>

theorem reduce_errors:
  "reduce_in_place m p q 0 dt oper = Some (PG_SUCCESS, m) \<and>
   (n \<noteq> 0 \<longrightarrow> reduce_in_place m p q n (Bad_datatype d) oper = Some (PG_ERR_UNSUPPORTED_DATATYPE, m)) \<and>
   (n \<noteq> 0 \<and> datatype_size dt \<noteq> 0 \<and> (p = NullPtr \<or> q = NullPtr) \<longrightarrow>
      reduce_in_place m p q n dt oper = Some (PG_ERR_INVALID_ARGUMENT, m)) \<and>
   (n \<noteq> 0 \<and> datatype_size dt \<noteq> 0 \<and> p \<noteq> NullPtr \<and> q \<noteq> NullPtr \<longrightarrow>
      reduce_in_place m p q n dt (Bad_operation k) = Some (PG_ERR_UNSUPPORTED_OPERATION, m))"
  by (cases dt) (auto simp: reduce_in_place_def reduce_typed_def)

theorem reduce_errors_witness:
  "reduce_in_place Map.empty NullPtr NullPtr 0 PG_INT32 PG_SUM = Some (PG_SUCCESS, Map.empty) \<and>
   reduce_in_place Map.empty NullPtr NullPtr 3 (Bad_datatype 7) PG_SUM = Some (PG_ERR_UNSUPPORTED_DATATYPE, Map.empty) \<and>
   reduce_in_place Map.empty NullPtr NullPtr 3 PG_FLOAT32 PG_SUM = Some (PG_ERR_INVALID_ARGUMENT, Map.empty) \<and>
   reduce_in_place Map.empty (Ptr 0 0) (Ptr 1 0) 3 PG_FLOAT64 (Bad_operation 3) = Some (PG_ERR_UNSUPPORTED_OPERATION, Map.empty)"
  using reduce_errors [of Map.empty NullPtr NullPtr PG_INT32 PG_SUM 3 7 3]
    reduce_errors [of Map.empty NullPtr NullPtr PG_FLOAT32 PG_SUM 3 7 3]
    reduce_errors [of Map.empty "Ptr 0 0" "Ptr 1 0" PG_FLOAT64 PG_SUM 3 7 3] by simp

end
