(* ===== verification/Transport_Api.thy ===== *)
theory Transport_Api
  imports Reduction_Ops
begin

text \<open>
  The transport interface of \<open>include/pg_transport.h\<close> and the programs written against
  it. The collective code calls the transport through a table of function pointers and, in
  between, works on its own buffers; other ranks run at the same time. A routine is
  therefore a value of type \<open>prog\<close>: a result, or the next call together with what the
  routine does with the answer. The same program can then be run against any
  implementation of the table (\<open>exec_call\<close>), step by step and interleaved with other
  ranks.
\<close>

section \<open>Calls and programs\<close>

text \<open>
  The calls of a collective: the transport operations it uses, and its accesses to buffers
  (\<open>reduce_in_place\<close>, \<open>memcpy\<close> and the \<open>resize\<close> of a vector). The answer is the
  returned \<open>int\<close> and the request structure as the callee leaves it.
\<close>

datatype call =
  Post_send_next pointer nat pg_tag pg_transfer_mode pg_request
| Post_recv_prev pointer nat pg_tag pg_transfer_mode pg_request
| Wait pg_request
| Reduce_in_place pointer pointer nat DATATYPE OPERATION
| Memcpy pointer pointer nat
| Resize nat nat

type_synonym resp = "int \<times> pg_request"

datatype 'a prog = Ret 'a | Call call "resp \<Rightarrow> 'a prog"

primrec bind :: "'a prog \<Rightarrow> ('a \<Rightarrow> 'b prog) \<Rightarrow> 'b prog" where
  "bind (Ret a) f = f a"
| "bind (Call c k) f = Call c (\<lambda>r. bind (k r) f)"

text \<open>Sequencing with an early \<open>return status\<close>: \<open>Inl\<close> leaves the routine.\<close>

definition bindE :: "('e + 'a) prog \<Rightarrow> ('a \<Rightarrow> ('e + 'b) prog) \<Rightarrow> ('e + 'b) prog" where
  "bindE p f = bind p (\<lambda>x. case x of Inl e \<Rightarrow> Ret (Inl e) | Inr a \<Rightarrow> f a)"

lemma bind_assoc: "bind (bind p f) g = bind p (\<lambda>x. bind (f x) g)"
  by (induction p) auto

lemma bind_Ret [simp]: "bind p Ret = p"
  by (induction p) auto

section \<open>The calls as the code makes them\<close>

definition pg_transport_post_send_next ::
    "pointer \<Rightarrow> nat \<Rightarrow> pg_tag \<Rightarrow> pg_transfer_mode \<Rightarrow> pg_request \<Rightarrow> resp prog" where
  "pg_transport_post_send_next buffer n tag mode request =
     Call (Post_send_next buffer n tag mode request) Ret"

definition pg_transport_post_recv_prev ::
    "pointer \<Rightarrow> nat \<Rightarrow> pg_tag \<Rightarrow> pg_transfer_mode \<Rightarrow> pg_request \<Rightarrow> resp prog" where
  "pg_transport_post_recv_prev buffer n tag mode request =
     Call (Post_recv_prev buffer n tag mode request) Ret"

definition pg_transport_wait :: "pg_request \<Rightarrow> resp prog" where
  "pg_transport_wait request = Call (Wait request) Ret"

definition call_reduce_in_place ::
    "pointer \<Rightarrow> pointer \<Rightarrow> nat \<Rightarrow> DATATYPE \<Rightarrow> OPERATION \<Rightarrow> int prog" where
  "call_reduce_in_place destination source count datatype operation =
     Call (Reduce_in_place destination source count datatype operation) (\<lambda>r. Ret (fst r))"

definition call_memcpy :: "pointer \<Rightarrow> pointer \<Rightarrow> nat \<Rightarrow> unit prog" where
  "call_memcpy destination source n = Call (Memcpy destination source n) (\<lambda>_. Ret ())"

definition call_resize :: "nat \<Rightarrow> nat \<Rightarrow> unit prog" where
  "call_resize block n = Call (Resize block n) (\<lambda>_. Ret ())"

section \<open>Buffer calls\<close>

definition resize_bytes :: "nat \<Rightarrow> bytes \<Rightarrow> bytes" where
  "resize_bytes n bs = take n bs @ replicate (n - length bs) 0"

text \<open>Buffer accesses; \<open>memcpy\<close> on overlapping regions is undefined, hence None.\<close>

fun mem_call :: "call \<Rightarrow> memory \<Rightarrow> (int \<times> memory) option" where
  "mem_call (Reduce_in_place destination source count datatype operation) m =
     reduce_in_place m destination source count datatype operation"
| "mem_call (Memcpy destination source n) m =
     (if region_disjoint destination n source n then
        (case load m source n of
           None \<Rightarrow> None
         | Some ds \<Rightarrow> map_option (Pair 0) (store m destination ds))
      else None)"
| "mem_call (Resize b n) m =
     (case m b of None \<Rightarrow> None | Some bs \<Rightarrow> Some (0, m(b \<mapsto> resize_bytes n bs)))"
| "mem_call _ m = None"

lemma length_resize_bytes [simp]: "length (resize_bytes n bs) = n"
  by (simp add: resize_bytes_def)

section \<open>The table of operations\<close>

text \<open>
  An operation gets the \<open>implementation\<close> pointer of the transport it is called on and the
  state \<open>'w\<close> of the world behind it. None means that the call cannot finish in this state:
  it blocks, or its behaviour is undefined.
\<close>

record 'w pg_transport_ops =
  op_rank :: "nat option \<Rightarrow> 'w \<Rightarrow> int"
  op_size :: "nat option \<Rightarrow> 'w \<Rightarrow> int"
  op_post_send_next :: "nat option \<Rightarrow> pointer \<Rightarrow> nat \<Rightarrow> pg_tag \<Rightarrow> pg_transfer_mode \<Rightarrow> pg_request \<Rightarrow>
    'w \<Rightarrow> ('w \<times> resp) option"
  op_post_recv_prev :: "nat option \<Rightarrow> pointer \<Rightarrow> nat \<Rightarrow> pg_tag \<Rightarrow> pg_transfer_mode \<Rightarrow> pg_request \<Rightarrow>
    'w \<Rightarrow> ('w \<times> resp) option"
  op_test :: "nat option \<Rightarrow> pg_request option \<Rightarrow> int option \<Rightarrow> 'w \<Rightarrow> ('w \<times> int \<times> int option) option"
  op_wait :: "nat option \<Rightarrow> pg_request \<Rightarrow> 'w \<Rightarrow> ('w \<times> resp) option"
  op_progress :: "nat option \<Rightarrow> 'w \<Rightarrow> ('w \<times> int) option"
  op_destroy :: "(nat option \<Rightarrow> 'w \<Rightarrow> 'w) option"

record 'w pg_transport =
  implementation :: "nat option"
  operations :: "'w pg_transport_ops option"

definition pg_transport_rank :: "'w pg_transport \<Rightarrow> 'w \<Rightarrow> int" where
  "pg_transport_rank transport w = op_rank (the (operations transport)) (implementation transport) w"

definition pg_transport_size :: "'w pg_transport \<Rightarrow> 'w \<Rightarrow> int" where
  "pg_transport_size transport w = op_size (the (operations transport)) (implementation transport) w"

definition pg_transport_test :: "'w pg_transport \<Rightarrow> pg_request option \<Rightarrow> int option \<Rightarrow> 'w \<Rightarrow>
    ('w \<times> int \<times> int option) option" where
  "pg_transport_test transport request completed w =
     op_test (the (operations transport)) (implementation transport) request completed w"

definition pg_transport_progress :: "'w pg_transport \<Rightarrow> 'w \<Rightarrow> ('w \<times> int) option" where
  "pg_transport_progress transport w = op_progress (the (operations transport)) (implementation transport) w"

definition pg_transport_destroy :: "'w pg_transport option \<Rightarrow> 'w \<Rightarrow> 'w" where
  "pg_transport_destroy transport w =
     (case transport of
        None \<Rightarrow> w
      | Some t \<Rightarrow>
          (case operations t of
             None \<Rightarrow> w
           | Some ops \<Rightarrow>
               (case op_destroy ops of None \<Rightarrow> w | Some destroy \<Rightarrow> destroy (implementation t) w)))"

text \<open>
  One call of a program: a transport operation goes through the table, a buffer access to
  the memory of the calling rank (\<open>get_mem\<close>, \<open>put_mem\<close>).
\<close>

definition exec_call :: "'w pg_transport \<Rightarrow> ('w \<Rightarrow> memory) \<Rightarrow> (memory \<Rightarrow> 'w \<Rightarrow> 'w) \<Rightarrow> call \<Rightarrow> 'w \<Rightarrow>
    ('w \<times> resp) option" where
  "exec_call transport get_mem put_mem c w =
     (case operations transport of
        None \<Rightarrow> None
      | Some ops \<Rightarrow>
          (case c of
             Post_send_next buffer n tag mode request \<Rightarrow>
               op_post_send_next ops (implementation transport) buffer n tag mode request w
           | Post_recv_prev buffer n tag mode request \<Rightarrow>
               op_post_recv_prev ops (implementation transport) buffer n tag mode request w
           | Wait request \<Rightarrow> op_wait ops (implementation transport) request w
           | _ \<Rightarrow>
               (case mem_call c (get_mem w) of
                  None \<Rightarrow> None
                | Some (status, m) \<Rightarrow> Some (put_mem m w, status, null_request))))"

end
