(* ===== verification/Transport_Contract.thy ===== *)
theory Transport_Contract
  imports Transport_Api
begin

text \<open>
  The contract of \<open>include/pg_transport.h\<close> as an executable specification of one rank's
  endpoint. It keeps the requests that are posted and not yet waited for, and refuses (None)
  every call the contract forbids: touching a receive buffer, or writing to a send buffer,
  of an outstanding request, posting over such a buffer, two outstanding receives with one
  tag, an empty transfer, a wait for a request that is not outstanding. What the previous
  rank sends is an input: a stream of payloads for every tag.
\<close>

section \<open>The endpoint\<close>

datatype RequestKind = Send | Receive

record outstanding =
  out_kind :: RequestKind
  out_buffer :: pointer
  out_bytes :: nat
  out_tag :: pg_tag

record endpoint =
  ep_mem :: memory
  ep_out :: "(nat \<times> outstanding) list"
  ep_next_id :: "64 word"
  ep_next_addr :: nat
  ep_in :: "pg_tag \<Rightarrow> bytes list"

text \<open>One event per call; only sends and completed receives are visible to other ranks.\<close>

datatype event = Sent pg_tag bytes | Received pg_tag | Silent

definition may_read :: "endpoint \<Rightarrow> pointer \<Rightarrow> nat \<Rightarrow> bool" where
  "may_read ep p n =
     list_all (\<lambda>(a, r). out_kind r = Receive \<longrightarrow> region_disjoint (out_buffer r) (out_bytes r) p n) (ep_out ep)"

definition may_write :: "endpoint \<Rightarrow> pointer \<Rightarrow> nat \<Rightarrow> bool" where
  "may_write ep p n =
     list_all (\<lambda>(a, r). region_disjoint (out_buffer r) (out_bytes r) p n) (ep_out ep)"

definition tag_free :: "endpoint \<Rightarrow> pg_tag \<Rightarrow> bool" where
  "tag_free ep t = list_all (\<lambda>(a, r). out_kind r = Receive \<longrightarrow> out_tag r \<noteq> t) (ep_out ep)"

fun in_block :: "nat \<Rightarrow> pointer \<Rightarrow> bool" where
  "in_block b NullPtr = False"
| "in_block b (Ptr a i) = (a = b)"

definition remove_out :: "nat \<Rightarrow> (nat \<times> outstanding) list \<Rightarrow> (nat \<times> outstanding) list" where
  "remove_out a = filter (\<lambda>(b, r). b \<noteq> a)"

definition ep_add :: "outstanding \<Rightarrow> endpoint \<Rightarrow> endpoint" where
  "ep_add r ep = ep\<lparr>ep_out := ep_out ep @ [(ep_next_addr ep, r)],
                    ep_next_id := ep_next_id ep + 1, ep_next_addr := Suc (ep_next_addr ep)\<rparr>"

definition ep_new_request :: "endpoint \<Rightarrow> pg_request" where
  "ep_new_request ep = \<lparr>id = ep_next_id ep, internal = Some (ep_next_addr ep)\<rparr>"

fun ep_wait :: "nat \<Rightarrow> endpoint \<Rightarrow> (endpoint \<times> resp \<times> event) option" where
  "ep_wait a ep =
     (case map_of (ep_out ep) a of
        None \<Rightarrow> None
      | Some r \<Rightarrow>
          (case out_kind r of
             Send \<Rightarrow> Some (ep\<lparr>ep_out := remove_out a (ep_out ep)\<rparr>, (0, null_request), Silent)
           | Receive \<Rightarrow>
               (case ep_in ep (out_tag r) of
                  [] \<Rightarrow> None
                | d # ds \<Rightarrow>
                    if length d = out_bytes r then
                      (case store (ep_mem ep) (out_buffer r) d of
                         None \<Rightarrow> None
                       | Some m \<Rightarrow>
                           Some (ep\<lparr>ep_mem := m, ep_out := remove_out a (ep_out ep),
                                    ep_in := (ep_in ep)(out_tag r := ds)\<rparr>,
                                 (0, null_request), Received (out_tag r)))
                    else None)))"

definition buffer_call_allowed :: "call \<Rightarrow> endpoint \<Rightarrow> bool" where
  "buffer_call_allowed c ep =
     (case c of
        Reduce_in_place destination source count datatype operation \<Rightarrow>
          may_write ep destination (count * datatype_size datatype) \<and>
          may_read ep source (count * datatype_size datatype)
      | Memcpy destination source n \<Rightarrow> may_write ep destination n \<and> may_read ep source n
      | Resize b n \<Rightarrow> list_all (\<lambda>(a, r). \<not> in_block b (out_buffer r)) (ep_out ep)
      | _ \<Rightarrow> False)"

fun ep_call :: "call \<Rightarrow> endpoint \<Rightarrow> (endpoint \<times> resp \<times> event) option" where
  "ep_call (Post_send_next p n t mode rq) ep =
     (if internal rq = None \<and> 0 < n \<and> may_read ep p n then
        (case load (ep_mem ep) p n of
           None \<Rightarrow> None
         | Some d \<Rightarrow>
             Some (ep_add \<lparr>out_kind = Send, out_buffer = p, out_bytes = n, out_tag = t\<rparr> ep,
                   (0, ep_new_request ep), Sent t d))
      else None)"
| "ep_call (Post_recv_prev p n t mode rq) ep =
     (if internal rq = None \<and> 0 < n \<and> may_write ep p n \<and> tag_free ep t \<and>
         load (ep_mem ep) p n \<noteq> None then
        Some (ep_add \<lparr>out_kind = Receive, out_buffer = p, out_bytes = n, out_tag = t\<rparr> ep,
              (0, ep_new_request ep), Silent)
      else None)"
| "ep_call (Wait rq) ep = (case internal rq of None \<Rightarrow> None | Some a \<Rightarrow> ep_wait a ep)"
| "ep_call c ep =
     (if buffer_call_allowed c ep then
        map_option (\<lambda>(status, m). (ep\<lparr>ep_mem := m\<rparr>, (status, null_request), Silent))
          (mem_call c (ep_mem ep))
      else None)"

text \<open>
  Running a program against the contract: its result, the endpoint it leaves and one event
  per call. None when the program breaks the contract or needs a message that never comes.
\<close>

primrec ep_run :: "'a prog \<Rightarrow> endpoint \<Rightarrow> ('a \<times> endpoint \<times> event list) option" where
  "ep_run (Ret a) ep = Some (a, ep, [])"
| "ep_run (Call c k) ep =
     (case ep_call c ep of
        None \<Rightarrow> None
      | Some (ep', x, ev) \<Rightarrow>
          (case ep_run (k x) ep' of
             None \<Rightarrow> None
           | Some (a, ep'', evs) \<Rightarrow> Some (a, ep'', ev # evs)))"

section \<open>Composition\<close>

lemma ep_run_bind:
  "ep_run (bind p f) ep =
     (case ep_run p ep of
        None \<Rightarrow> None
      | Some (a, ep', evs) \<Rightarrow>
          (case ep_run (f a) ep' of
             None \<Rightarrow> None
           | Some (b, ep'', evs') \<Rightarrow> Some (b, ep'', evs @ evs')))"
  by (induction p arbitrary: ep) (auto split: option.splits)

lemma ep_run_bindI:
  "ep_run p ep = Some (a, ep', evs) \<Longrightarrow> ep_run (f a) ep' = Some (b, ep'', evs') \<Longrightarrow>
   ep_run (bind p f) ep = Some (b, ep'', evs @ evs')"
  by (simp add: ep_run_bind)

lemma ep_run_bindE:
  "ep_run p ep = Some (Inr a, ep', evs) \<Longrightarrow> ep_run (f a) ep' = Some (b, ep'', evs') \<Longrightarrow>
   ep_run (bindE p f) ep = Some (b, ep'', evs @ evs')"
  by (simp add: bindE_def ep_run_bind)

lemma ep_run_bindE_fail:
  "ep_run p ep = Some (Inl e, ep', evs) \<Longrightarrow> ep_run (bindE p f) ep = Some (Inl e, ep', evs)"
  by (simp add: bindE_def ep_run_bind)

section \<open>The input streams\<close>

definition comm :: "event list \<Rightarrow> event list" where
  "comm = filter (\<lambda>ev. ev \<noteq> Silent)"

fun sent_with :: "pg_tag \<Rightarrow> event list \<Rightarrow> bytes list" where
  "sent_with t [] = []"
| "sent_with t (Sent u d # evs) = (if u = t then d # sent_with t evs else sent_with t evs)"
| "sent_with t (_ # evs) = sent_with t evs"

definition received_with :: "pg_tag \<Rightarrow> event list \<Rightarrow> nat" where
  "received_with t evs = length (filter (\<lambda>ev. ev = Received t) evs)"

lemma comm_append [simp]: "comm (xs @ ys) = comm xs @ comm ys"
  by (simp add: comm_def)

lemma sent_with_append [simp]: "sent_with t (xs @ ys) = sent_with t xs @ sent_with t ys"
  by (induction t xs rule: sent_with.induct) auto

lemma sent_with_comm [simp]: "sent_with t (comm evs) = sent_with t evs"
  by (induction t evs rule: sent_with.induct) (auto simp: comm_def)

lemma received_with_append [simp]:
  "received_with t (xs @ ys) = received_with t xs + received_with t ys"
  by (simp add: received_with_def)

lemma received_with_comm [simp]: "received_with t (comm evs) = received_with t evs"
  by (auto simp: received_with_def comm_def intro!: arg_cong [of _ _ length] filter_cong)

text \<open>Only a completed receive consumes an input, and it consumes the first of its tag.\<close>

lemma ep_call_in:
  assumes "ep_call c ep = Some (ep', x, ev)"
  shows "ep_in ep' = (case ev of Received t \<Rightarrow> (ep_in ep)(t := tl (ep_in ep t)) | _ \<Rightarrow> ep_in ep)"
  using assms
  by (cases c) (auto simp: ep_add_def split: if_splits option.splits list.splits RequestKind.splits)

lemma ep_call_Received:
  assumes "ep_call c ep = Some (ep', x, Received t)"
  shows "\<exists>rq a r d ds. c = Wait rq \<and> internal rq = Some a \<and> map_of (ep_out ep) a = Some r \<and>
    out_kind r = Receive \<and> out_tag r = t \<and> ep_in ep t = d # ds \<and> length d = out_bytes r"
  using assms
  by (cases c) (auto split: if_splits option.splits list.splits RequestKind.splits)

text \<open>What a program received and what it left is what it was given.\<close>

lemma ep_run_inputs:
  "ep_run p ep = Some (a, ep', evs) \<Longrightarrow>
   length (ep_in ep t) = received_with t evs + length (ep_in ep' t)"
proof (induction p arbitrary: ep a ep' evs)
  case (Ret a)
  then show ?case by (simp add: received_with_def)
next
  case (Call c k)
  then obtain ep1 x ev evs1 where c: "ep_call c ep = Some (ep1, x, ev)"
    and r: "ep_run (k x) ep1 = Some (a, ep', evs1)" and evs: "evs = ev # evs1"
    by (auto split: option.splits)
  have "length (ep_in ep1 t) = received_with t evs1 + length (ep_in ep' t)"
    using Call.IH [OF _ r] by blast
  then show ?case
    using ep_call_in [OF c] ep_call_Received [of c ep ep1 x] c evs
    by (cases ev) (auto simp: received_with_def split: if_splits)
qed

text \<open>The payloads of a list of messages, in front of a given stream.\<close>

definition feed :: "(pg_tag \<times> bytes) list \<Rightarrow> (pg_tag \<Rightarrow> bytes list) \<Rightarrow> pg_tag \<Rightarrow> bytes list" where
  "feed ms rest t = map snd (filter (\<lambda>m. fst m = t) ms) @ rest t"

lemma feed_Nil [simp]: "feed [] rest = rest"
  by (simp add: feed_def fun_eq_iff)

lemma feed_append [simp]: "feed (ms @ ns) rest = feed ms (feed ns rest)"
  by (simp add: feed_def fun_eq_iff)

lemma feed_Cons_same [simp]: "feed ((t, d) # ms) rest t = d # feed ms rest t"
  by (simp add: feed_def)

lemma feed_Cons_pop [simp]: "(feed ((t, d) # ms) rest)(t := feed ms rest t) = feed ms rest"
  by (auto simp: feed_def fun_eq_iff)

definition sent_events :: "(pg_tag \<times> bytes) list \<Rightarrow> event list" where
  "sent_events ms = map (\<lambda>(t, d). Sent t d) ms"

definition received_events :: "(pg_tag \<times> bytes) list \<Rightarrow> event list" where
  "received_events ms = map (\<lambda>(t, d). Received t) ms"

lemma sent_with_sent_events [simp]: "sent_with t (sent_events ms) = feed ms (\<lambda>_. []) t"
  by (induction ms) (auto simp: sent_events_def feed_def)

lemma sent_with_received_events [simp]: "sent_with t (received_events ms) = []"
  by (induction ms) (auto simp: received_events_def)

lemma received_with_received_events [simp]:
  "received_with t (received_events ms) = length (feed ms (\<lambda>_. []) t)"
  by (induction ms) (auto simp: received_events_def received_with_def feed_def)

lemma received_with_sent_events [simp]: "received_with t (sent_events ms) = 0"
  by (auto simp: sent_events_def received_with_def filter_empty_conv)

end
