(* ===== verification/Mock_Transport.thy ===== *)
theory Mock_Transport
  imports Transport_Contract
begin

text \<open>
  \<open>tests/mock_transport.cpp\<close>: the in-process transport the collective tests run on, one
  endpoint per rank and one thread per endpoint. A post or a wait runs under the ring's
  mutex or touches only its own endpoint, so it is one step. Allocations of a rank are
  numbered in order (\<open>next_addr\<close>); each rank has its own buffers (\<open>memories\<close>).
  \<open>heap_exhausted\<close> says that \<open>new (std::nothrow)\<close> returns null.
\<close>

section \<open>State\<close>

record Message =
  msg_tag :: pg_tag
  payload :: bytes

record mock_transport_stats =
  send_requests :: "64 word"
  receive_requests :: "64 word"
  sent_bytes :: "64 word"
  received_bytes :: "64 word"
  auto_requests :: "64 word"
  eager_requests :: "64 word"
  rendezvous_requests :: "64 word"
  current_outstanding_requests :: "64 word"
  maximum_outstanding_requests :: "64 word"

definition zero_stats :: mock_transport_stats where
  "zero_stats = \<lparr>send_requests = 0, receive_requests = 0, sent_bytes = 0, received_bytes = 0,
     auto_requests = 0, eager_requests = 0, rendezvous_requests = 0,
     current_outstanding_requests = 0, maximum_outstanding_requests = 0\<rparr>"

record MockEndpoint =
  me_rank :: int
  me_world_size :: int
  next_request_id :: "64 word"
  stats :: mock_transport_stats

record RequestState =
  kind :: RequestKind
  receive_buffer :: pointer
  req_bytes :: nat
  req_tag :: pg_tag
  completed :: bool
  status :: int

record mock_world =
  incoming :: "Message list list"
  endpoints :: "nat \<Rightarrow> MockEndpoint option"
  requests :: "nat \<Rightarrow> nat \<Rightarrow> RequestState option"
  next_addr :: "nat \<Rightarrow> nat"
  memories :: "nat \<Rightarrow> memory"
  heap_exhausted :: bool

section \<open>Statistics\<close>

definition record_mode :: "pg_transfer_mode \<Rightarrow> mock_transport_stats \<Rightarrow> mock_transport_stats" where
  "record_mode mode s =
     (case mode of
        PG_TRANSFER_AUTO \<Rightarrow> s\<lparr>auto_requests := auto_requests s + 1\<rparr>
      | PG_TRANSFER_EAGER \<Rightarrow> s\<lparr>eager_requests := eager_requests s + 1\<rparr>
      | PG_TRANSFER_RENDEZVOUS \<Rightarrow> s\<lparr>rendezvous_requests := rendezvous_requests s + 1\<rparr>
      | Bad_mode _ \<Rightarrow> s)"

definition record_post :: "RequestKind \<Rightarrow> nat \<Rightarrow> pg_transfer_mode \<Rightarrow> mock_transport_stats \<Rightarrow>
    mock_transport_stats" where
  "record_post k n mode s =
     (let s1 = (if k = Send
                then s\<lparr>send_requests := send_requests s + 1, sent_bytes := sent_bytes s + word_of_nat n\<rparr>
                else s\<lparr>receive_requests := receive_requests s + 1,
                       received_bytes := received_bytes s + word_of_nat n\<rparr>);
          s2 = record_mode mode s1;
          s3 = s2\<lparr>current_outstanding_requests := current_outstanding_requests s2 + 1\<rparr>
      in s3\<lparr>maximum_outstanding_requests :=
              max (maximum_outstanding_requests s3) (current_outstanding_requests s3)\<rparr>)"

definition record_completion :: "mock_transport_stats \<Rightarrow> mock_transport_stats" where
  "record_completion s =
     (if current_outstanding_requests s > 0
      then s\<lparr>current_outstanding_requests := current_outstanding_requests s - 1\<rparr> else s)"

definition update_endpoint :: "nat \<Rightarrow> (MockEndpoint \<Rightarrow> MockEndpoint) \<Rightarrow> mock_world \<Rightarrow> mock_world" where
  "update_endpoint r f w = w\<lparr>endpoints := (endpoints w)(r := map_option f (endpoints w r))\<rparr>"

section \<open>Endpoints\<close>

definition endpoint_of :: "nat option \<Rightarrow> mock_world \<Rightarrow> MockEndpoint option" where
  "endpoint_of impl w = (case impl of None \<Rightarrow> None | Some r \<Rightarrow> endpoints w r)"

definition mock_rank :: "nat option \<Rightarrow> mock_world \<Rightarrow> int" where
  "mock_rank impl w = (case endpoint_of impl w of None \<Rightarrow> -1 | Some e \<Rightarrow> me_rank e)"

definition mock_size :: "nat option \<Rightarrow> mock_world \<Rightarrow> int" where
  "mock_size impl w = (case endpoint_of impl w of None \<Rightarrow> -1 | Some e \<Rightarrow> me_world_size e)"

section \<open>Completing a receive\<close>

text \<open>
  The scan of the queue for the first message with the request's tag. The answer holds the
  request, the memory and the queue as they are left, and whether a message was found; None
  is the undefined \<open>memcpy\<close> to an invalid buffer.
\<close>

fun try_complete_receive_locked :: "RequestState \<Rightarrow> memory \<Rightarrow> Message list \<Rightarrow>
    (RequestState \<times> memory \<times> Message list \<times> bool) option" where
  "try_complete_receive_locked st m [] = Some (st, m, [], False)"
| "try_complete_receive_locked st m (msg # queue) =
     (if msg_tag msg \<noteq> req_tag st then
        (case try_complete_receive_locked st m queue of
           None \<Rightarrow> None
         | Some (st', m', queue', found) \<Rightarrow> Some (st', m', msg # queue', found))
      else if length (payload msg) \<noteq> req_bytes st then
        Some (st\<lparr>status := -1, completed := True\<rparr>, m, queue, True)
      else if req_bytes st > 0 then
        (case store m (receive_buffer st) (payload msg) of
           None \<Rightarrow> None
         | Some m' \<Rightarrow> Some (st\<lparr>status := 0, completed := True\<rparr>, m', queue, True))
      else Some (st\<lparr>status := 0, completed := True\<rparr>, m, queue, True))"

section \<open>Posting\<close>

definition register_request :: "nat \<Rightarrow> RequestState \<Rightarrow> RequestKind \<Rightarrow> nat \<Rightarrow> pg_transfer_mode \<Rightarrow>
    MockEndpoint \<Rightarrow> mock_world \<Rightarrow> mock_world \<times> resp" where
  "register_request r st k n mode e w =
     (let a = next_addr w r;
          w1 = w\<lparr>requests := (requests w)(r := (requests w r)(a := Some st)),
                 next_addr := (next_addr w)(r := Suc a)\<rparr>;
          w2 = update_endpoint r
                 (\<lambda>e. e\<lparr>stats := record_post k n mode (stats e), next_request_id := next_request_id e + 1\<rparr>) w1
      in (w2, 0, \<lparr>id = next_request_id e, internal = Some a\<rparr>))"

definition mock_post_send_next :: "nat option \<Rightarrow> pointer \<Rightarrow> nat \<Rightarrow> pg_tag \<Rightarrow> pg_transfer_mode \<Rightarrow>
    pg_request \<Rightarrow> mock_world \<Rightarrow> (mock_world \<times> resp) option" where
  "mock_post_send_next impl buffer n tag mode request w =
     (if internal request \<noteq> None \<or> (buffer = NullPtr \<and> n > 0) then Some (w, -1, request)
      else
        case (impl, endpoint_of impl w) of
          (Some r, Some e) \<Rightarrow>
            if heap_exhausted w then Some (w, -1, request)
            else
              (case (if n > 0 then load (memories w r) buffer n else Some []) of
                 None \<Rightarrow> None
               | Some d \<Rightarrow>
                   let destination = nat ((me_rank e + 1) mod me_world_size e);
                       st = \<lparr>kind = Send, receive_buffer = NullPtr, req_bytes = 0, req_tag = 0,
                             completed = True, status = 0\<rparr>;
                       w1 = w\<lparr>incoming := (incoming w)
                              [destination := incoming w ! destination @ [\<lparr>msg_tag = tag, payload = d\<rparr>]]\<rparr>
                   in Some (register_request r st Send n mode e w1))
        | _ \<Rightarrow> Some (w, -1, request))"

definition mock_post_recv_prev :: "nat option \<Rightarrow> pointer \<Rightarrow> nat \<Rightarrow> pg_tag \<Rightarrow> pg_transfer_mode \<Rightarrow>
    pg_request \<Rightarrow> mock_world \<Rightarrow> (mock_world \<times> resp) option" where
  "mock_post_recv_prev impl buffer n tag mode request w =
     (if internal request \<noteq> None \<or> (buffer = NullPtr \<and> n > 0) then Some (w, -1, request)
      else
        case (impl, endpoint_of impl w) of
          (Some r, Some e) \<Rightarrow>
            if heap_exhausted w then Some (w, -1, request)
            else
              let st = \<lparr>kind = Receive, receive_buffer = buffer, req_bytes = n, req_tag = tag,
                        completed = False, status = 0\<rparr>;
                  own = nat (me_rank e)
              in (case try_complete_receive_locked st (memories w r) (incoming w ! own) of
                    None \<Rightarrow> None
                  | Some (st', m, queue, found) \<Rightarrow>
                      Some (register_request r st' Receive n mode e
                              (w\<lparr>incoming := (incoming w)[own := queue],
                                 memories := (memories w)(r := m)\<rparr>)))
        | _ \<Rightarrow> Some (w, -1, request))"

section \<open>Testing and waiting\<close>

text \<open>\<open>request\<close> and \<open>completed\<close> are None when the pointers are null.\<close>

definition mock_test :: "nat option \<Rightarrow> pg_request option \<Rightarrow> int option \<Rightarrow> mock_world \<Rightarrow>
    (mock_world \<times> int \<times> int option) option" where
  "mock_test impl request out w =
     (case (request, out, impl) of
        (Some rq, Some _, Some r) \<Rightarrow>
          (case internal rq of
             None \<Rightarrow> Some (w, -1, out)
           | Some a \<Rightarrow>
               (case (requests w r a, endpoints w r) of
                  (Some st, Some e) \<Rightarrow>
                    (case (if \<not> completed st \<and> kind st = Receive
                           then try_complete_receive_locked st (memories w r) (incoming w ! nat (me_rank e))
                           else Some (st, memories w r, incoming w ! nat (me_rank e), completed st)) of
                       None \<Rightarrow> None
                     | Some (st', m, queue, found) \<Rightarrow>
                         Some (w\<lparr>incoming := (incoming w)[nat (me_rank e) := queue],
                                 memories := (memories w)(r := m),
                                 requests := (requests w)(r := (requests w r)(a := Some st'))\<rparr>,
                               if completed st' then status st' else 0,
                               Some (if completed st' then 1 else 0)))
                | _ \<Rightarrow> None))
      | _ \<Rightarrow> Some (w, -1, out))"

text \<open>
  A wait for a receive blocks (None) until \<open>try_complete_receive_locked\<close> finds the message;
  the request state is then deleted and the handle cleared.
\<close>

definition finish_wait :: "nat \<Rightarrow> nat \<Rightarrow> int \<Rightarrow> mock_world \<Rightarrow> mock_world \<times> resp" where
  "finish_wait r a st w =
     (let w1 = update_endpoint r (\<lambda>e. e\<lparr>stats := record_completion (stats e)\<rparr>) w
      in (w1\<lparr>requests := (requests w1)(r := (requests w1 r)(a := None))\<rparr>, st, null_request))"

definition mock_wait :: "nat option \<Rightarrow> pg_request \<Rightarrow> mock_world \<Rightarrow> (mock_world \<times> resp) option" where
  "mock_wait impl request w =
     (case internal request of
        None \<Rightarrow> Some (w, -1, request)
      | Some a \<Rightarrow>
          (case impl of
             None \<Rightarrow> None
           | Some r \<Rightarrow>
               (case (requests w r a, endpoints w r) of
                  (Some st, Some e) \<Rightarrow>
                    if \<not> completed st \<and> kind st = Receive then
                      (case try_complete_receive_locked st (memories w r) (incoming w ! nat (me_rank e)) of
                         Some (st', m, queue, True) \<Rightarrow>
                           Some (finish_wait r a (status st')
                             (w\<lparr>incoming := (incoming w)[nat (me_rank e) := queue],
                                memories := (memories w)(r := m)\<rparr>))
                       | _ \<Rightarrow> None)
                    else Some (finish_wait r a (status st) w)
                | _ \<Rightarrow> None)))"

definition mock_progress :: "nat option \<Rightarrow> mock_world \<Rightarrow> (mock_world \<times> int) option" where
  "mock_progress impl w = Some (w, 0)"

definition mock_destroy :: "nat option \<Rightarrow> mock_world \<Rightarrow> mock_world" where
  "mock_destroy impl w =
     (case impl of None \<Rightarrow> w | Some r \<Rightarrow> w\<lparr>endpoints := (endpoints w)(r := None)\<rparr>)"

definition kMockOperations :: "mock_world pg_transport_ops" where
  "kMockOperations = \<lparr>op_rank = mock_rank, op_size = mock_size,
     op_post_send_next = mock_post_send_next, op_post_recv_prev = mock_post_recv_prev,
     op_test = mock_test, op_wait = mock_wait, op_progress = mock_progress,
     op_destroy = Some mock_destroy\<rparr>"

section \<open>Groups\<close>

text \<open>The world with the ring and the endpoints of all ranks, and the transports returned.\<close>

definition mock_endpoint :: "int \<Rightarrow> nat \<Rightarrow> MockEndpoint" where
  "mock_endpoint world_size r =
     \<lparr>me_rank = int r, me_world_size = world_size, next_request_id = 1, stats = zero_stats\<rparr>"

definition mock_transport :: "nat \<Rightarrow> mock_world pg_transport" where
  "mock_transport r = \<lparr>implementation = Some r, operations = Some kMockOperations\<rparr>"

definition mock_transport_group_create :: "int \<Rightarrow> bool \<Rightarrow> (nat \<Rightarrow> memory) \<Rightarrow> bool \<Rightarrow>
    int \<times> (mock_world \<times> mock_world pg_transport list) option" where
  "mock_transport_group_create world_size transports_null mems exhausted =
     (if world_size \<le> 0 \<or> transports_null then (-1, None)
      else if exhausted then (-1, None)
      else
        (0, Some (\<lparr>incoming = replicate (nat world_size) [],
                   endpoints = (\<lambda>r. if r < nat world_size then Some (mock_endpoint world_size r) else None),
                   requests = (\<lambda>r a. None), next_addr = (\<lambda>r. 0), memories = mems,
                   heap_exhausted = False\<rparr>,
                  map mock_transport [0..<nat world_size])))"

definition mock_transport_get_stats :: "nat option \<Rightarrow> mock_world \<Rightarrow> int \<times> mock_transport_stats option" where
  "mock_transport_get_stats impl w =
     (case endpoint_of impl w of None \<Rightarrow> (-1, None) | Some e \<Rightarrow> (0, Some (stats e)))"

definition mock_transport_reset_stats :: "nat option \<Rightarrow> mock_world \<Rightarrow> mock_world \<times> int" where
  "mock_transport_reset_stats impl w =
     (case (impl, endpoint_of impl w) of
        (Some r, Some e) \<Rightarrow>
          if current_outstanding_requests (stats e) \<noteq> 0 then (w, -1)
          else (update_endpoint r (\<lambda>e. e\<lparr>stats := zero_stats\<rparr>) w, 0)
      | _ \<Rightarrow> (w, -1))"

text \<open>One call of the program of rank \<open>r\<close> on this transport.\<close>

definition mock_call :: "nat \<Rightarrow> call \<Rightarrow> mock_world \<Rightarrow> (mock_world \<times> resp) option" where
  "mock_call r c w =
     exec_call (mock_transport r) (\<lambda>w. memories w r)
       (\<lambda>m w. w\<lparr>memories := (memories w)(r := m)\<rparr>) c w"

end
