(* ===== verification/Early_Delivery.thy ===== *)
theory Early_Delivery
  imports Transport_Contract
begin

text \<open>
  A transport may write a message into a posted receive buffer before the wait. The contract
  keeps the program away from such a buffer, so early delivery cannot be observed: a call the
  contract allows commutes with it. Also here: the well-formedness of the outstanding
  requests that every contract call preserves.
\<close>

section \<open>Well-formed outstanding requests\<close>

definition compatible :: "nat \<times> outstanding \<Rightarrow> nat \<times> outstanding \<Rightarrow> bool" where
  "compatible x y =
     (let r = snd x; s = snd y in
      (out_kind r = Receive \<or> out_kind s = Receive \<longrightarrow>
         region_disjoint (out_buffer r) (out_bytes r) (out_buffer s) (out_bytes s)) \<and>
      (out_kind r = Receive \<and> out_kind s = Receive \<longrightarrow> out_tag r \<noteq> out_tag s))"

definition ep_wf :: "endpoint \<Rightarrow> bool" where
  "ep_wf ep = (distinct (map fst (ep_out ep)) \<and> list_all (\<lambda>x. fst x < ep_next_addr ep) (ep_out ep) \<and>
     sorted_wrt compatible (ep_out ep))"

lemma compatible_sym: "compatible x y = compatible y x"
  by (auto simp: compatible_def Let_def region_disjoint_sym)

lemma ep_wf_remove:
  assumes "ep_wf ep" and "ep_next_addr ep' = ep_next_addr ep" and "ep_out ep' = remove_out a (ep_out ep)"
  shows "ep_wf ep'"
  using assms
  by (auto simp: ep_wf_def remove_out_def list_all_iff distinct_map_filter sorted_wrt_filter)

lemma ep_wf_add:
  assumes "ep_wf ep" and "\<And>x. x \<in> set (ep_out ep) \<Longrightarrow> compatible x (ep_next_addr ep, r)"
  shows "ep_wf (ep_add r ep)"
  using assms by (auto simp: ep_wf_def ep_add_def list_all_iff sorted_wrt_append less_SucI)

lemma ep_call_wf:
  assumes "ep_wf ep" and "ep_call c ep = Some (ep', x, ev)"
  shows "ep_wf ep'"
proof (cases c)
  case (Post_send_next p n t mode rq)
  with assms show ?thesis
    by (auto simp: compatible_def may_read_def list_all_iff intro!: ep_wf_add
      split: if_splits option.splits)
next
  case (Post_recv_prev p n t mode rq)
  with assms show ?thesis
    by (auto simp: compatible_def may_write_def tag_free_def list_all_iff intro!: ep_wf_add
      split: if_splits option.splits)
next
  case (Wait rq)
  with assms show ?thesis
    by (auto intro: ep_wf_remove split: if_splits option.splits list.splits RequestKind.splits)
qed (use assms in \<open>auto simp: ep_wf_def split: if_splits\<close>)

lemma sorted_wrt_sym:
  assumes "\<And>x y. R x y = R y x"
  shows "sorted_wrt R xs \<Longrightarrow> x \<in> set xs \<Longrightarrow> y \<in> set xs \<Longrightarrow> x \<noteq> y \<Longrightarrow> R x y"
  using assms by (induction xs) auto

lemma wf_other_compatible:
  assumes "ep_wf ep" and "x \<in> set (ep_out ep)" and "y \<in> set (ep_out ep)" and "fst x \<noteq> fst y"
  shows "compatible x y"
proof (rule sorted_wrt_sym [of compatible "ep_out ep"])
  show "compatible u v = compatible v u" for u v
    by (rule compatible_sym)
qed (use assms in \<open>auto simp: ep_wf_def\<close>)

section \<open>Early delivery\<close>

fun put :: "pointer \<times> bytes \<Rightarrow> memory \<Rightarrow> memory" where
  "put (p, d) m = (case store m p d of None \<Rightarrow> m | Some m' \<Rightarrow> m')"

definition overlay :: "(pointer \<times> bytes) list \<Rightarrow> memory \<Rightarrow> memory" where
  "overlay xs m = fold put xs m"

lemma overlay_Nil [simp]: "overlay [] m = m"
  by (simp add: overlay_def)

lemma overlay_Cons: "overlay (x # xs) m = overlay xs (put x m)"
  by (simp add: overlay_def)

lemma overlay_snoc [simp]: "overlay (xs @ [x]) m = put x (overlay xs m)"
  by (simp add: overlay_def)

lemma overlay_append: "overlay (xs @ ys) m = overlay ys (overlay xs m)"
  by (simp add: overlay_def)

definition untouched :: "(pointer \<times> bytes) list \<Rightarrow> pointer \<Rightarrow> nat \<Rightarrow> bool" where
  "untouched xs q n = list_all (\<lambda>(p, d). region_disjoint p (length d) q n) xs"

lemma untouched_Nil [simp]: "untouched [] q n"
  by (simp add: untouched_def)

lemma untouched_Cons [simp]:
  "untouched ((p, d) # xs) q n = (region_disjoint p (length d) q n \<and> untouched xs q n)"
  by (simp add: untouched_def)

lemma load_put: "region_disjoint p (length d) q n \<Longrightarrow> load (put (p, d) m) q n = load m q n"
  by (auto split: option.splits intro: load_store_other)

lemma load_overlay: "untouched xs q n \<Longrightarrow> load (overlay xs m) q n = load m q n"
  by (induction xs arbitrary: m) (auto simp: overlay_Cons load_put simp del: put.simps)

lemma blit_commute:
  assumes "a + length x \<le> length bs" and "b + length y \<le> length bs"
    and "a + length x \<le> b \<or> b + length y \<le> a"
  shows "blit a x (blit b y bs) = blit b y (blit a x bs)"
  by (rule nth_equalityI) (use assms in \<open>auto simp: nth_blit\<close>)

lemma store_put:
  assumes "region_disjoint p (length d) q (length e)"
  shows "store (put (p, d) m) q e = map_option (put (p, d)) (store m q e)"
proof (cases p)
  case (Ptr a x)
  show ?thesis
  proof (cases q)
    case (Ptr b y)
    with \<open>p = Ptr a x\<close> assms show ?thesis
      by (cases "a = b") (auto simp: blit_commute fun_upd_twist split: option.splits)
  qed simp
qed (cases "store m q e"; simp)

lemma store_overlay:
  "untouched xs q (length e) \<Longrightarrow> store (overlay xs m) q e = map_option (overlay xs) (store m q e)"
proof (induction xs arbitrary: m)
  case Nil
  then show ?case by (cases "store m q e") simp_all
next
  case (Cons x xs)
  obtain p d where x: "x = (p, d)" by (cases x)
  with Cons show ?case
    by (simp add: overlay_Cons store_put option.map_comp comp_def del: put.simps)
qed

lemma overlay_store: "store m p d = Some m' \<Longrightarrow> put (p, d) m = m'"
  by simp

text \<open>A delivery can be moved to the front of the others.\<close>

lemma put_commute:
  assumes "region_disjoint p (length d) q (length e)"
  shows "put (p, d) (put (q, e) m) = put (q, e) (put (p, d) m)"
  using store_put [of q e p d m] store_put [of p d q e m] assms
  by (auto simp: region_disjoint_sym split: option.splits)

lemma overlay_put:
  "untouched xs p (length d) \<Longrightarrow> overlay xs (put (p, d) m) = put (p, d) (overlay xs m)"
proof (induction xs arbitrary: m)
  case (Cons x xs)
  obtain q e where x: "x = (q, e)" by (cases x)
  with Cons show ?case
    by (simp add: overlay_Cons put_commute [of q e p d] del: put.simps)
qed simp

section \<open>Buffer calls commute with early delivery\<close>

lemma region_disjoint_sub:
  assumes "region_disjoint p n q k" and "j + i \<le> k"
  shows "region_disjoint p n (byte_offset q j) i"
  using assms by (cases p; cases q) auto

lemma untouched_sub: "untouched xs q k \<Longrightarrow> j + i \<le> k \<Longrightarrow> untouched xs (byte_offset q j) i"
  by (auto simp: untouched_def list_all_iff intro: region_disjoint_sub)

lemma reduce_loop_overlay:
  assumes "untouched xs dst (n * et_size T)" and "untouched xs src (n * et_size T)"
    and enc: "\<And>e. length (et_encode T e) = et_size T"
  shows "reduce_loop T f dst src i n (overlay xs m) = map_option (overlay xs) (reduce_loop T f dst src i n m)"
proof (induction "n - i" arbitrary: i m)
  case 0
  then show ?case by (simp add: reduce_loop.simps)
next
  case (Suc k)
  let ?sz = "et_size T"
  have lt: "i < n" using Suc.hyps(2) by simp
  then have le: "i * ?sz + ?sz \<le> n * ?sz"
    by (metis add.commute mult_Suc mult_le_mono1 Suc_leI)
  note d = untouched_sub [OF assms(1) le] and s = untouched_sub [OF assms(2) le]
  have IH: "reduce_loop T f dst src (Suc i) n (overlay xs m')
      = map_option (overlay xs) (reduce_loop T f dst src (Suc i) n m')" for m'
    using Suc.hyps by simp
  show ?case
    by (subst (1 2) reduce_loop.simps)
       (use lt d s in \<open>simp add: load_overlay store_overlay enc IH split: option.split\<close>)
qed

lemma reduce_typed_overlay:
  assumes "untouched xs dst (n * et_size T)" and "untouched xs src (n * et_size T)"
    and "\<And>e. length (et_encode T e) = et_size T"
  shows "reduce_typed T (overlay xs m) dst src n operation =
    map_option (map_prod (\<lambda>s. s) (overlay xs)) (reduce_typed T m dst src n operation)"
  using reduce_loop_overlay [OF assms, of _ 0 m]
  by (auto simp: reduce_typed_def option.map_comp comp_def split: OPERATION.split)

lemma reduce_in_place_overlay:
  assumes "untouched xs dst (n * datatype_size datatype)" and "untouched xs src (n * datatype_size datatype)"
  shows "reduce_in_place (overlay xs m) dst src n datatype operation =
    map_option (map_prod (\<lambda>s. s) (overlay xs)) (reduce_in_place m dst src n datatype operation)"
  using assms
  by (cases "datatype") (auto simp: reduce_in_place_def intro!: reduce_typed_overlay)

lemma overlay_other_block:
  assumes "list_all (\<lambda>(p, d). \<not> in_block b p) xs"
  shows "overlay xs m b = m b" and "overlay xs (m(b := v)) = (overlay xs m)(b := v)"
proof -
  have 1: "put (p, d) m b = m b \<and> put (p, d) (m(b := v)) = (put (p, d) m)(b := v)"
    if "\<not> in_block b p" for p d m
    using that by (cases p) (auto simp: fun_upd_twist split: option.split)
  show "overlay xs m b = m b"
    using assms by (induction xs arbitrary: m) (auto simp: overlay_Cons 1 simp del: put.simps)
  show "overlay xs (m(b := v)) = (overlay xs m)(b := v)"
    using assms by (induction xs arbitrary: m) (auto simp: overlay_Cons 1 simp del: put.simps)
qed

end
