(* ===== verification/Ring_System.thy ===== *)
theory Ring_System
  imports Transport_Contract
begin

text \<open>
  Ranks running at the same time. A system is the state of the transport world and one
  program per rank; a step is one call of one rank, and which rank moves is not determined.
  The locale states the interface the collective layer relies on: a transport that simulates
  every rank's contract endpoint and delivers, per tag and in order, what the previous rank
  sent. Inside it, programs whose contract runs exchange matching messages round by round
  are shown to be deadlock-free and deterministic under every schedule.
\<close>

section \<open>Steps of the system\<close>

type_synonym ('w, 'a) system = "'w \<times> (nat \<Rightarrow> 'a prog)"

inductive sys_step :: "(nat \<Rightarrow> call \<Rightarrow> 'w \<Rightarrow> ('w \<times> resp) option) \<Rightarrow> nat \<Rightarrow>
    ('w, 'a) system \<Rightarrow> ('w, 'a) system \<Rightarrow> bool"
  for tcall :: "nat \<Rightarrow> call \<Rightarrow> 'w \<Rightarrow> ('w \<times> resp) option" and P :: nat where
  rank_step: "r < P \<Longrightarrow> progs r = Call c k \<Longrightarrow> tcall r c w = Some (w', x) \<Longrightarrow>
    sys_step tcall P (w, progs) (w', progs(r := k x))"

inductive_cases sys_stepE: "sys_step tcall P (w, progs) s'"

text \<open>
  Every schedule from \<open>s\<close> ends, all after the same number of steps and none stuck before, in
  a state with \<open>Q\<close>.
\<close>

definition every_schedule :: "('s \<Rightarrow> 's \<Rightarrow> bool) \<Rightarrow> 's \<Rightarrow> ('s \<Rightarrow> bool) \<Rightarrow> bool" where
  "every_schedule step s Q =
     (\<exists>work. \<forall>n s'. (step ^^ n) s s' \<longrightarrow>
        n \<le> work \<and> (n < work \<longrightarrow> (\<exists>s''. step s' s'')) \<and> (n = work \<longrightarrow> Q s'))"

lemma every_schedule_weaken:
  "every_schedule step s Q \<Longrightarrow> (\<And>s'. Q s' \<Longrightarrow> Q' s') \<Longrightarrow> every_schedule step s Q'"
  unfolding every_schedule_def by metis

definition next_rank :: "nat \<Rightarrow> nat \<Rightarrow> nat" where
  "next_rank P r = (r + 1) mod P"

definition prev_rank :: "nat \<Rightarrow> nat \<Rightarrow> nat" where
  "prev_rank P r = (r + P - 1) mod P"

lemma next_rank_less [simp]: "r < P \<Longrightarrow> next_rank P r < P"
  by (simp add: next_rank_def)

lemma prev_rank_less [simp]: "r < P \<Longrightarrow> prev_rank P r < P"
  by (simp add: prev_rank_def)

lemma next_prev_rank [simp]: "r < P \<Longrightarrow> next_rank P (prev_rank P r) = r"
proof -
  assume "r < P"
  then have "(r + P - 1 + 1) mod P = r" by simp
  then show ?thesis
    unfolding next_rank_def prev_rank_def by (simp add: mod_Suc_eq)
qed

lemma prev_next_rank [simp]:
  assumes "r < P"
  shows "prev_rank P (next_rank P r) = r"
proof (cases "r + 1 = P")
  case False
  with assms show ?thesis by (simp add: prev_rank_def next_rank_def)
qed (use assms in \<open>simp add: prev_rank_def next_rank_def\<close>)

lemma next_rank_inj: "r < P \<Longrightarrow> q < P \<Longrightarrow> next_rank P r = next_rank P q \<Longrightarrow> r = q"
  by (metis prev_next_rank)

section \<open>Rounds\<close>

text \<open>
  In round \<open>i\<close> rank \<open>r\<close> sends the messages \<open>M r i\<close>, then receives those the previous
  rank sends in that round.
\<close>

definition round_events :: "(nat \<Rightarrow> 'i \<Rightarrow> (pg_tag \<times> bytes) list) \<Rightarrow> nat \<Rightarrow> nat \<Rightarrow> 'i \<Rightarrow> event list" where
  "round_events M P r i = sent_events (M r i) @ received_events (M (prev_rank P r) i)"

definition rounds_trace :: "(nat \<Rightarrow> 'i \<Rightarrow> (pg_tag \<times> bytes) list) \<Rightarrow> nat \<Rightarrow> 'i list \<Rightarrow> nat \<Rightarrow> event list" where
  "rounds_trace M P ids r = concat (map (round_events M P r) ids)"

definition sent_in :: "(nat \<Rightarrow> 'i \<Rightarrow> (pg_tag \<times> bytes) list) \<Rightarrow> nat \<Rightarrow> pg_tag \<Rightarrow> 'i list \<Rightarrow> bytes list" where
  "sent_in M r t ids = concat (map (\<lambda>i. feed (M r i) (\<lambda>_. []) t) ids)"

lemma sent_with_rounds_trace [simp]: "sent_with t (rounds_trace M P ids r) = sent_in M r t ids"
  by (induction ids) (simp_all add: rounds_trace_def sent_in_def round_events_def)

lemma received_with_rounds_trace [simp]:
  "received_with t (rounds_trace M P ids r) = length (sent_in M (prev_rank P r) t ids)"
  by (induction ids)
     (simp_all add: rounds_trace_def sent_in_def round_events_def received_with_def [of t "[]"])

lemma rounds_trace_Cons: "rounds_trace M P (i # ids) r = round_events M P r i @ rounds_trace M P ids r"
  by (simp add: rounds_trace_def)

text \<open>A suffix of the trace that starts with a receive is inside the receives of one round.\<close>

lemma append_Cons_cases:
  assumes "xs @ ys = pre @ x # rest"
  shows "(\<exists>b. xs = pre @ x # b \<and> rest = b @ ys) \<or> (\<exists>pre'. ys = pre' @ x # rest)"
  using assms by (auto simp: append_eq_append_conv2 append_eq_Cons_conv)

lemma suffix_at_receive:
  assumes "rounds_trace M P ids r = pre @ Received t # rest"
  shows "\<exists>i b later. rest = b @ rounds_trace M P later r \<and> (\<exists>earlier. ids = earlier @ i # later) \<and>
    (\<forall>u. sent_with u b = []) \<and> 
    1 + length (sent_in M (prev_rank P r) t later) \<le> received_with t (Received t # rest)"
  using assms
proof (induction ids arbitrary: pre)
  case Nil
  then show ?case by (simp add: rounds_trace_def)
next
  case (Cons i ids)
  from Cons.prems have "round_events M P r i @ rounds_trace M P ids r = pre @ Received t # rest"
    by (simp add: rounds_trace_Cons)
  from append_Cons_cases [OF this] show ?case
  proof
    assume "\<exists>b. round_events M P r i = pre @ Received t # b \<and> rest = b @ rounds_trace M P ids r"
    then obtain b where b: "round_events M P r i = pre @ Received t # b"
      and rest: "rest = b @ rounds_trace M P ids r" by blast
    have "Received t \<notin> set (sent_events (M r i))"
      by (auto simp: sent_events_def)
    with append_Cons_cases [OF b [unfolded round_events_def]]
    obtain pre' where "received_events (M (prev_rank P r) i) = pre' @ Received t # b"
      by auto
    then have "sent_with u (pre' @ Received t # b) = []" for u
      by (metis sent_with_received_events)
    then have "\<forall>u. sent_with u b = []" by simp
    with rest show ?thesis
      by (intro exI [of _ i] exI [of _ b] exI [of _ ids])
         (auto simp: received_with_def [of _ "Received t # _"] received_with_def [of t b, symmetric]
           received_with_def [of t "rounds_trace M P ids r", symmetric])
  next
    assume "\<exists>pre'. rounds_trace M P ids r = pre' @ Received t # rest"
    with Cons.IH show ?thesis by (metis append_Cons)
  qed
qed

section \<open>The invariant of a running system\<close>

text \<open>
  Every rank still completes against its contract endpoint, what it has left to send and to
  receive is a suffix of its rounds, and what a rank is still to receive with a tag is what
  is under way to it followed by what the previous rank is still to send.
\<close>

definition flow_inv :: "nat \<Rightarrow> (nat \<Rightarrow> 'a) \<Rightarrow> (nat \<Rightarrow> endpoint) \<Rightarrow>
    (nat \<Rightarrow> 'i \<Rightarrow> (pg_tag \<times> bytes) list) \<Rightarrow> 'i list \<Rightarrow> (nat \<Rightarrow> 'a prog) \<Rightarrow>
    (nat \<Rightarrow> endpoint) \<Rightarrow> (nat \<Rightarrow> pg_tag \<Rightarrow> bytes list) \<Rightarrow> (nat \<Rightarrow> event list) \<Rightarrow> bool" where
  "flow_inv P res fin M ids progs E N T =
     (\<forall>r<P. ep_run (progs r) (E r) = Some (res r, fin r, T r) \<and>
            (\<exists>pre. rounds_trace M P ids r = pre @ comm (T r)) \<and>
            (\<forall>t. ep_in (fin r) t = []) \<and>
            (\<forall>t. ep_in (E r) t = N r t @ sent_with t (T (prev_rank P r))))"

lemma flow_inv_call:
  assumes "flow_inv P res fin M ids progs E N T" and "r < P" and "progs r = Call c k"
  obtains e x ev T' where "ep_call c (E r) = Some (e, x, ev)"
    and "ep_run (k x) e = Some (res r, fin r, T')" and "T r = ev # T'"
proof -
  from assms have "ep_run (Call c k) (E r) = Some (res r, fin r, T r)"
    unfolding flow_inv_def by metis
  with that show ?thesis
    by (auto split: option.splits)
qed

lemma suffix_comm_tl:
  "\<exists>pre. full = pre @ comm (ev # T') \<Longrightarrow> \<exists>pre. full = pre @ comm T'"
  by (auto simp: comm_def split: if_splits)

text \<open>One rank moves: the invariant for the others is only about unchanged parts.\<close>

lemma flow_inv_step:
  assumes inv: "flow_inv P res fin M ids progs E N T" and "r < P"
    and run: "ep_run p e = Some (res r, fin r, T')" and T: "T r = ev # T'"
    and flow: "\<And>q t. q < P \<Longrightarrow> ep_in ((E(r := e)) q) t =
      N' q t @ sent_with t ((T(r := T')) (prev_rank P q))"
  shows "flow_inv P res fin M ids (progs(r := p)) (E(r := e)) N' (T(r := T'))"
  unfolding flow_inv_def
proof (intro allI impI)
  fix q
  assume "q < P"
  with inv have q: "ep_run (progs q) (E q) = Some (res q, fin q, T q)"
      "\<exists>pre. rounds_trace M P ids q = pre @ comm (T q)" "\<forall>t. ep_in (fin q) t = []"
    unfolding flow_inv_def by blast+
  have "ep_run ((progs(r := p)) q) ((E(r := e)) q) = Some (res q, fin q, (T(r := T')) q)"
    using q(1) run by simp
  moreover have "\<exists>pre. rounds_trace M P ids q = pre @ comm ((T(r := T')) q)"
    using q(2) T suffix_comm_tl [of _ ev T'] by (cases "q = r") auto
  ultimately show "ep_run ((progs(r := p)) q) ((E(r := e)) q) = Some (res q, fin q, (T(r := T')) q) \<and>
      (\<exists>pre. rounds_trace M P ids q = pre @ comm ((T(r := T')) q)) \<and>
      (\<forall>t. ep_in (fin q) t = []) \<and>
      (\<forall>t. ep_in ((E(r := e)) q) t = N' q t @ sent_with t ((T(r := T')) (prev_rank P q)))"
    using q(3) flow [OF \<open>q < P\<close>] by blast
qed

lemma prev_rank_eq_iff: "q < P \<Longrightarrow> r < P \<Longrightarrow> prev_rank P q = r \<longleftrightarrow> q = next_rank P r"
  by auto

text \<open>A rank at a receive whose message is not under way is in a later round than its predecessor.\<close>

definition rounds_left :: "(nat \<Rightarrow> 'i \<Rightarrow> (pg_tag \<times> bytes) list) \<Rightarrow> nat \<Rightarrow> 'i list \<Rightarrow> nat \<Rightarrow>
    event list \<Rightarrow> 'i list \<Rightarrow> bool" where
  "rounds_left M P ids r T later =
     (\<exists>b. comm (tl T) = b @ rounds_trace M P later r \<and> (\<forall>u. sent_with u b = []) \<and>
          (\<exists>earlier. ids = earlier @ later))"

lemma rounds_left_sent:
  assumes "rounds_left M P ids r (Received t # T') later"
  shows "sent_with u T' = sent_in M r u later"
proof -
  obtain b where b: "comm T' = b @ rounds_trace M P later r" and "\<forall>u. sent_with u b = []"
    using assms by (auto simp: rounds_left_def)
  have "sent_with u T' = sent_with u (comm T')" by simp
  also have "\<dots> = sent_in M r u later"
    unfolding b using \<open>\<forall>u. sent_with u b = []\<close> by simp
  finally show ?thesis .
qed

lemma blocked_round:
  assumes inv: "flow_inv P res fin M ids progs E N T" and "r < P" and T: "T r = Received t # T'"
  shows "\<exists>later. rounds_left M P ids r (T r) later \<and>
    1 + length (sent_in M (prev_rank P r) t later) \<le> received_with t (T r)"
proof -
  from inv \<open>r < P\<close> obtain pre where "rounds_trace M P ids r = pre @ comm (T r)"
    unfolding flow_inv_def by blast
  then have "rounds_trace M P ids r = pre @ Received t # comm T'"
    by (simp add: T comm_def)
  from suffix_at_receive [OF this] obtain i b later earlier
    where "comm T' = b @ rounds_trace M P later r" "ids = earlier @ i # later"
      "\<forall>u. sent_with u b = []"
      "1 + length (sent_in M (prev_rank P r) t later) \<le> received_with t (Received t # comm T')"
    by blast
  moreover have "received_with t (Received t # comm T') = received_with t (T r)"
    using received_with_comm [of t "T r"] by (simp add: T comm_def)
  ultimately show ?thesis
    by (intro exI [of _ later]) (auto simp: rounds_left_def T intro: exI [of _ "earlier @ [i]"])
qed

lemma suffix_longer:
  assumes "ids = xs @ ys" and "ids = us @ vs" and "length ys \<le> length vs"
  shows "\<exists>zs. vs = zs @ ys"
proof -
  from assms(1,2) have "xs @ ys = us @ vs" by simp
  then obtain k where "xs = us @ k \<and> k @ ys = vs \<or> xs @ k = us \<and> ys = k @ vs"
    unfolding append_eq_append_conv2 by blast
  with assms(3) show ?thesis by auto
qed

text \<open>The calls all ranks still have to make.\<close>

definition work_left :: "nat \<Rightarrow> (nat \<Rightarrow> event list) \<Rightarrow> nat" where
  "work_left P T = (\<Sum>r<P. length (T r))"

lemma work_left_step:
  assumes "r < P" and "length (T r) = Suc (length T')"
  shows "work_left P T = Suc (work_left P (T(r := T')))"
proof -
  have "(\<Sum>q<P. length (T q)) = length (T r) + (\<Sum>q\<in>{..<P} - {r}. length (T q))"
    using assms(1) by (intro sum.remove) auto
  moreover have "(\<Sum>q<P. length ((T(r := T')) q))
      = length T' + (\<Sum>q\<in>{..<P} - {r}. length ((T(r := T')) q))"
    using assms(1) by (subst sum.remove [of _ r]) auto
  moreover have "(\<Sum>q\<in>{..<P} - {r}. length ((T(r := T')) q)) = (\<Sum>q\<in>{..<P} - {r}. length (T q))"
    by (rule sum.cong) auto
  ultimately show ?thesis
    using assms(2) by (simp add: work_left_def)
qed

lemma work_left_pos: "work_left P T \<noteq> 0 \<Longrightarrow> \<exists>r<P. T r \<noteq> []"
  by (rule ccontr) (simp add: work_left_def)

lemma finished_rank:
  assumes "flow_inv P res fin M ids progs E N T" and "r < P" and "T r = []"
  shows "progs r = Ret (res r)" and "E r = fin r"
proof -
  have "ep_run (progs r) (E r) = Some (res r, fin r, [])"
    using assms unfolding flow_inv_def by metis
  then show "progs r = Ret (res r)" and "E r = fin r"
    by (cases "progs r"; auto split: option.splits)+
qed

section \<open>The transport interface\<close>

text \<open>
  What \<open>include/pg_transport.h\<close> promises the collective layer: \<open>rel w E N\<close> says that the
  world \<open>w\<close> implements the contract endpoints \<open>E\<close> with the messages \<open>N r t\<close> under way
  to rank \<open>r\<close> for tag \<open>t\<close>. A call the contract allows is answered as the contract
  answers it; a send appends to the next rank's messages; a wait for a receive takes the
  first message of its tag, and blocks exactly when there is none.
\<close>

locale ring_transport =
  fixes P :: nat
    and tcall :: "nat \<Rightarrow> call \<Rightarrow> 'w \<Rightarrow> ('w \<times> resp) option"
    and rel :: "'w \<Rightarrow> (nat \<Rightarrow> endpoint) \<Rightarrow> (nat \<Rightarrow> pg_tag \<Rightarrow> bytes list) \<Rightarrow> bool"
  assumes silent_law: "rel w E N \<Longrightarrow> r < P \<Longrightarrow> ep_call c (E r) = Some (e, x, Silent) \<Longrightarrow>
      \<exists>w'. tcall r c w = Some (w', x) \<and> rel w' (E(r := e)) N"
    and send_law: "rel w E N \<Longrightarrow> r < P \<Longrightarrow> ep_call c (E r) = Some (e, x, Sent t d) \<Longrightarrow>
      \<exists>w'. tcall r c w = Some (w', x) \<and>
        rel w' (E(r := e)) (N(next_rank P r := (N (next_rank P r))(t := N (next_rank P r) t @ [d])))"
    and receive_law: "rel w E N \<Longrightarrow> r < P \<Longrightarrow> ep_call c (E r) = Some (e, x, Received t) \<Longrightarrow>
      ep_in (E r) t = d # ds \<Longrightarrow> N r t = d # ns \<Longrightarrow>
      \<exists>w'. tcall r c w = Some (w', x) \<and> rel w' (E(r := e)) (N(r := (N r)(t := ns)))"
    and block_law: "rel w E N \<Longrightarrow> r < P \<Longrightarrow> ep_call c (E r) = Some (e, x, Received t) \<Longrightarrow>
      N r t = [] \<Longrightarrow> tcall r c w = None"
begin

lemma advance:
  assumes rel: "rel w E N" and inv: "flow_inv P res fin M ids progs E N T" and r: "r < P"
    and prog: "progs r = Call c k" and step: "tcall r c w = Some (w', x)"
  shows "\<exists>e N' T'. rel w' (E(r := e)) N' \<and>
    flow_inv P res fin M ids (progs(r := k x)) (E(r := e)) N' (T(r := T')) \<and>
    length (T r) = Suc (length T')"
proof -
  obtain e y ev T' where c: "ep_call c (E r) = Some (e, y, ev)"
    and run: "ep_run (k y) e = Some (res r, fin r, T')" and T: "T r = ev # T'"
    using flow_inv_call [OF inv r prog] by metis
  have flow: "ep_in (E q) t = N q t @ sent_with t (T (prev_rank P q))" if "q < P" for q t
    using inv that unfolding flow_inv_def by blast
  note keep = flow_inv_step [OF inv r run T]
  show ?thesis
  proof (cases ev)
    case (Sent t d)
    let ?n = "next_rank P r"
    let ?N = "N(?n := (N ?n)(t := N ?n t @ [d]))"
    obtain w'' where w'': "tcall r c w = Some (w'', y)" "rel w'' (E(r := e)) ?N"
      using send_law [OF rel r c [unfolded Sent]] by blast
    have "ep_in ((E(r := e)) q) u = ?N q u @ sent_with u ((T(r := T')) (prev_rank P q))"
      if "q < P" for q u
      using flow [OF that, of u] ep_call_in [OF c] that r prev_rank_eq_iff [OF that r] T
      by (auto simp: Sent)
    from keep [of ?N, OF this] w'' step T show ?thesis by auto
  next
    case (Received t)
    obtain d ds where d: "ep_in (E r) t = d # ds"
      using ep_call_Received [OF c [unfolded Received]] by blast
    have "N r t \<noteq> []"
      using block_law [OF rel r c [unfolded Received]] step by auto
    with flow [OF r, of t] d obtain ns where ns: "N r t = d # ns"
      by (cases "N r t") auto
    let ?N = "N(r := (N r)(t := ns))"
    obtain w'' where w'': "tcall r c w = Some (w'', y)" "rel w'' (E(r := e)) ?N"
      using receive_law [OF rel r c [unfolded Received] d ns] by blast
    have "ep_in ((E(r := e)) q) u = ?N q u @ sent_with u ((T(r := T')) (prev_rank P q))"
      if "q < P" for q u
      using flow [OF that, of u] ep_call_in [OF c] ns T by (auto simp: Received)
    from keep [of ?N, OF this] w'' step T show ?thesis by auto
  next
    case Silent
    obtain w'' where w'': "tcall r c w = Some (w'', y)" "rel w'' (E(r := e)) N"
      using silent_law [OF rel r c [unfolded Silent]] by blast
    have "ep_in ((E(r := e)) q) u = N q u @ sent_with u ((T(r := T')) (prev_rank P q))"
      if "q < P" for q u
      using flow [OF that, of u] ep_call_in [OF c] T by (auto simp: Silent)
    from keep [of N, OF this] w'' step T show ?thesis by auto
  qed
qed

lemma stuck_receive:
  assumes rel: "rel w E N" and inv: "flow_inv P res fin M ids progs E N T" and r: "r < P"
    and T: "T r \<noteq> []" and stuck: "\<And>c k. progs r = Call c k \<Longrightarrow> tcall r c w = None"
  shows "\<exists>t T'. T r = Received t # T' \<and> N r t = []"
proof -
  have run: "ep_run (progs r) (E r) = Some (res r, fin r, T r)"
    using inv r unfolding flow_inv_def by blast
  obtain c k where prog: "progs r = Call c k"
    using run T by (cases "progs r") auto
  obtain e x ev T' where c: "ep_call c (E r) = Some (e, x, ev)" and "T r = ev # T'"
    using flow_inv_call [OF inv r prog] by metis
  show ?thesis
  proof (cases ev)
    case (Sent t d)
    with send_law [OF rel r, of c e x t d] c stuck [OF prog] show ?thesis by auto
  next
    case Silent
    with silent_law [OF rel r, of c e x] c stuck [OF prog] show ?thesis by auto
  next
    case (Received t)
    obtain d ds where d: "ep_in (E r) t = d # ds"
      using ep_call_Received [of c "E r" e x t] c Received by blast
    show ?thesis
    proof (cases "N r t")
      case Nil
      with Received \<open>T r = ev # T'\<close> show ?thesis by blast
    next
      case (Cons d' ns)
      have "ep_in (E r) t = N r t @ sent_with t (T (prev_rank P r))"
        using inv r unfolding flow_inv_def by blast
      with d Cons have "N r t = d # ns" by simp
      with receive_law [OF rel r c [unfolded Received] d] stuck [OF prog] show ?thesis by auto
    qed
  qed
qed

text \<open>No schedule deadlocks: while some rank has work left, some rank can move.\<close>

lemma no_deadlock:
  assumes rel: "rel w E N" and inv: "flow_inv P res fin M ids progs E N T"
    and busy: "r0 < P" "T r0 \<noteq> []"
  shows "\<exists>r<P. \<exists>c k y. progs r = Call c k \<and> tcall r c w = Some y"
proof (rule ccontr)
  assume "\<not> ?thesis"
  then have stuck: "\<And>r c k. r < P \<Longrightarrow> progs r = Call c k \<Longrightarrow> tcall r c w = None"
    by (metis not_Some_eq)
  define waiting where "waiting r = (r < P \<and> (\<exists>t T'. T r = Received t # T' \<and> N r t = []))" for r
  define left where "left r = (SOME later. rounds_left M P ids r (T r) later \<and>
      (\<forall>t T'. T r = Received t # T' \<longrightarrow>
         1 + length (sent_in M (prev_rank P r) t later) \<le> received_with t (T r)))" for r
  have left: "rounds_left M P ids r (T r) (left r) \<and>
      (\<forall>t T'. T r = Received t # T' \<longrightarrow>
         1 + length (sent_in M (prev_rank P r) t (left r)) \<le> received_with t (T r))"
    if "waiting r" for r
  proof -
    from that have "\<exists>later. rounds_left M P ids r (T r) later \<and>
      (\<forall>t T'. T r = Received t # T' \<longrightarrow>
         1 + length (sent_in M (prev_rank P r) t later) \<le> received_with t (T r))"
      using blocked_round [OF inv] unfolding waiting_def by fastforce
    then show ?thesis unfolding left_def by (rule someI_ex)
  qed
  have wait: "waiting r" if "r < P" "T r \<noteq> []" for r
    using stuck_receive [OF rel inv that] stuck that unfolding waiting_def by blast
  have behind: "waiting (prev_rank P r) \<and> length (left r) < length (left (prev_rank P r))"
    if "waiting r" for r
  proof -
    let ?q = "prev_rank P r"
    from that obtain t T' where r: "r < P" and T: "T r = Received t # T'" and N: "N r t = []"
      unfolding waiting_def by blast
    have run: "ep_run (progs r) (E r) = Some (res r, fin r, T r)" and "ep_in (fin r) t = []"
      and flow: "ep_in (E r) t = sent_with t (T ?q)"
      using inv r N unfolding flow_inv_def by simp_all
    then have cnt: "received_with t (T r) = length (sent_with t (T ?q))"
      using ep_run_inputs [OF run, of t] by simp
    have "0 < received_with t (T r)"
      by (simp add: T received_with_def)
    with cnt have "T ?q \<noteq> []" by auto
    with r have w: "waiting ?q" by (intro wait) simp
    then obtain u U where U: "T ?q = Received u # U" unfolding waiting_def by blast
    have "sent_with t (T ?q) = sent_in M ?q t (left ?q)"
      using left [OF w] rounds_left_sent [of M P ids ?q u U "left ?q" t] by (simp add: U)
    with left [OF that] T cnt
    have "1 + length (sent_in M ?q t (left r)) \<le> length (sent_in M ?q t (left ?q))" by fastforce
    moreover have "\<exists>zs. left r = zs @ left ?q" if "length (left ?q) \<le> length (left r)"
      using left [OF w] left [OF \<open>waiting r\<close>] suffix_longer [OF _ _ that]
      unfolding rounds_left_def by blast
    ultimately have "length (left r) < length (left ?q)"
      by (fastforce simp: sent_in_def not_less)
    with w show ?thesis by blast
  qed
  have "waiting r0" by (rule wait [OF busy])
  then have far: "\<exists>r. waiting r \<and> n \<le> length (left r)" for n
    by (induction n) (blast, meson behind Suc_leI le_less_trans)
  from far [of "Suc (length ids)"] obtain r where r: "waiting r" "length ids < length (left r)"
    by (auto simp: Suc_le_eq)
  with left [OF r(1)] show False
    unfolding rounds_left_def by force
qed

text \<open>Every schedule makes progress through the same amount of work.\<close>

lemma schedule_work:
  assumes "(sys_step tcall P ^^ n) (w, progs) (w', progs')"
    and "rel w E N" and "flow_inv P res fin M ids progs E N T"
  shows "\<exists>E' N' T'. rel w' E' N' \<and> flow_inv P res fin M ids progs' E' N' T' \<and>
    work_left P T = n + work_left P T'"
  using assms
proof (induction n arbitrary: w' progs')
  case 0
  then show ?case by auto
next
  case (Suc n)
  then obtain w1 progs1 where steps: "(sys_step tcall P ^^ n) (w, progs) (w1, progs1)"
    and step: "sys_step tcall P (w1, progs1) (w', progs')"
    by (metis relpowp_Suc_E surj_pair)
  obtain E1 N1 T1 where 1: "rel w1 E1 N1" "flow_inv P res fin M ids progs1 E1 N1 T1"
      "work_left P T = n + work_left P T1"
    using Suc.IH [OF steps Suc.prems(2,3)] by blast
  from step obtain r c k x where r: "r < P" "progs1 r = Call c k" "tcall r c w1 = Some (w', x)"
    and progs': "progs' = progs1(r := k x)"
    by (auto elim: sys_stepE)
  from advance [OF 1(1,2) r] obtain e N' T' where "rel w' (E1(r := e)) N'"
      "flow_inv P res fin M ids progs' (E1(r := e)) N' (T1(r := T'))"
      "length (T1 r) = Suc (length T')"
    unfolding progs' by blast
  moreover from this(3) have "work_left P T1 = Suc (work_left P (T1(r := T')))"
    by (rule work_left_step [OF r(1)])
  with 1(3) have "work_left P T = Suc n + work_left P (T1(r := T'))" by simp
  ultimately show ?case by blast
qed

lemma schedule_total:
  assumes init: "rel w E N" "flow_inv P res fin M ids progs E N T"
    and steps: "(sys_step tcall P ^^ n) (w, progs) (w', progs')"
  shows "n \<le> work_left P T"
    and "n < work_left P T \<Longrightarrow> \<exists>s. sys_step tcall P (w', progs') s"
    and "n = work_left P T \<Longrightarrow> r < P \<Longrightarrow> progs' r = Ret (res r)"
    and "n = work_left P T \<Longrightarrow> \<exists>E' N'. rel w' E' N' \<and> (\<forall>r<P. E' r = fin r \<and> (\<forall>t. N' r t = []))"
proof -
  obtain E' N' T' where rel: "rel w' E' N'" and inv: "flow_inv P res fin M ids progs' E' N' T'"
    and work: "work_left P T = n + work_left P T'"
    using schedule_work [OF steps init] by blast
  show "n \<le> work_left P T"
    using work by simp
  show "\<exists>s. sys_step tcall P (w', progs') s" if "n < work_left P T"
  proof -
    from that work have "work_left P T' \<noteq> 0" by simp
    from work_left_pos [OF this] obtain r0 where "r0 < P" "T' r0 \<noteq> []" by blast
    from no_deadlock [OF rel inv this] obtain r c k y
      where "r < P" "progs' r = Call c k" "tcall r c w' = Some y" by blast
    then show ?thesis by (cases y) (blast intro: rank_step)
  qed
  have finished: "T' r = []" if "n = work_left P T" "r < P" for r
    using work that by (simp add: work_left_def)
  show "progs' r = Ret (res r)" if "n = work_left P T" "r < P"
    by (rule finished_rank(1) [OF inv that(2) finished [OF that]])
  show "\<exists>E' N'. rel w' E' N' \<and> (\<forall>r<P. E' r = fin r \<and> (\<forall>t. N' r t = []))" if n: "n = work_left P T"
  proof -
    have "N' r t = []" if "r < P" for r t
    proof -
      have "ep_in (E' r) t = N' r t @ sent_with t (T' (prev_rank P r))" and "ep_in (fin r) t = []"
        using inv that unfolding flow_inv_def by blast+
      with finished_rank(2) [OF inv that finished [OF n that]] show ?thesis by simp
    qed
    with rel finished_rank(2) [OF inv _ finished [OF n]] show ?thesis by blast
  qed
qed

end

end
