(* ===== verification/Mock_Refinement.thy ===== *)
theory Mock_Refinement
  imports Mock_Transport Early_Delivery Ring_System
begin

text \<open>
  The mock transport implements the transport interface. Its world is related to the
  contract endpoints by the messages each rank has already copied into a posted receive
  buffer: the mock's memory is the contract's memory overlaid with them, and the messages
  under way to a rank are these and the ones still in its queue.
\<close>

section \<open>The relation\<close>

text \<open>\<open>D a\<close> is the payload already taken from the queue for the request at address \<open>a\<close>.\<close>

fun delivered :: "(nat \<Rightarrow> bytes option) \<Rightarrow> (nat \<times> outstanding) list \<Rightarrow> (outstanding \<times> bytes) list" where
  "delivered D [] = []"
| "delivered D ((a, r) # out) =
     (if out_kind r = Receive then
        (case D a of None \<Rightarrow> delivered D out | Some d \<Rightarrow> (r, d) # delivered D out)
      else delivered D out)"

definition taken :: "pg_tag \<Rightarrow> (nat \<Rightarrow> bytes option) \<Rightarrow> (nat \<times> outstanding) list \<Rightarrow> bytes list" where
  "taken t D out = map snd (filter (\<lambda>(r, d). out_tag r = t) (delivered D out))"

definition puts :: "(nat \<Rightarrow> bytes option) \<Rightarrow> (nat \<times> outstanding) list \<Rightarrow> (pointer \<times> bytes) list" where
  "puts D out = map (\<lambda>(r, d). (out_buffer r, d)) (filter (\<lambda>(r, d). length d = out_bytes r) (delivered D out))"

definition queued :: "pg_tag \<Rightarrow> Message list \<Rightarrow> bytes list" where
  "queued t q = map payload (filter (\<lambda>m. msg_tag m = t) q)"

definition req_rel :: "(nat \<Rightarrow> bytes option) \<Rightarrow> nat \<Rightarrow> outstanding \<Rightarrow> RequestState \<Rightarrow> bool" where
  "req_rel D a r st =
     (kind st = out_kind r \<and>
      (out_kind r = Send \<longrightarrow> completed st \<and> status st = 0) \<and>
      (out_kind r = Receive \<longrightarrow>
         receive_buffer st = out_buffer r \<and> req_bytes st = out_bytes r \<and> req_tag st = out_tag r \<and>
         0 < out_bytes r \<and>
         (case D a of
            None \<Rightarrow> \<not> completed st
          | Some d \<Rightarrow> completed st \<and> status st = (if length d = out_bytes r then 0 else -1))))"

definition rank_rel :: "nat \<Rightarrow> mock_world \<Rightarrow> nat \<Rightarrow> endpoint \<Rightarrow> (nat \<Rightarrow> bytes option) \<Rightarrow> bool" where
  "rank_rel P w r ep D =
     ((\<exists>e. endpoints w r = Some e \<and> me_rank e = int r \<and> me_world_size e = int P \<and>
           next_request_id e = ep_next_id ep) \<and>
      next_addr w r = ep_next_addr ep \<and> ep_wf ep \<and>
      (\<forall>(a, o') \<in> set (ep_out ep). \<exists>st. requests w r a = Some st \<and> req_rel D a o' st) \<and>
      memories w r = overlay (puts D (ep_out ep)) (ep_mem ep))"

definition mock_rel :: "nat \<Rightarrow> mock_world \<Rightarrow> (nat \<Rightarrow> endpoint) \<Rightarrow> (nat \<Rightarrow> pg_tag \<Rightarrow> bytes list) \<Rightarrow> bool" where
  "mock_rel P w E N =
     (\<not> heap_exhausted w \<and> length (incoming w) = P \<and>
      (\<exists>D. \<forall>r<P. rank_rel P w r (E r) (D r) \<and>
           (\<forall>t. N r t = taken t (D r) (ep_out (E r)) @ queued t (incoming w ! r))))"

section \<open>Lists of delivered messages\<close>

lemma delivered_append [simp]: "delivered D (xs @ ys) = delivered D xs @ delivered D ys"
  by (induction D xs rule: delivered.induct) (auto split: option.split)

lemma delivered_fresh: "a \<notin> fst ` set out \<Longrightarrow> delivered (D(a := v)) out = delivered D out"
  by (induction D out rule: delivered.induct) (auto split: option.split)

lemma delivered_set: "(r, d) \<in> set (delivered D out) \<Longrightarrow>
    \<exists>a. (a, r) \<in> set out \<and> out_kind r = Receive \<and> D a = Some d"
  by (induction D out rule: delivered.induct) (auto split: if_splits option.splits)

lemma taken_append: "taken t D (xs @ ys) = taken t D xs @ taken t D ys"
  by (simp add: taken_def)

lemma puts_append: "puts D (xs @ ys) = puts D xs @ puts D ys"
  by (simp add: puts_def)

lemma puts_set: "(p, d) \<in> set (puts D out) \<Longrightarrow>
    \<exists>a r. (a, r) \<in> set out \<and> out_kind r = Receive \<and> out_buffer r = p \<and> length d = out_bytes r"
  by (fastforce simp: puts_def dest: delivered_set)

lemma remove_out_append [simp]: "remove_out a (xs @ ys) = remove_out a xs @ remove_out a ys"
  by (simp add: remove_out_def)

lemma remove_out_fresh: "a \<notin> fst ` set out \<Longrightarrow> remove_out a out = out"
  by (induction out) (auto simp: remove_out_def)

lemma split_out:
  assumes "ep_wf ep" and "map_of (ep_out ep) a = Some r"
  obtains xs ys where "ep_out ep = xs @ (a, r) # ys" and "remove_out a (ep_out ep) = xs @ ys"
    and "a \<notin> fst ` set xs" and "a \<notin> fst ` set ys"
proof -
  from assms(2) obtain xs ys where e: "ep_out ep = xs @ (a, r) # ys"
    by (meson map_of_SomeD split_list)
  with assms(1) have "a \<notin> fst ` set xs" "a \<notin> fst ` set ys"
    by (auto simp: ep_wf_def)
  moreover from this have "remove_out a (ep_out ep) = xs @ ys"
    by (simp add: e remove_out_fresh) (simp add: remove_out_def remove_out_fresh [unfolded remove_out_def])
  ultimately show thesis by (intro that [OF e])
qed

lemma untouched_puts:
  assumes "may_read ep p n"
  shows "untouched (puts D (ep_out ep)) p n"
proof -
  have "region_disjoint q (length d) p n" if "(q, d) \<in> set (puts D (ep_out ep))" for q d
    using puts_set [OF that] assms by (fastforce simp: may_read_def list_all_iff)
  then show ?thesis by (auto simp: untouched_def list_all_iff)
qed

lemma may_write_read: "may_write ep p n \<Longrightarrow> may_read ep p n"
  by (auto simp: may_write_def may_read_def list_all_iff)

lemma queued_append [simp]: "queued t (xs @ ys) = queued t xs @ queued t ys"
  by (simp add: queued_def)

section \<open>Completing a receive\<close>

lemma complete_none:
  "queued (req_tag st) q = [] \<Longrightarrow> try_complete_receive_locked st m q = Some (st, m, q, False)"
  by (induction q) (auto simp: queued_def split: if_splits)

text \<open>The first message of the tag is taken, the others keep their order.\<close>

lemma complete_some:
  assumes "queued (req_tag st) q = d # ds" and "0 < req_bytes st"
    and "length d = req_bytes st \<Longrightarrow> store m (receive_buffer st) d = Some m'"
    and "length d \<noteq> req_bytes st \<Longrightarrow> m' = m"
  shows "\<exists>q'. try_complete_receive_locked st m q =
      Some (st\<lparr>status := (if length d = req_bytes st then 0 else -1), completed := True\<rparr>, m', q', True) \<and>
    (\<forall>t. queued t q' = (if t = req_tag st then ds else queued t q))"
  using assms(1)
proof (induction q)
  case (Cons msg q)
  show ?case
  proof (cases "msg_tag msg = req_tag st")
    case True
    with Cons.prems have "payload msg = d" "queued (req_tag st) q = ds"
      by (simp_all add: queued_def)
    with True assms(2-4) show ?thesis
      by (auto simp: queued_def)
  next
    case False
    with Cons.prems have "queued (req_tag st) q = d # ds"
      by (simp add: queued_def)
    from Cons.IH [OF this] False show ?thesis
      by (auto simp: queued_def)
  qed
qed (simp add: queued_def)

section \<open>Frame conditions\<close>

lemma rank_rel_cong:
  assumes "endpoints w' r = endpoints w r" "next_addr w' r = next_addr w r"
    "requests w' r = requests w r" "memories w' r = memories w r"
  shows "rank_rel P w' r ep D = rank_rel P w r ep D"
  using assms by (simp add: rank_rel_def)

lemma mock_call_simps [simp]:
  "mock_call r (Post_send_next p n t mode rq) w = mock_post_send_next (Some r) p n t mode rq w"
  "mock_call r (Post_recv_prev p n t mode rq) w = mock_post_recv_prev (Some r) p n t mode rq w"
  "mock_call r (Wait rq) w = mock_wait (Some r) rq w"
  by (simp_all add: mock_call_def exec_call_def mock_transport_def kMockOperations_def)

lemma mock_call_buffer:
  assumes "mem_call c (memories w r) = Some (s, m)"
  shows "mock_call r c w = Some (w\<lparr>memories := (memories w)(r := m)\<rparr>, s, null_request)"
  using assms
  by (cases c) (simp_all add: mock_call_def exec_call_def mock_transport_def kMockOperations_def)

text \<open>What registering a request changes.\<close>

lemma register_request_simps:
  assumes "endpoints w r = Some e0"
  shows "fst (register_request r st k n mode e w) =
    w\<lparr>requests := (requests w)(r := (requests w r)(next_addr w r := Some st)),
      next_addr := (next_addr w)(r := Suc (next_addr w r)),
      endpoints := (endpoints w)(r := Some (e0\<lparr>stats := record_post k n mode (stats e0),
        next_request_id := next_request_id e0 + 1\<rparr>))\<rparr>"
  and "snd (register_request r st k n mode e w) =
    (0, \<lparr>id = next_request_id e, internal = Some (next_addr w r)\<rparr>)"
  using assms by (simp_all add: register_request_def update_endpoint_def Let_def)

text \<open>The new request keeps the relation of its rank, whatever it delivers at once.\<close>

lemma rank_rel_register:
  assumes rel: "rank_rel P w r ep D" and e: "endpoints w r = Some e"
    and wf: "ep_wf (ep_add rec ep)" and req: "req_rel (D(next_addr w r := v)) (next_addr w r) rec st"
    and mem: "memories w' r = overlay (puts (D(next_addr w r := v)) (ep_out ep @ [(next_addr w r, rec)])) (ep_mem ep)"
    and w': "endpoints w' r = endpoints w r" "next_addr w' r = next_addr w r" "requests w' r = requests w r"
  shows "rank_rel P (fst (register_request r st k n mode e w')) r (ep_add rec ep) (D(next_addr w r := v))"
proof -
  have addr: "next_addr w r = ep_next_addr ep" and "ep_wf ep"
    using rel by (simp_all add: rank_rel_def)
  then have old: "a \<noteq> next_addr w r" if "(a, o') \<in> set (ep_out ep)" for a o'
    using that by (auto simp: ep_wf_def list_all_iff)
  let ?w = "fst (register_request r st k n mode e w')"
  have e': "endpoints w' r = Some e"
    using e w' by simp
  note simps = register_request_simps(1) [OF e', of st k n mode e] w'
  have "\<exists>e. endpoints ?w r = Some e \<and> me_rank e = int r \<and> me_world_size e = int P \<and>
      next_request_id e = ep_next_id (ep_add rec ep)"
    using rel e by (auto simp: simps rank_rel_def ep_add_def)
  moreover have "next_addr ?w r = ep_next_addr (ep_add rec ep)"
    by (simp add: simps addr ep_add_def)
  moreover have "\<exists>st. requests ?w r a = Some st \<and> req_rel (D(next_addr w r := v)) a o' st"
    if "(a, o') \<in> set (ep_out (ep_add rec ep))" for a o'
  proof (cases "(a, o') \<in> set (ep_out ep)")
    case True
    then obtain st' where "requests w r a = Some st'" "req_rel D a o' st'"
      using rel by (auto simp: rank_rel_def)
    with old [OF True] show ?thesis
      by (auto simp: simps req_rel_def)
  next
    case False
    with that req show ?thesis
      by (auto simp: simps ep_add_def addr)
  qed
  moreover have "memories ?w r = overlay (puts (D(next_addr w r := v)) (ep_out (ep_add rec ep))) (ep_mem (ep_add rec ep))"
    using mem by (simp add: simps ep_add_def addr)
  ultimately show ?thesis
    using wf unfolding rank_rel_def by blast
qed

lemma mock_rel_update:
  assumes "\<not> heap_exhausted w'" and "length (incoming w') = P" and "r < P"
    and old: "\<And>q. q < P \<Longrightarrow> rank_rel P w q (E q) (D q)"
    and own: "rank_rel P w' r e D1"
      "\<And>t. N' r t = taken t D1 (ep_out e) @ queued t (incoming w' ! r)"
    and frame: "\<And>q. q \<noteq> r \<Longrightarrow> endpoints w' q = endpoints w q \<and> next_addr w' q = next_addr w q \<and>
      requests w' q = requests w q \<and> memories w' q = memories w q"
    and other: "\<And>q t. q < P \<Longrightarrow> q \<noteq> r \<Longrightarrow>
      N' q t = taken t (D q) (ep_out (E q)) @ queued t (incoming w' ! q)"
  shows "mock_rel P w' (E(r := e)) N'"
proof -
  have "rank_rel P w' q ((E(r := e)) q) ((D(r := D1)) q) \<and>
      (\<forall>t. N' q t = taken t ((D(r := D1)) q) (ep_out ((E(r := e)) q)) @ queued t (incoming w' ! q))"
    if "q < P" for q
  proof (cases "q = r")
    case False
    with frame [OF False] old [OF that] other [OF that False] rank_rel_cong [of w' q w]
    show ?thesis by simp
  qed (use own in simp)
  with assms(1,2) show ?thesis
    unfolding mock_rel_def by blast
qed

lemma rank_rel_endpoint:
  assumes "rank_rel P w r ep D"
  obtains e where "endpoints w r = Some e" "me_rank e = int r" "me_world_size e = int P"
    "next_request_id e = ep_next_id ep" "endpoint_of (Some r) w = Some e"
  using assms by (auto simp: rank_rel_def endpoint_of_def)

lemma fresh_addr: "rank_rel P w r ep D \<Longrightarrow> next_addr w r \<notin> fst ` set (ep_out ep)"
  by (auto simp: rank_rel_def ep_wf_def list_all_iff)

lemma rank_rel_memory:
  "rank_rel P w r ep D \<Longrightarrow> memories w r = overlay (puts D (ep_out ep)) (ep_mem ep)"
  by (simp add: rank_rel_def)

section \<open>Posts\<close>

lemma nat_mod_next: "nat ((int r + 1) mod int P) = next_rank P r"
proof -
  have "(int r + 1) mod int P = int ((r + 1) mod P)"
    by (simp add: zmod_int add.commute)
  then show ?thesis
    by (simp add: next_rank_def)
qed

lemma ep_add_simps [simp]:
  "ep_out (ep_add rec ep) = ep_out ep @ [(ep_next_addr ep, rec)]" "ep_mem (ep_add rec ep) = ep_mem ep"
  "ep_in (ep_add rec ep) = ep_in ep"
  by (simp_all add: ep_add_def)

lemma taken_fresh_send:
  assumes "a \<notin> fst ` set out" and "out_kind rec = Send"
  shows "taken t (D(a := v)) (out @ [(a, rec)]) = taken t D out"
    and "puts (D(a := v)) (out @ [(a, rec)]) = puts D out"
  using assms by (simp_all add: taken_append puts_append) (simp_all add: taken_def puts_def delivered_fresh)

lemma taken_fresh_receive:
  assumes "a \<notin> fst ` set out" and "out_kind rec = Receive"
  shows "taken t (D(a := v)) (out @ [(a, rec)]) =
      taken t D out @ (case v of Some d \<Rightarrow> if out_tag rec = t then [d] else [] | None \<Rightarrow> [])"
    and "puts (D(a := v)) (out @ [(a, rec)]) =
      puts D out @ (case v of Some d \<Rightarrow> if length d = out_bytes rec then [(out_buffer rec, d)] else [] | None \<Rightarrow> [])"
  using assms
  by (simp_all add: taken_append puts_append split: option.split)
     (simp_all add: taken_def puts_def delivered_fresh)

lemma taken_tag_free:
  assumes "tag_free ep t"
  shows "taken t D (ep_out ep) = []"
proof -
  have "out_tag r \<noteq> t" if "(r, d) \<in> set (delivered D (ep_out ep))" for r d
    using delivered_set [OF that] assms by (auto simp: tag_free_def list_all_iff)
  then show ?thesis
    by (auto simp: taken_def filter_empty_conv)
qed

lemma mock_send_law:
  assumes rel: "mock_rel P w E N" and r: "r < P"
    and c: "ep_call c (E r) = Some (e, x, Sent t d)"
  shows "\<exists>w'. mock_call r c w = Some (w', x) \<and>
    mock_rel P w' (E(r := e)) (N(next_rank P r := (N (next_rank P r))(t := N (next_rank P r) t @ [d])))"
proof -
  obtain p n mode rq where call: "c = Post_send_next p n t mode rq" and rq: "internal rq = None"
    and n: "0 < n" and read: "may_read (E r) p n" and ld: "load (ep_mem (E r)) p n = Some d"
    and e: "e = ep_add \<lparr>out_kind = Send, out_buffer = p, out_bytes = n, out_tag = t\<rparr> (E r)"
    and x: "x = (0, ep_new_request (E r))"
    using c by (cases c) (auto split: if_splits option.splits list.splits RequestKind.splits)
  obtain D where D: "\<And>q. q < P \<Longrightarrow> rank_rel P w q (E q) (D q)"
      "\<And>q u. q < P \<Longrightarrow> N q u = taken u (D q) (ep_out (E q)) @ queued u (incoming w ! q)"
    using rel unfolding mock_rel_def by blast
  from rank_rel_endpoint [OF D(1) [OF r]] obtain e0 where e0: "endpoints w r = Some e0"
      "me_rank e0 = int r" "me_world_size e0 = int P" "next_request_id e0 = ep_next_id (E r)"
      "endpoint_of (Some r) w = Some e0" .
  let ?n = "next_rank P r" and ?rec = "\<lparr>out_kind = Send, out_buffer = p, out_bytes = n, out_tag = t\<rparr>"
  let ?st = "\<lparr>kind = Send, receive_buffer = NullPtr, req_bytes = 0, req_tag = 0, completed = True, status = 0\<rparr>"
  let ?w1 = "w\<lparr>incoming := (incoming w)[?n := incoming w ! ?n @ [\<lparr>msg_tag = t, payload = d\<rparr>]]\<rparr>"
  let ?w' = "fst (register_request r ?st Send n mode e0 ?w1)"
  note a = fresh_addr [OF D(1) [OF r]]
  have addr: "next_addr w r = ep_next_addr (E r)" and wf: "ep_wf (E r)"
    using D(1) [OF r] by (simp_all add: rank_rel_def)
  have "load (memories w r) p n = Some d"
    using ld load_overlay [OF untouched_puts [OF read]] rank_rel_memory [OF D(1) [OF r]] by simp
  moreover have "p \<noteq> NullPtr" using ld by auto
  ultimately have call': "mock_call r c w = Some (?w', x)"
    using rel rq n e0 nat_mod_next [of r P] register_request_simps(2) [of ?w1 r e0 ?st Send n mode e0]
    by (simp add: call mock_post_send_next_def mock_rel_def x ep_new_request_def addr prod_eq_iff Let_def)
  have e1: "endpoints ?w1 r = Some e0" using e0 by simp
  note w' = register_request_simps(1) [OF e1, of ?st Send n mode e0]
  have own: "rank_rel P ?w' r e ((D r)(next_addr w r := None))"
    unfolding e
  proof (rule rank_rel_register [OF D(1) [OF r] e0(1)])
    show "ep_wf (ep_add ?rec (E r))"
      using ep_call_wf [OF wf c] by (simp add: e)
    show "req_rel ((D r)(next_addr w r := None)) (next_addr w r) ?rec ?st"
      by (simp add: req_rel_def)
    show "memories ?w1 r = overlay (puts ((D r)(next_addr w r := None)) (ep_out (E r) @ [(next_addr w r, ?rec)])) (ep_mem (E r))"
      using rank_rel_memory [OF D(1) [OF r]] by (simp add: taken_fresh_send [OF a])
  qed simp_all
  have len: "length (incoming w) = P" using rel by (simp add: mock_rel_def)
  have queue: "queued u (incoming ?w' ! q) = queued u (incoming w ! q) @ (if q = ?n \<and> u = t then [d] else [])"
    if "q < P" for q u
    using len that r by (auto simp: w' nth_list_update queued_def)
  have "mock_rel P ?w' (E(r := e)) (N(?n := (N ?n)(t := N ?n t @ [d])))"
  proof (rule mock_rel_update [OF _ _ r D(1) own])
    show "(N(?n := (N ?n)(t := N ?n t @ [d]))) r u =
        taken u ((D r)(next_addr w r := None)) (ep_out e) @ queued u (incoming ?w' ! r)" for u
      using D(2) [OF r] a queue [OF r] by (simp add: e addr [symmetric] taken_fresh_send)
    show "(N(?n := (N ?n)(t := N ?n t @ [d]))) q u =
        taken u (D q) (ep_out (E q)) @ queued u (incoming ?w' ! q)" if "q < P" "q \<noteq> r" for q u
      using D(2) [OF that(1)] queue [OF that(1)] by (cases "q = ?n") auto
  qed (use rel len in \<open>auto simp: w' mock_rel_def\<close>)
  with call' show ?thesis by blast
qed

text \<open>A posted receive takes the first message of its tag, if one is there already.\<close>

lemma mock_post_recv_complete:
  assumes mem: "m0 = overlay (puts D (ep_out ep)) (ep_mem ep)" and may: "may_write ep p n"
    and ld: "load (ep_mem ep) p n \<noteq> None" and n: "0 < n" and a: "a \<notin> fst ` set (ep_out ep)"
    and v: "v = (case queued t q0 of [] \<Rightarrow> None | d # ds \<Rightarrow> Some d)"
  defines "rec \<equiv> \<lparr>out_kind = Receive, out_buffer = p, out_bytes = n, out_tag = t\<rparr>"
    and "st0 \<equiv> \<lparr>kind = Receive, receive_buffer = p, req_bytes = n, req_tag = t, completed = False, status = 0\<rparr>"
  shows "\<exists>st m q found. try_complete_receive_locked st0 m0 q0 = Some (st, m, q, found) \<and>
    req_rel (D(a := v)) a rec st \<and> m = overlay (puts (D(a := v)) (ep_out ep @ [(a, rec)])) (ep_mem ep) \<and>
    (\<forall>u. (case v of Some d \<Rightarrow> if u = t then [d] else [] | None \<Rightarrow> []) @ queued u q = queued u q0)"
proof (cases "queued t q0")
  case Nil
  then show ?thesis
    using complete_none [of st0 q0 m0] n
    by (auto simp: v mem taken_fresh_receive(2) [OF a] rec_def st0_def req_rel_def)
next
  case (Cons d ds)
  let ?m = "if length d = n then put (p, d) m0 else m0"
  have "untouched (puts D (ep_out ep)) p n"
    by (rule untouched_puts [OF may_write_read [OF may]])
  then have "load m0 p n \<noteq> None"
    using ld by (simp add: mem load_overlay)
  then have st: "length d = n \<Longrightarrow> store m0 p d = Some ?m"
    using store_defined [of m0 p d] by auto
  have "\<exists>q'. try_complete_receive_locked st0 m0 q0 =
      Some (st0\<lparr>status := (if length d = req_bytes st0 then 0 else -1), completed := True\<rparr>, ?m, q', True) \<and>
      (\<forall>u. queued u q' = (if u = req_tag st0 then ds else queued u q0))"
    by (rule complete_some) (use Cons n st in \<open>simp_all add: st0_def\<close>)
  then obtain q' where "try_complete_receive_locked st0 m0 q0 =
      Some (st0\<lparr>status := (if length d = n then 0 else -1), completed := True\<rparr>, ?m, q', True)"
    "\<And>u. queued u q' = (if u = t then ds else queued u q0)"
    by (auto simp: st0_def)
  then show ?thesis
    using Cons n
    by (auto simp: v mem taken_fresh_receive(2) [OF a] rec_def req_rel_def st0_def simp del: put.simps)
qed

lemma mock_post_recv_law:
  assumes rel: "mock_rel P w E N" and r: "r < P"
    and c: "ep_call (Post_recv_prev p n t mode rq) (E r) = Some (e, x, ev)"
  shows "\<exists>w'. mock_call r (Post_recv_prev p n t mode rq) w = Some (w', x) \<and> mock_rel P w' (E(r := e)) N"
proof -
  let ?rec = "\<lparr>out_kind = Receive, out_buffer = p, out_bytes = n, out_tag = t\<rparr>"
  have rq: "internal rq = None" and n: "0 < n" and may: "may_write (E r) p n"
    and free: "tag_free (E r) t" and ld: "load (ep_mem (E r)) p n \<noteq> None"
    and e: "e = ep_add ?rec (E r)" and x: "x = (0, ep_new_request (E r))"
    using c by (auto split: if_splits)
  obtain D where D: "\<And>q. q < P \<Longrightarrow> rank_rel P w q (E q) (D q)"
      "\<And>q u. q < P \<Longrightarrow> N q u = taken u (D q) (ep_out (E q)) @ queued u (incoming w ! q)"
    using rel unfolding mock_rel_def by blast
  from rank_rel_endpoint [OF D(1) [OF r]] obtain e0 where e0: "endpoints w r = Some e0"
      "me_rank e0 = int r" "me_world_size e0 = int P" "next_request_id e0 = ep_next_id (E r)"
      "endpoint_of (Some r) w = Some e0" .
  note a = fresh_addr [OF D(1) [OF r]] and mem = rank_rel_memory [OF D(1) [OF r]]
  have addr: "next_addr w r = ep_next_addr (E r)" and wf: "ep_wf (E r)"
    using D(1) [OF r] by (simp_all add: rank_rel_def)
  let ?st = "\<lparr>kind = Receive, receive_buffer = p, req_bytes = n, req_tag = t, completed = False, status = 0\<rparr>"
  define v where "v = (case queued t (incoming w ! r) of [] \<Rightarrow> None | d # ds \<Rightarrow> Some d)"
  let ?D = "(D r)(next_addr w r := v)"
  obtain st m q found where tc: "try_complete_receive_locked ?st (memories w r) (incoming w ! r) = Some (st, m, q, found)"
    and st: "req_rel ?D (next_addr w r) ?rec st"
    and m: "m = overlay (puts ?D (ep_out (E r) @ [(next_addr w r, ?rec)])) (ep_mem (E r))"
    and q: "\<And>u. (case v of Some d \<Rightarrow> if u = t then [d] else [] | None \<Rightarrow> []) @ queued u q = queued u (incoming w ! r)"
    using mock_post_recv_complete [OF mem may ld n a v_def] by blast
  let ?w1 = "w\<lparr>incoming := (incoming w)[r := q], memories := (memories w)(r := m)\<rparr>"
  let ?w' = "fst (register_request r st Receive n mode e0 ?w1)"
  have "p \<noteq> NullPtr" using ld by auto
  with tc have call': "mock_call r (Post_recv_prev p n t mode rq) w = Some (?w', x)"
    using rel rq n e0 register_request_simps(2) [of ?w1 r e0 st Receive n mode e0]
    by (simp add: mock_post_recv_prev_def mock_rel_def x ep_new_request_def addr prod_eq_iff Let_def)
  have e1: "endpoints ?w1 r = Some e0" using e0 by simp
  note w' = register_request_simps(1) [OF e1, of st Receive n mode e0]
  have own: "rank_rel P ?w' r e ?D"
    unfolding e
  proof (rule rank_rel_register [OF D(1) [OF r] e0(1) _ st])
    show "ep_wf (ep_add ?rec (E r))"
      using ep_call_wf [OF wf c] by (simp add: e)
  qed (simp_all add: m)
  have len: "length (incoming w) = P" using rel by (simp add: mock_rel_def)
  have "mock_rel P ?w' (E(r := e)) N"
  proof (rule mock_rel_update [OF _ _ r D(1) own])
    show "N r u = taken u ?D (ep_out e) @ queued u (incoming ?w' ! r)" for u
      using D(2) [OF r, of u] q [of u] r len
      by (auto simp: e addr [symmetric] taken_fresh_receive [OF a] w' split: option.splits)
    show "N k u = taken u (D k) (ep_out (E k)) @ queued u (incoming ?w' ! k)" if "k < P" "k \<noteq> r" for k u
      using D(2) [OF that(1)] that by (simp add: w')
  qed (use rel len in \<open>auto simp: w' mock_rel_def\<close>)
  with call' show ?thesis by blast
qed

end
