(* ===== verification/Mock_Interpretation.thy ===== *)
theory Mock_Interpretation
  imports Mock_Refinement
begin

text \<open>
  The remaining laws of the mock transport (waits and buffer accesses), the interpretation of
  the transport interface on it, and the world a freshly created group starts in.
\<close>

section \<open>Leaving a request\<close>

text \<open>A rank whose request at \<open>a\<close> is finished and whose memory stays that of the relation.\<close>

lemma rank_rel_finish:
  assumes rel: "rank_rel P w r ep D" and e: "endpoints w r = Some e"
    and ep': "ep' = ep\<lparr>ep_mem := m', ep_out := remove_out a (ep_out ep), ep_in := i'\<rparr>"
    and mem: "memories w' r = overlay (puts D (remove_out a (ep_out ep))) m'"
    and w': "endpoints w' r = endpoints w r" "next_addr w' r = next_addr w r" "requests w' r = requests w r"
  shows "rank_rel P (fst (finish_wait r a s w')) r ep' D"
proof -
  have "ep_wf ep"
    using rel by (simp add: rank_rel_def)
  then have "ep_wf ep'"
    by (rule ep_wf_remove) (simp_all add: ep')
  with assms show ?thesis
    by (auto simp: rank_rel_def finish_wait_def update_endpoint_def Let_def remove_out_def)
qed

lemma finish_wait_frame:
  "snd (finish_wait r a s w) = (s, null_request)"
  "incoming (fst (finish_wait r a s w)) = incoming w"
  "heap_exhausted (fst (finish_wait r a s w)) = heap_exhausted w"
  "q \<noteq> r \<Longrightarrow> endpoints (fst (finish_wait r a s w)) q = endpoints w q"
  "q \<noteq> r \<Longrightarrow> requests (fst (finish_wait r a s w)) q = requests w q"
  "next_addr (fst (finish_wait r a s w)) = next_addr w"
  "memories (fst (finish_wait r a s w)) = memories w"
  by (simp_all add: finish_wait_def update_endpoint_def Let_def)

lemma taken_without_send:
  assumes "out_kind rec = Send"
  shows "taken t D (xs @ (a, rec) # ys) = taken t D (xs @ ys)"
    and "puts D (xs @ (a, rec) # ys) = puts D (xs @ ys)"
  using assms by (simp_all add: taken_def puts_def)

lemma rank_rel_request:
  assumes "rank_rel P w r ep D" and "map_of (ep_out ep) a = Some rec"
  obtains st where "requests w r a = Some st" and "req_rel D a rec st"
  using assms map_of_SomeD [OF assms(2)] unfolding rank_rel_def by blast

section \<open>Waiting for a send\<close>

lemma mock_wait_send_law:
  assumes rel: "mock_rel P w E N" and r: "r < P"
    and c: "ep_call (Wait rq) (E r) = Some (e, x, Silent)"
  shows "\<exists>w'. mock_call r (Wait rq) w = Some (w', x) \<and> mock_rel P w' (E(r := e)) N"
proof -
  obtain a rec where a: "internal rq = Some a" "map_of (ep_out (E r)) a = Some rec"
    and k: "out_kind rec = Send" and x: "x = (0, null_request)"
    and e: "e = (E r)\<lparr>ep_out := remove_out a (ep_out (E r))\<rparr>"
    using c by (auto split: option.splits RequestKind.splits list.splits if_splits)
  obtain D where D: "\<And>q. q < P \<Longrightarrow> rank_rel P w q (E q) (D q)"
      "\<And>q u. q < P \<Longrightarrow> N q u = taken u (D q) (ep_out (E q)) @ queued u (incoming w ! q)"
    using rel unfolding mock_rel_def by blast
  obtain e0 where e0: "endpoints w r = Some e0"
    using rank_rel_endpoint [OF D(1) [OF r]] by metis
  obtain st where st: "requests w r a = Some st" "req_rel (D r) a rec st"
    using rank_rel_request [OF D(1) [OF r] a(2)] .
  have wf: "ep_wf (E r)"
    using D(1) [OF r] by (simp add: rank_rel_def)
  obtain xs ys where s: "ep_out (E r) = xs @ (a, rec) # ys" "remove_out a (ep_out (E r)) = xs @ ys"
    using split_out [OF wf a(2)] by metis
  let ?w' = "fst (finish_wait r a (status st) w)"
  have "status st = 0" "kind st = Send"
    using st(2) k by (simp_all add: req_rel_def)
  then have call: "mock_call r (Wait rq) w = Some (?w', x)"
    using a st(1) e0 by (simp add: mock_wait_def x prod_eq_iff finish_wait_frame)
  have own: "rank_rel P ?w' r e (D r)"
  proof (rule rank_rel_finish [OF D(1) [OF r] e0])
    show "e = (E r)\<lparr>ep_mem := ep_mem (E r), ep_out := remove_out a (ep_out (E r)), ep_in := ep_in (E r)\<rparr>"
      by (simp add: e)
    show "memories w r = overlay (puts (D r) (remove_out a (ep_out (E r)))) (ep_mem (E r))"
      unfolding s(2) using rank_rel_memory [OF D(1) [OF r]]
      by (simp add: s(1) taken_without_send(2) [OF k])
  qed simp_all
  have "mock_rel P ?w' (E(r := e)) N"
  proof (rule mock_rel_update [OF _ _ r D(1) own])
    show "N r u = taken u (D r) (ep_out e) @ queued u (incoming ?w' ! r)" for u
      using D(2) [OF r]
      by (simp add: e s(2) finish_wait_frame) (simp add: s(1) taken_without_send(1) [OF k])
    show "N k u = taken u (D k) (ep_out (E k)) @ queued u (incoming ?w' ! k)" if "k < P" "k \<noteq> r" for k u
      using D(2) [OF that(1)] by (simp add: finish_wait_frame)
  qed (use rel in \<open>auto simp: mock_rel_def finish_wait_frame\<close>)
  with call show ?thesis by blast
qed

section \<open>Waiting for a receive\<close>

text \<open>
  The two ways the message of an outstanding receive can be at the mock: already copied to
  the buffer, or still in the queue. Either way the finished wait leaves the memory of the
  contract with the other early deliveries on top.
\<close>

lemma taken_own:
  assumes wf: "ep_wf ep" and s: "ep_out ep = xs @ (a, rec) # ys" and k: "out_kind rec = Receive"
  shows "taken t D (ep_out ep) =
      (if t = out_tag rec then (case D a of None \<Rightarrow> [] | Some d \<Rightarrow> [d]) else taken t D (xs @ ys))"
    and "taken (out_tag rec) D (xs @ ys) = []"
proof -
  have "out_tag r \<noteq> out_tag rec" if "(r, d) \<in> set (delivered D (xs @ ys))" for r d
  proof -
    obtain b where b: "(b, r) \<in> set (xs @ ys)" "out_kind r = Receive"
      using delivered_set [OF \<open>(r, d) \<in> _\<close>] by blast
    with wf s have "b \<noteq> a" by (force simp: ep_wf_def)
    with b wf_other_compatible [OF wf, of "(b, r)" "(a, rec)"] show ?thesis
      by (auto simp: s k compatible_def)
  qed
  then show *: "taken (out_tag rec) D (xs @ ys) = []"
    by (auto simp: taken_def filter_empty_conv)
  then have "taken (out_tag rec) D xs = []" "taken (out_tag rec) D ys = []"
    by (simp_all add: taken_append)
  with k show "taken t D (ep_out ep) =
      (if t = out_tag rec then (case D a of None \<Rightarrow> [] | Some d \<Rightarrow> [d]) else taken t D (xs @ ys))"
    by (auto simp: s taken_append) (simp_all add: taken_def split: option.split)
qed

lemma untouched_others:
  assumes wf: "ep_wf ep" and s: "ep_out ep = xs @ (a, rec) # ys" and k: "out_kind rec = Receive"
  shows "untouched (puts D (xs @ ys)) (out_buffer rec) (out_bytes rec)"
proof -
  have "region_disjoint p (length d) (out_buffer rec) (out_bytes rec)"
    if "(p, d) \<in> set (puts D (xs @ ys))" for p d
  proof -
    obtain b r where b: "(b, r) \<in> set (xs @ ys)" "out_kind r = Receive" "out_buffer r = p" "length d = out_bytes r"
      using puts_set [OF \<open>(p, d) \<in> _\<close>] by blast
    with wf s have "b \<noteq> a" by (force simp: ep_wf_def)
    with b wf_other_compatible [OF wf, of "(b, r)" "(a, rec)"] show ?thesis
      by (auto simp: s k compatible_def)
  qed
  then show ?thesis by (auto simp: untouched_def list_all_iff)
qed

lemma untouched_append: "untouched (xs @ ys) p n = (untouched xs p n \<and> untouched ys p n)"
  by (simp add: untouched_def)

lemma puts_delivered:
  assumes u: "untouched (puts D (xs @ ys)) (out_buffer rec) (length d)" and k: "out_kind rec = Receive"
    and d: "D a = Some d" "length d = out_bytes rec" and st: "store m (out_buffer rec) d = Some m'"
  shows "overlay (puts D (xs @ (a, rec) # ys)) m = overlay (puts D (xs @ ys)) m'"
proof -
  have "puts D (xs @ (a, rec) # ys) = puts D xs @ (out_buffer rec, d) # puts D ys"
    using k d by (simp add: puts_def)
  then have "overlay (puts D (xs @ (a, rec) # ys)) m =
      overlay (puts D ys) (put (out_buffer rec, d) (overlay (puts D xs) m))"
    by (simp add: overlay_append overlay_Cons)
  also have "put (out_buffer rec, d) (overlay (puts D xs) m) =
      overlay (puts D xs) (put (out_buffer rec, d) m)"
    using u by (simp add: overlay_put puts_append untouched_append del: put.simps)
  finally show ?thesis
    by (simp add: puts_append overlay_append overlay_store [OF st] del: put.simps)
qed

lemma mock_wait_receive:
  assumes rel: "rank_rel P w r ep D" and wait: "ep_wait a ep = Some (e, x, Received t)"
    and N: "taken t D (ep_out ep) @ queued t (incoming w ! r) = d # ns" and d: "ep_in ep t = d # ds"
    and rec: "map_of (ep_out ep) a = Some rec" and rq: "internal rq = Some a"
  shows "\<exists>w1. mock_wait (Some r) rq w = Some (fst (finish_wait r a 0 w1), x) \<and>
    rank_rel P (fst (finish_wait r a 0 w1)) r e D \<and>
    (\<exists>q m. w1 = w\<lparr>incoming := (incoming w)[r := q], memories := (memories w)(r := m)\<rparr> \<and>
      (\<forall>u. taken u D (ep_out e) @ queued u q =
        (if u = t then ns else taken u D (ep_out ep) @ queued u (incoming w ! r))))"
proof -
  have k: "out_kind rec = Receive" and t: "out_tag rec = t" and len: "length d = out_bytes rec"
    and x: "x = (0, null_request)"
    using wait rec d by (auto split: RequestKind.splits list.splits if_splits option.splits)
  obtain m where m: "store (ep_mem ep) (out_buffer rec) d = Some m"
    and e: "e = ep\<lparr>ep_mem := m, ep_out := remove_out a (ep_out ep), ep_in := (ep_in ep)(t := ds)\<rparr>"
    using wait rec k t d by (auto split: if_splits option.splits)
  obtain e0 where e0: "endpoints w r = Some e0" "me_rank e0 = int r"
    using rank_rel_endpoint [OF rel] by metis
  obtain st where st: "requests w r a = Some st" "req_rel D a rec st"
    using rank_rel_request [OF rel rec] .
  have wf: "ep_wf ep"
    using rel by (simp add: rank_rel_def)
  obtain xs ys where s: "ep_out ep = xs @ (a, rec) # ys" "remove_out a (ep_out ep) = xs @ ys"
    using split_out [OF wf rec] by metis
  have own: "taken u D (ep_out ep) =
      (if u = t then (case D a of None \<Rightarrow> [] | Some d \<Rightarrow> [d]) else taken u D (xs @ ys))"
    "taken t D (xs @ ys) = []" for u
    using taken_own [OF wf s(1) k] t by metis+
  have unt: "untouched (puts D (xs @ ys)) (out_buffer rec) (length d)"
    unfolding len by (rule untouched_others [OF wf s(1) k])
  let ?m = "overlay (puts D (xs @ ys)) m"
  show ?thesis
  proof (cases "D a")
    case (Some d')
    with N own(1) [of t] have d': "d' = d" "ns = queued t (incoming w ! r)" by simp_all
    let ?w1 = "w\<lparr>incoming := (incoming w)[r := incoming w ! r], memories := (memories w)(r := memories w r)\<rparr>"
    have "memories w r = ?m"
      using puts_delivered [OF unt k _ len m] Some d' rank_rel_memory [OF rel] s(1) by metis
    then have "rank_rel P (fst (finish_wait r a 0 ?w1)) r e D"
      by (intro rank_rel_finish [OF rel e0(1) e]) (simp_all add: s(2))
    moreover have "status st = 0" "completed st"
      using st(2) k Some d' len by (simp_all add: req_rel_def)
    then have "mock_wait (Some r) rq w = Some (fst (finish_wait r a 0 ?w1), x)"
      using st(1) e0 rq by (simp add: mock_wait_def x prod_eq_iff finish_wait_frame)
    moreover have "taken u D (ep_out e) @ queued u (incoming w ! r) =
        (if u = t then ns else taken u D (ep_out ep) @ queued u (incoming w ! r))" for u
      using own by (simp add: e s(2) d')
    ultimately show ?thesis by blast
  next
    case None
    have q0: "queued (req_tag st) (incoming w ! r) = d # ns" and st': "0 < req_bytes st" "\<not> completed st"
        "receive_buffer st = out_buffer rec" "req_bytes st = out_bytes rec" "kind st = Receive" "req_tag st = t"
      using N own(1) [of t] None st(2) k t by (simp_all add: req_rel_def)
    have "puts D (ep_out ep) = puts D (xs @ ys)"
      using None k by (simp add: s(1) puts_def)
    then have mem: "store (memories w r) (receive_buffer st) d = Some ?m"
      using m st' rank_rel_memory [OF rel] by (simp add: store_overlay [OF unt])
    obtain q where q: "try_complete_receive_locked st (memories w r) (incoming w ! r) =
        Some (st\<lparr>status := 0, completed := True\<rparr>, ?m, q, True)"
      "\<And>u. queued u q = (if u = t then ns else queued u (incoming w ! r))"
      using complete_some [OF q0 st'(1) mem] len st' by auto
    let ?w1 = "w\<lparr>incoming := (incoming w)[r := q], memories := (memories w)(r := ?m)\<rparr>"
    have "rank_rel P (fst (finish_wait r a 0 ?w1)) r e D"
      by (intro rank_rel_finish [OF rel e0(1) e]) (simp_all add: s(2))
    moreover have "mock_wait (Some r) rq w = Some (fst (finish_wait r a 0 ?w1), x)"
      using st(1) st' e0 rq q(1) by (simp add: mock_wait_def x prod_eq_iff finish_wait_frame)
    moreover have "taken u D (ep_out e) @ queued u q =
        (if u = t then ns else taken u D (ep_out ep) @ queued u (incoming w ! r))" for u
      using own q(2) None by (simp add: e s(2))
    ultimately show ?thesis by blast
  qed
qed

lemma mock_wait_receive_law:
  assumes rel: "mock_rel P w E N" and r: "r < P"
    and c: "ep_call c (E r) = Some (e, x, Received t)" and d: "ep_in (E r) t = d # ds" and N: "N r t = d # ns"
  shows "\<exists>w'. mock_call r c w = Some (w', x) \<and> mock_rel P w' (E(r := e)) (N(r := (N r)(t := ns)))"
proof -
  obtain rq a rec where rq: "c = Wait rq" "internal rq = Some a" and rec: "map_of (ep_out (E r)) a = Some rec"
    using ep_call_Received [OF c] by blast
  from c rq have wait: "ep_wait a (E r) = Some (e, x, Received t)" by simp
  obtain D where D: "\<And>q. q < P \<Longrightarrow> rank_rel P w q (E q) (D q)"
      "\<And>q u. q < P \<Longrightarrow> N q u = taken u (D q) (ep_out (E q)) @ queued u (incoming w ! q)"
    using rel unfolding mock_rel_def by blast
  have "taken t (D r) (ep_out (E r)) @ queued t (incoming w ! r) = d # ns"
    using D(2) [OF r] N by simp
  from mock_wait_receive [OF D(1) [OF r] wait this d rec rq(2)]
  obtain w1 q m where call: "mock_wait (Some r) rq w = Some (fst (finish_wait r a 0 w1), x)"
    and own: "rank_rel P (fst (finish_wait r a 0 w1)) r e (D r)"
    and w1: "w1 = w\<lparr>incoming := (incoming w)[r := q], memories := (memories w)(r := m)\<rparr>"
    and q: "\<And>u. taken u (D r) (ep_out e) @ queued u q =
        (if u = t then ns else taken u (D r) (ep_out (E r)) @ queued u (incoming w ! r))"
    by blast
  have len: "length (incoming w) = P" using rel by (simp add: mock_rel_def)
  let ?w' = "fst (finish_wait r a 0 w1)"
  have "mock_rel P ?w' (E(r := e)) (N(r := (N r)(t := ns)))"
  proof (rule mock_rel_update [OF _ _ r D(1) own])
    show "(N(r := (N r)(t := ns))) r u = taken u (D r) (ep_out e) @ queued u (incoming ?w' ! r)" for u
      using D(2) [OF r, of u] q [of u] r len by (simp add: finish_wait_frame w1)
    show "(N(r := (N r)(t := ns))) k u = taken u (D k) (ep_out (E k)) @ queued u (incoming ?w' ! k)"
      if "k < P" "k \<noteq> r" for k u
      using D(2) [OF that(1)] that by (simp add: finish_wait_frame w1)
  qed (use rel len in \<open>auto simp: mock_rel_def finish_wait_frame w1\<close>)
  with call show ?thesis by (auto simp: rq)
qed

lemma mock_wait_block_law:
  assumes rel: "mock_rel P w E N" and r: "r < P"
    and c: "ep_call c (E r) = Some (e, x, Received t)" and N: "N r t = []"
  shows "mock_call r c w = None"
proof -
  obtain rq a rec where rq: "c = Wait rq" "internal rq = Some a" and rec: "map_of (ep_out (E r)) a = Some rec"
    and k: "out_kind rec = Receive" "out_tag rec = t"
    using ep_call_Received [OF c] by blast
  obtain D where D: "rank_rel P w r (E r) D" "N r t = taken t D (ep_out (E r)) @ queued t (incoming w ! r)"
    using rel r unfolding mock_rel_def by blast
  obtain e0 where e0: "endpoints w r = Some e0" "me_rank e0 = int r"
    using rank_rel_endpoint [OF D(1)] by metis
  obtain st where st: "requests w r a = Some st" "req_rel D a rec st"
    using rank_rel_request [OF D(1) rec] .
  have wf: "ep_wf (E r)"
    using D(1) by (simp add: rank_rel_def)
  obtain xs ys where s: "ep_out (E r) = xs @ (a, rec) # ys"
    using split_out [OF wf rec] by metis
  have "D a = None" and q: "queued t (incoming w ! r) = []"
    using D(2) N taken_own(1) [OF wf s k(1), of t D] k(2) by (auto split: option.splits)
  with st(2) k have "\<not> completed st" "kind st = Receive" "req_tag st = t"
    by (simp_all add: req_rel_def)
  with st(1) e0 rq q show ?thesis
    using complete_none [of st "incoming w ! r" "memories w r"] by (simp add: mock_wait_def)
qed

section \<open>Buffer accesses\<close>

lemma puts_apart:
  assumes "(p, d) \<in> set (puts D (ep_out ep))" and "list_all (\<lambda>(a, r). \<not> in_block b (out_buffer r)) (ep_out ep)"
  shows "\<not> in_block b p"
  using puts_set [OF assms(1)] assms(2) by (auto simp: list_all_iff)

lemma mem_call_overlay:
  assumes ok: "buffer_call_allowed c ep" and run: "mem_call c (ep_mem ep) = Some (s, m)"
  shows "mem_call c (overlay (puts D (ep_out ep)) (ep_mem ep)) = Some (s, overlay (puts D (ep_out ep)) m)"
proof (cases c)
  case (Reduce_in_place p q n dt op)
  with ok have "untouched (puts D (ep_out ep)) p (n * datatype_size dt)"
      "untouched (puts D (ep_out ep)) q (n * datatype_size dt)"
    by (auto simp: buffer_call_allowed_def intro: untouched_puts may_write_read)
  with run Reduce_in_place show ?thesis
    by (simp add: reduce_in_place_overlay)
next
  case (Memcpy p q n)
  with ok have u: "untouched (puts D (ep_out ep)) p n" "untouched (puts D (ep_out ep)) q n"
    by (auto simp: buffer_call_allowed_def intro: untouched_puts may_write_read)
  from run Memcpy obtain ds where "load (ep_mem ep) q n = Some ds" "store (ep_mem ep) p ds = Some m"
      "s = 0" "region_disjoint p n q n"
    by (auto split: if_splits option.splits)
  with u Memcpy length_load [of "ep_mem ep" q n ds] show ?thesis
    by (simp add: load_overlay store_overlay)
next
  case (Resize b n)
  with ok have "list_all (\<lambda>(p, d). \<not> in_block b p) (puts D (ep_out ep))"
    using puts_apart by (fastforce simp: buffer_call_allowed_def list_all_iff)
  with run Resize show ?thesis
    by (auto simp: overlay_other_block split: option.splits)
qed (use run in simp_all)

lemma mock_buffer_law:
  assumes rel: "mock_rel P w E N" and r: "r < P" and ok: "buffer_call_allowed c (E r)"
    and run: "mem_call c (ep_mem (E r)) = Some (s, m)"
  shows "\<exists>w'. mock_call r c w = Some (w', s, null_request) \<and> mock_rel P w' (E(r := (E r)\<lparr>ep_mem := m\<rparr>)) N"
proof -
  obtain D where D: "\<And>q. q < P \<Longrightarrow> rank_rel P w q (E q) (D q)"
      "\<And>q u. q < P \<Longrightarrow> N q u = taken u (D q) (ep_out (E q)) @ queued u (incoming w ! q)"
    using rel unfolding mock_rel_def by blast
  let ?m = "overlay (puts (D r) (ep_out (E r))) m"
  let ?w = "w\<lparr>memories := (memories w)(r := ?m)\<rparr>"
  have call: "mock_call r c w = Some (?w, s, null_request)"
    using mock_call_buffer [of c w r s ?m] mem_call_overlay [OF ok run] rank_rel_memory [OF D(1) [OF r]] by simp
  have own: "rank_rel P ?w r ((E r)\<lparr>ep_mem := m\<rparr>) (D r)"
    using D(1) [OF r] by (auto simp: rank_rel_def ep_wf_def)
  have "mock_rel P ?w (E(r := (E r)\<lparr>ep_mem := m\<rparr>)) N"
    by (rule mock_rel_update [OF _ _ r D(1) own])
       (use rel D(2) r in \<open>simp_all add: mock_rel_def\<close>)
  with call show ?thesis by blast
qed

section \<open>The interface holds\<close>

lemma mock_silent_law:
  assumes rel: "mock_rel P w E N" and r: "r < P" and c: "ep_call c (E r) = Some (e, x, Silent)"
  shows "\<exists>w'. mock_call r c w = Some (w', x) \<and> mock_rel P w' (E(r := e)) N"
proof (cases c)
  case (Post_send_next p n t mode rq)
  with c show ?thesis by (auto split: if_splits option.splits)
next
  case (Post_recv_prev p n t mode rq)
  with mock_post_recv_law [OF rel r] c show ?thesis by blast
next
  case (Wait rq)
  with mock_wait_send_law [OF rel r] c show ?thesis by blast
qed (use mock_buffer_law [OF rel r, of c] c in \<open>auto split: if_splits\<close>)

interpretation mock: ring_transport P mock_call "mock_rel P" for P
  by unfold_locales
     (rule mock_silent_law mock_send_law mock_wait_receive_law mock_wait_block_law; assumption)+

text \<open>The world of a new group is related to fresh endpoints with nothing under way.\<close>

definition fresh_endpoint :: "memory \<Rightarrow> (pg_tag \<Rightarrow> bytes list) \<Rightarrow> endpoint" where
  "fresh_endpoint m ins = \<lparr>ep_mem = m, ep_out = [], ep_next_id = 1, ep_next_addr = 0, ep_in = ins\<rparr>"

lemma mock_group_fresh:
  assumes "mock_transport_group_create (int P) False mems False = (0, Some (w, ts))"
  shows "mock_rel P w (\<lambda>r. fresh_endpoint (mems r) (ins r)) (\<lambda>r t. [])"
  using assms
  by (auto simp: mock_transport_group_create_def mock_rel_def rank_rel_def fresh_endpoint_def ep_wf_def
      mock_endpoint_def taken_def puts_def queued_def split: if_splits)

end
