(* ===== verification/Block_Layout.thy ===== *)
theory Block_Layout
  imports Pg_Types
begin

text \<open>
  \<open>src/block_layout.cpp\<close>: the split of \<open>count\<close> elements into \<open>world_size\<close> contiguous
  blocks. The lemmas give the counts and offsets in closed form, that the blocks partition
  the elements, and that the arithmetic never wraps.
\<close>

section \<open>The code\<close>

record BlockLayout =
  counts :: "nat list"
  offsets :: "nat list"

text \<open>The loop over the blocks, from \<open>block\<close> on, with the running offset.\<close>

function layout_loop :: "nat \<Rightarrow> nat \<Rightarrow> nat \<Rightarrow> nat \<Rightarrow> nat \<Rightarrow> BlockLayout \<Rightarrow> BlockLayout" where
  "layout_loop world base rem block running layout =
     (if block < world then
        let block_count = size_add base (if block < rem then 1 else 0)
        in layout_loop world base rem (Suc block) (size_add running block_count)
             (layout\<lparr>counts := (counts layout)[block := block_count],
                     offsets := (offsets layout)[block := running]\<rparr>)
      else layout)"
  by pat_completeness auto
termination
  by (relation "measure (\<lambda>(world, base, rem, block, running, layout). world - block)") auto

declare layout_loop.simps [simp del]

definition compute_block_layout :: "nat \<Rightarrow> int \<Rightarrow> BlockLayout \<Rightarrow> int \<times> BlockLayout" where
  "compute_block_layout count world_size layout =
     (if world_size \<le> 0 then (PG_ERR_INVALID_ARGUMENT, layout)
      else
        let world = nat world_size;
            cleared = layout\<lparr>counts := replicate world 0, offsets := replicate world 0\<rparr>
        in (PG_SUCCESS, layout_loop world (count div world) (count mod world) 0 0 cleared))"

section \<open>Closed form\<close>

definition block_count :: "nat \<Rightarrow> nat \<Rightarrow> nat \<Rightarrow> nat" where
  "block_count count world b = count div world + (if b < count mod world then 1 else 0)"

definition block_offset :: "nat \<Rightarrow> nat \<Rightarrow> nat \<Rightarrow> nat" where
  "block_offset count world b = block_start (block_count count world) b"

lemma block_start_closed:
  "b \<le> world \<Longrightarrow>
   block_start (block_count count world) b = b * (count div world) + min b (count mod world)"
  by (induction b) (auto simp: block_count_def min_def)

lemma block_offset_closed:
  "b \<le> world \<Longrightarrow> block_offset count world b = b * (count div world) + min b (count mod world)"
  by (simp add: block_offset_def block_start_closed)

lemma block_start_total:
  assumes "0 < world"
  shows "block_start (block_count count world) world = count"
proof -
  have "min world (count mod world) = count mod world"
    using mod_less_divisor [OF assms, of count] by simp
  then show ?thesis
    by (simp add: block_start_closed)
qed

lemma block_count_fits:
  assumes "0 < world" and "b < world"
  shows "block_offset count world b + block_count count world b \<le> count"
  using block_range_in [OF assms(2), of "block_count count world"]
  by (simp add: block_offset_def block_start_total [OF assms(1)])

lemma block_count_le: "0 < world \<Longrightarrow> b < world \<Longrightarrow> block_count count world b \<le> count"
  using block_count_fits [of world b count] by linarith

lemma layout_loop_eq:
  assumes "0 < world" and "count < size_modulus" and "block \<le> world"
    and "length (counts layout) = world" and "length (offsets layout) = world"
  shows "layout_loop world (count div world) (count mod world) block
           (block_offset count world block) layout =
         layout\<lparr>counts := take block (counts layout) @ map (block_count count world) [block..<world],
                offsets := take block (offsets layout) @ map (block_offset count world) [block..<world]\<rparr>"
  using assms(3-5)
proof (induction "world - block" arbitrary: block layout)
  case 0
  then show ?case by (simp add: layout_loop.simps)
next
  case (Suc d)
  then have lt: "block < world" by simp
  have fits: "block_offset count world block + block_count count world block \<le> count"
    by (rule block_count_fits [OF assms(1) lt])
  have cnt: "size_add (count div world) (if block < count mod world then 1 else 0)
      = block_count count world block"
    using fits assms(2) by (simp add: block_count_def size_exact)
  have off: "size_add (block_offset count world block) (block_count count world block)
      = block_offset count world (Suc block)"
    using fits assms(2) by (simp add: block_offset_def size_exact)
  let ?l = "layout\<lparr>counts := (counts layout)[block := block_count count world block],
                   offsets := (offsets layout)[block := block_offset count world block]\<rparr>"
  have "layout_loop world (count div world) (count mod world) block
          (block_offset count world block) layout =
        layout_loop world (count div world) (count mod world) (Suc block)
          (block_offset count world (Suc block)) ?l"
    by (subst layout_loop.simps) (simp add: lt cnt off Let_def)
  also have "\<dots> = ?l\<lparr>counts := take (Suc block) (counts ?l) @ map (block_count count world) [Suc block..<world],
      offsets := take (Suc block) (offsets ?l) @ map (block_offset count world) [Suc block..<world]\<rparr>"
    by (rule Suc.hyps(1)) (use Suc lt in simp_all)
  finally show ?case
    using lt Suc.prems by (simp add: take_Suc_conv_app_nth upt_conv_Cons)
qed

lemma compute_block_layout_eq:
  assumes "0 < world_size" and "count < size_modulus"
  shows "compute_block_layout count world_size layout =
    (PG_SUCCESS, layout\<lparr>counts := map (block_count count (nat world_size)) [0..<nat world_size],
                        offsets := map (block_offset count (nat world_size)) [0..<nat world_size]\<rparr>)"
proof -
  let ?l = "layout\<lparr>counts := replicate (nat world_size) 0, offsets := replicate (nat world_size) 0\<rparr>"
  have "layout_loop (nat world_size) (count div nat world_size) (count mod nat world_size) 0 0 ?l =
      ?l\<lparr>counts := map (block_count count (nat world_size)) [0..<nat world_size],
         offsets := map (block_offset count (nat world_size)) [0..<nat world_size]\<rparr>"
    using layout_loop_eq [of "nat world_size" count 0 ?l] assms
    by (simp add: block_offset_def)
  then show ?thesis
    using assms by (simp add: compute_block_layout_def Let_def)
qed

lemma compute_block_layout_nth:
  assumes "0 < world_size" and "count < size_modulus" and "b < nat world_size"
  shows "counts (snd (compute_block_layout count world_size layout)) ! b = block_count count (nat world_size) b"
    and "offsets (snd (compute_block_layout count world_size layout)) ! b = block_offset count (nat world_size) b"
  using assms by (simp_all add: compute_block_layout_eq)

section \<open>The block of an element\<close>

lemma block_range_unique:
  assumes "block_offset count world a \<le> e" and "e < block_offset count world a + block_count count world a"
    and "block_offset count world b \<le> e" and "e < block_offset count world b + block_count count world b"
  shows "a = b"
proof (rule ccontr)
  assume "a \<noteq> b"
  then consider "a < b" | "b < a" by linarith
  then show False
  proof cases
    case 1
    with block_start_next [OF 1, of "block_count count world"] assms show False
      by (simp add: block_offset_def)
  next
    case 2
    with block_start_next [OF 2, of "block_count count world"] assms show False
      by (simp add: block_offset_def)
  qed
qed

lemma block_covering:
  assumes "e < block_start (block_count count world) n"
  shows "\<exists>b<n. block_offset count world b \<le> e \<and> e < block_offset count world b + block_count count world b"
  using assms
proof (induction n)
  case (Suc n)
  show ?case
  proof (cases "e < block_start (block_count count world) n")
    case True
    with Suc.IH show ?thesis by (meson less_SucI)
  next
    case False
    with Suc.prems show ?thesis
      by (auto simp: block_offset_def intro!: exI [of _ n])
  qed
qed simp

section \<open>The blocks partition the elements\<close>

lemma sum_list_block_counts: "0 < world \<Longrightarrow> sum_list (map (block_count count world) [0..<world]) = count"
  using block_start_total [of world count] by (simp add: block_start_def interv_sum_list_conv_sum_set_nat atLeast0LessThan)

lemma block_of_element:
  assumes "0 < world" and "e < count"
  shows "\<exists>!b. b < world \<and> block_offset count world b \<le> e \<and> e < block_offset count world b + block_count count world b"
  using block_covering [of e count world world] block_range_unique [of count world _ e] assms
  by (metis block_start_total)

text \<open>
  C16. For a positive world size, \<open>compute_block_layout\<close> succeeds and splits the \<open>count\<close>
  elements into one contiguous block per rank: the blocks follow each other without gaps from
  element 0, their sizes sum to \<open>count\<close>, every element lies in exactly one of them, and two
  sizes differ by at most one, the larger blocks first. A world size that is not positive is
  refused and leaves the layout alone.
\<close>

theorem layout_partition:
  assumes "count < size_modulus"
  shows "world \<le> 0 \<and> compute_block_layout count world old = (PG_ERR_INVALID_ARGUMENT, old) \<or>
    0 < world \<and>
    (case compute_block_layout count world old of (code, l) \<Rightarrow>
       code = PG_SUCCESS \<and> length (counts l) = nat world \<and> length (offsets l) = nat world \<and>
       offsets l ! 0 = 0 \<and> sum_list (counts l) = count \<and>
       (\<forall>b. Suc b < nat world \<longrightarrow> offsets l ! Suc b = offsets l ! b + counts l ! b) \<and>
       (\<forall>b c. b \<le> c \<and> c < nat world \<longrightarrow> counts l ! c \<le> counts l ! b \<and> counts l ! b \<le> counts l ! c + 1) \<and>
       (\<forall>e<count. \<exists>!b. b < nat world \<and> offsets l ! b \<le> e \<and> e < offsets l ! b + counts l ! b))"
proof (cases "0 < world")
  case True
  then have w: "0 < nat world" by simp
  have "\<exists>!b. b < nat world \<and> map (block_offset count (nat world)) [0..<nat world] ! b \<le> e \<and>
      e < map (block_offset count (nat world)) [0..<nat world] ! b +
          map (block_count count (nat world)) [0..<nat world] ! b" if "e < count" for e
    using block_of_element [OF w that] by (simp cong: conj_cong)
  moreover have "offsets (snd (compute_block_layout count world old)) ! 0 = 0"
    using True w by (simp add: compute_block_layout_eq [OF True assms] block_offset_def)
  ultimately show ?thesis
    using True w assms
    by (simp add: compute_block_layout_eq sum_list_block_counts block_offset_def) (simp add: block_count_def)
qed (simp add: compute_block_layout_def)

theorem layout_partition_witness:
  "case compute_block_layout 7 3 \<lparr>counts = [9], offsets = []\<rparr> of (code, l) \<Rightarrow>
     code = PG_SUCCESS \<and> counts l = [3, 2, 2] \<and> offsets l = [0, 3, 5] \<and> sum_list (counts l) = 7"
proof -
  have c: "compute_block_layout 7 3 \<lparr>counts = [9], offsets = []\<rparr> = (0, \<lparr>counts = [3, 2, 2], offsets = [0, 3, 5]\<rparr>)"
    by (simp add: compute_block_layout_eq size_modulus_def upt_rec block_count_def block_offset_closed)
  have "(7 :: nat) < size_modulus" by (simp add: size_modulus_def)
  from layout_partition [OF this, of 3 "\<lparr>counts = [9], offsets = []\<rparr>"] show ?thesis
    by (simp add: c)
qed

end
