(* ===== verification/Ring_Collectives.thy ===== *)
theory Ring_Collectives
  imports Transport_Api Block_Layout "HOL-Library.Signed_Division"
begin

unbundle bit_operations_syntax

text \<open>
  \<open>src/ring_collectives.cpp\<close>: ring Reduce-Scatter, All-Gather and All-Reduce over the
  transport interface, with pipelined pieces and bounded batches. Every loop of the source
  is a recursive function here, every early \<open>return status\<close> an \<open>Inl status\<close>.
\<close>

section \<open>Constants and helpers\<close>

definition kDefaultPieceBytes :: nat where "kDefaultPieceBytes = 64 * 1024"
definition kDefaultMaxInflight :: nat where "kDefaultMaxInflight = 4"
definition kMaxInflightLimit :: nat where "kMaxInflightLimit = 1024"

definition kPieceBits :: nat where "kPieceBits = 12"
definition kStepBits :: nat where "kStepBits = 7"
definition kPhaseBits :: nat where "kPhaseBits = 1"
definition kSequenceBits :: nat where "kSequenceBits = 12"

definition kPieceMask :: "32 word" where "kPieceMask = push_bit kPieceBits 1 - 1"
definition kStepMask :: "32 word" where "kStepMask = push_bit kStepBits 1 - 1"
definition kSequenceMask :: "32 word" where "kSequenceMask = push_bit kSequenceBits 1 - 1"

definition kStepShift :: nat where "kStepShift = kPieceBits"
definition kPhaseShift :: nat where "kPhaseShift = kPieceBits + kStepBits"
definition kSequenceShift :: nat where "kSequenceShift = kPieceBits + kStepBits + kPhaseBits"

lemmas tag_constants =
  kPieceBits_def kStepBits_def kPhaseBits_def kSequenceBits_def kPieceMask_def kStepMask_def
  kSequenceMask_def kStepShift_def kPhaseShift_def kSequenceShift_def

datatype CollectivePhase = ReduceScatter | AllGather

fun phase_value :: "CollectivePhase \<Rightarrow> 32 word" where
  "phase_value ReduceScatter = 0"
| "phase_value AllGather = 1"

definition positive_mod :: "int \<Rightarrow> int \<Rightarrow> int" where
  "positive_mod value modulus =
     (let result = value smod modulus in if result < 0 then result + modulus else result)"

definition make_tag :: "32 word \<Rightarrow> CollectivePhase \<Rightarrow> int \<Rightarrow> nat \<Rightarrow> int + pg_tag" where
  "make_tag sequence phase step piece =
     (if step < 0 \<or> word_of_int step > kStepMask \<or> piece > unat kPieceMask then
        Inl PG_ERR_TAG_RANGE
      else
        Inr (push_bit kSequenceShift (sequence AND kSequenceMask) OR
             push_bit kPhaseShift (phase_value phase AND 1) OR
             push_bit kStepShift (word_of_int step AND kStepMask) OR
             (word_of_nat piece AND kPieceMask)))"

record ring_collective_config =
  pipeline_piece_bytes :: nat
  max_inflight :: nat
  transfer_mode :: pg_transfer_mode

definition piece_elements_for :: "ring_collective_config \<Rightarrow> nat \<Rightarrow> nat" where
  "piece_elements_for config element_size =
     (let requested_bytes =
        (if pipeline_piece_bytes config = 0 then kDefaultPieceBytes else pipeline_piece_bytes config)
      in max 1 (requested_bytes div element_size))"

definition piece_count_for :: "nat \<Rightarrow> nat \<Rightarrow> nat" where
  "piece_count_for element_count piece_elements =
     (if element_count = 0 then 0
      else size_sub (size_add element_count piece_elements) 1 div piece_elements)"

record PostedRequest =
  request :: pg_request
  piece_index :: nat
  element_offset :: nat
  element_count :: nat

text \<open>
  The context of one rank. \<open>transport\<close> is the address of the borrowed transport,
  \<open>temporary_buffer\<close> the memory block the vector's bytes are in.
\<close>

record ring_collective_context =
  transport :: nat
  config :: ring_collective_config
  rank :: int
  world_size :: int
  layout :: BlockLayout
  temporary_buffer :: nat
  sequence :: "32 word"

section \<open>Creating a context\<close>

text \<open>
  The heap objects of the process group layer: what \<open>new (std::nothrow)\<close> answers for a
  context or a handle (None when it fails) and what \<open>delete\<close> does. A context is known by the
  memory block of its vector.
\<close>

record 'w heap =
  new_context :: "'w \<Rightarrow> 'w \<times> nat option"
  delete_context :: "nat \<Rightarrow> 'w \<Rightarrow> 'w"
  new_handle :: "'w \<Rightarrow> 'w \<times> nat option"
  delete_handle :: "nat \<Rightarrow> 'w \<Rightarrow> 'w"

text \<open>
  A transport argument is a null pointer or an address with the object there;
  \<open>context_null\<close> tells whether the result pointer is null.
\<close>

definition ring_collective_create :: "'w heap \<Rightarrow> (nat \<times> 'w pg_transport) option \<Rightarrow>
    ring_collective_config option \<Rightarrow> bool \<Rightarrow> 'w \<Rightarrow>
    'w \<times> int \<times> ring_collective_context option" where
  "ring_collective_create heap transport_arg config_arg context_null w =
     (case transport_arg of
        None \<Rightarrow> (w, PG_ERR_INVALID_ARGUMENT, None)
      | Some (address, tr) \<Rightarrow>
          if operations tr = None \<or> context_null then (w, PG_ERR_INVALID_ARGUMENT, None)
          else
            let r = pg_transport_rank tr w; n = pg_transport_size tr w in
            if r < 0 \<or> n \<le> 0 \<or> r \<ge> n then (w, PG_ERR_TRANSPORT, None)
            else
              (case new_context heap w of
                 (w', None) \<Rightarrow> (w', PG_ERR_NO_MEMORY, None)
               | (w', Some block) \<Rightarrow>
                   (w', PG_SUCCESS,
                    Some \<lparr>transport = address,
                      config = \<lparr>pipeline_piece_bytes =
                          (case config_arg of
                             None \<Rightarrow> kDefaultPieceBytes
                           | Some c \<Rightarrow> if pipeline_piece_bytes c = 0 then kDefaultPieceBytes
                                       else pipeline_piece_bytes c),
                        max_inflight =
                          (case config_arg of
                             None \<Rightarrow> kDefaultMaxInflight
                           | Some c \<Rightarrow> if max_inflight c = 0 then kDefaultMaxInflight
                                       else min (max_inflight c) kMaxInflightLimit),
                        transfer_mode =
                          (case config_arg of None \<Rightarrow> PG_TRANSFER_AUTO | Some c \<Rightarrow> transfer_mode c)\<rparr>,
                      rank = r, world_size = n, layout = \<lparr>counts = [], offsets = []\<rparr>,
                      temporary_buffer = block, sequence = 0\<rparr>)))"

definition ring_collective_destroy :: "'w heap \<Rightarrow> ring_collective_context option \<Rightarrow> 'w \<Rightarrow> 'w" where
  "ring_collective_destroy heap context_arg w =
     (case context_arg of None \<Rightarrow> w | Some ctx \<Rightarrow> delete_context heap (temporary_buffer ctx) w)"

section \<open>Loops shared by the two phases\<close>

text \<open>\<open>for (piece = begin; piece < end; ++piece)\<close> around a post that is pushed to a vector.\<close>

function for_pieces :: "(nat \<Rightarrow> (int + PostedRequest) prog) \<Rightarrow> nat \<Rightarrow> nat \<Rightarrow> PostedRequest list \<Rightarrow>
    (int + PostedRequest list) prog" where
  "for_pieces post piece end_piece requests =
     (if piece < end_piece then
        bindE (post piece) (\<lambda>posted. for_pieces post (Suc piece) end_piece (requests @ [posted]))
      else Ret (Inr requests))"
  by pat_completeness auto
termination
  by (relation "measure (\<lambda>(post, piece, e, rs). e - piece)") auto

declare for_pieces.simps [simp del]

text \<open>\<open>for (posted : requests)\<close> around a wait.\<close>

fun wait_requests :: "PostedRequest list \<Rightarrow> (int + unit) prog" where
  "wait_requests [] = Ret (Inr ())"
| "wait_requests (posted # rest) =
     bind (pg_transport_wait (request posted))
       (\<lambda>r. if fst r \<noteq> 0 then Ret (Inl PG_ERR_TRANSPORT) else wait_requests rest)"

text \<open>
  Posting one piece of \<open>bytes\<close> bytes with a given tag; the request starts zero-initialised
  and the returned status becomes \<open>PG_ERR_TRANSPORT\<close>.
\<close>

definition record_posted :: "nat \<Rightarrow> nat \<Rightarrow> nat \<Rightarrow> resp prog \<Rightarrow> (int + PostedRequest) prog" where
  "record_posted piece offset elements post =
     bind post (\<lambda>r.
       if fst r \<noteq> 0 then Ret (Inl PG_ERR_TRANSPORT)
       else Ret (Inr \<lparr>request = snd r, piece_index = piece, element_offset = offset,
                      element_count = elements\<rparr>))"

section \<open>Reduce-Scatter\<close>

definition rs_post_recv :: "ring_collective_context \<Rightarrow> nat \<Rightarrow> nat \<Rightarrow> nat \<Rightarrow> int \<Rightarrow> nat \<Rightarrow>
    (int + PostedRequest) prog" where
  "rs_post_recv ctx element_size piece_elements recv_count step piece =
     (let offset = size_mul piece piece_elements;
          elements = min piece_elements (size_sub recv_count offset);
          n = size_mul elements element_size
      in case make_tag (sequence ctx) ReduceScatter step piece of
           Inl status \<Rightarrow> Ret (Inl status)
         | Inr tag \<Rightarrow>
             record_posted piece offset elements
               (pg_transport_post_recv_prev
                  (byte_offset (Ptr (temporary_buffer ctx) 0) (size_mul offset element_size))
                  n tag (transfer_mode (config ctx)) null_request))"

definition rs_post_send :: "ring_collective_context \<Rightarrow> pointer \<Rightarrow> nat \<Rightarrow> nat \<Rightarrow> int \<Rightarrow> nat \<Rightarrow> int \<Rightarrow> nat \<Rightarrow>
    (int + PostedRequest) prog" where
  "rs_post_send ctx workbuf element_size piece_elements send_block send_count step piece =
     (let offset = size_mul piece piece_elements;
          elements = min piece_elements (size_sub send_count offset);
          n = size_mul elements element_size
      in case make_tag (sequence ctx) ReduceScatter step piece of
           Inl status \<Rightarrow> Ret (Inl status)
         | Inr tag \<Rightarrow>
             (let block_element_offset = size_add (offsets (layout ctx) ! nat send_block) offset in
              record_posted piece offset elements
                (pg_transport_post_send_next
                   (byte_offset workbuf (size_mul block_element_offset element_size))
                   n tag (transfer_mode (config ctx)) null_request)))"

text \<open>Wait for each receive and reduce it at once into the work buffer.\<close>

fun rs_wait_recvs :: "ring_collective_context \<Rightarrow> pointer \<Rightarrow> nat \<Rightarrow> int \<Rightarrow> DATATYPE \<Rightarrow> OPERATION \<Rightarrow>
    PostedRequest list \<Rightarrow> (int + unit) prog" where
  "rs_wait_recvs ctx workbuf element_size recv_block datatype operation [] = Ret (Inr ())"
| "rs_wait_recvs ctx workbuf element_size recv_block datatype operation (posted # rest) =
     bind (pg_transport_wait (request posted)) (\<lambda>r.
       if fst r \<noteq> 0 then Ret (Inl PG_ERR_TRANSPORT)
       else
         let destination_element_offset =
           size_add (offsets (layout ctx) ! nat recv_block) (element_offset posted)
         in bind (call_reduce_in_place
                (byte_offset workbuf (size_mul destination_element_offset element_size))
                (byte_offset (Ptr (temporary_buffer ctx) 0) (size_mul (element_offset posted) element_size))
                (element_count posted) datatype operation) (\<lambda>status.
              if status \<noteq> PG_SUCCESS then Ret (Inl status)
              else rs_wait_recvs ctx workbuf element_size recv_block datatype operation rest))"

definition rs_batch :: "ring_collective_context \<Rightarrow> pointer \<Rightarrow> nat \<Rightarrow> nat \<Rightarrow> DATATYPE \<Rightarrow> OPERATION \<Rightarrow>
    int \<Rightarrow> int \<Rightarrow> int \<Rightarrow> nat \<Rightarrow> (int + unit) prog" where
  "rs_batch ctx workbuf element_size piece_elements datatype operation step send_block recv_block batch =
     (let batch_capacity = max_inflight (config ctx);
          send_count = counts (layout ctx) ! nat send_block;
          recv_count = counts (layout ctx) ! nat recv_block;
          send_pieces = piece_count_for send_count piece_elements;
          recv_pieces = piece_count_for recv_count piece_elements;
          begin_piece = size_mul batch batch_capacity;
          end_piece = size_add begin_piece batch_capacity
      in bindE (for_pieces (rs_post_recv ctx element_size piece_elements recv_count step)
                  begin_piece (min end_piece recv_pieces) []) (\<lambda>recv_requests.
         bindE (for_pieces (rs_post_send ctx workbuf element_size piece_elements send_block send_count step)
                  begin_piece (min end_piece send_pieces) []) (\<lambda>send_requests.
         bindE (rs_wait_recvs ctx workbuf element_size recv_block datatype operation recv_requests) (\<lambda>_.
         wait_requests send_requests))))"

text \<open>\<open>for (batch = 0; batch < total_batches; ++batch)\<close>.\<close>

function for_batches :: "(nat \<Rightarrow> (int + unit) prog) \<Rightarrow> nat \<Rightarrow> nat \<Rightarrow> (int + unit) prog" where
  "for_batches body batch total_batches =
     (if batch < total_batches then
        bindE (body batch) (\<lambda>_. for_batches body (Suc batch) total_batches)
      else Ret (Inr ()))"
  by pat_completeness auto
termination
  by (relation "measure (\<lambda>(body, batch, total). total - batch)") auto

declare for_batches.simps [simp del]

definition total_batches_for :: "nat \<Rightarrow> nat \<Rightarrow> nat \<Rightarrow> nat" where
  "total_batches_for send_pieces recv_pieces batch_capacity =
     size_sub (size_add (max send_pieces recv_pieces) batch_capacity) 1 div batch_capacity"

definition rs_step :: "ring_collective_context \<Rightarrow> pointer \<Rightarrow> nat \<Rightarrow> nat \<Rightarrow> DATATYPE \<Rightarrow> OPERATION \<Rightarrow> int \<Rightarrow>
    (int + unit) prog" where
  "rs_step ctx workbuf element_size piece_elements datatype operation step =
     (let send_block = positive_mod (rank ctx - step) (world_size ctx);
          recv_block = positive_mod (rank ctx - step - 1) (world_size ctx);
          send_count = counts (layout ctx) ! nat send_block;
          recv_count = counts (layout ctx) ! nat recv_block;
          send_pieces = piece_count_for send_count piece_elements;
          recv_pieces = piece_count_for recv_count piece_elements
      in for_batches
           (rs_batch ctx workbuf element_size piece_elements datatype operation step send_block recv_block)
           0 (total_batches_for send_pieces recv_pieces (max_inflight (config ctx))))"

text \<open>\<open>for (step = 0; step < world_size - 1; ++step)\<close>.\<close>

function for_steps :: "(int \<Rightarrow> (int + unit) prog) \<Rightarrow> int \<Rightarrow> int \<Rightarrow> (int + unit) prog" where
  "for_steps body step limit =
     (if step < limit then bindE (body step) (\<lambda>_. for_steps body (step + 1) limit)
      else Ret (Inr ()))"
  by pat_completeness auto
termination
  by (relation "measure (\<lambda>(body, step, limit). nat (limit - step))") auto

declare for_steps.simps [simp del]

text \<open>
  \<open>context\<close> is None for a null pointer; \<open>owned_block\<close> is None for a null pointer, else
  the value it points to. The answer holds both as the routine leaves them.
\<close>

definition ring_reduce_scatter_inplace :: "ring_collective_context option \<Rightarrow> pointer \<Rightarrow> nat \<Rightarrow>
    DATATYPE \<Rightarrow> OPERATION \<Rightarrow> int option \<Rightarrow>
    (int \<times> ring_collective_context option \<times> int option) prog" where
  "ring_reduce_scatter_inplace context_arg workbuf count datatype operation owned_block =
     (case context_arg of
        None \<Rightarrow> Ret (PG_ERR_INVALID_ARGUMENT, None, owned_block)
      | Some ctx \<Rightarrow>
          if workbuf = NullPtr \<or> owned_block = None then
            Ret (PG_ERR_INVALID_ARGUMENT, Some ctx, owned_block)
          else
            let element_size = datatype_size datatype in
            if element_size = 0 then Ret (PG_ERR_UNSUPPORTED_DATATYPE, Some ctx, owned_block)
            else
              (case compute_block_layout count (world_size ctx) (layout ctx) of
                 (status, new_layout) \<Rightarrow>
                   let ctx' = ctx\<lparr>layout := new_layout\<rparr> in
                   if status \<noteq> PG_SUCCESS then Ret (status, Some ctx', owned_block)
                   else
                     let max_block_count = fold max (counts new_layout) 0;
                         piece_elements = piece_elements_for (config ctx') element_size
                     in bind (call_resize (temporary_buffer ctx') (size_mul max_block_count element_size)) (\<lambda>_.
                        bind (for_steps (rs_step ctx' workbuf element_size piece_elements datatype operation)
                                0 (world_size ctx' - 1)) (\<lambda>r.
                        case r of
                          Inl status \<Rightarrow> Ret (status, Some ctx', owned_block)
                        | Inr _ \<Rightarrow>
                            Ret (PG_SUCCESS, Some ctx', Some (positive_mod (rank ctx' + 1) (world_size ctx')))))))"

section \<open>All-Gather\<close>

definition ag_post_recv :: "ring_collective_context \<Rightarrow> pointer \<Rightarrow> nat \<Rightarrow> nat \<Rightarrow> int \<Rightarrow> nat \<Rightarrow> int \<Rightarrow> nat \<Rightarrow>
    (int + PostedRequest) prog" where
  "ag_post_recv ctx workbuf element_size piece_elements recv_block recv_count step piece =
     (let offset = size_mul piece piece_elements;
          elements = min piece_elements (size_sub recv_count offset);
          n = size_mul elements element_size;
          block_element_offset = size_add (offsets (layout ctx) ! nat recv_block) offset
      in case make_tag (sequence ctx) AllGather step piece of
           Inl status \<Rightarrow> Ret (Inl status)
         | Inr tag \<Rightarrow>
             record_posted piece offset elements
               (pg_transport_post_recv_prev
                  (byte_offset workbuf (size_mul block_element_offset element_size))
                  n tag (transfer_mode (config ctx)) null_request))"

definition ag_post_send :: "ring_collective_context \<Rightarrow> pointer \<Rightarrow> nat \<Rightarrow> nat \<Rightarrow> int \<Rightarrow> nat \<Rightarrow> int \<Rightarrow> nat \<Rightarrow>
    (int + PostedRequest) prog" where
  "ag_post_send ctx workbuf element_size piece_elements send_block send_count step piece =
     (let offset = size_mul piece piece_elements;
          elements = min piece_elements (size_sub send_count offset);
          n = size_mul elements element_size;
          block_element_offset = size_add (offsets (layout ctx) ! nat send_block) offset
      in case make_tag (sequence ctx) AllGather step piece of
           Inl status \<Rightarrow> Ret (Inl status)
         | Inr tag \<Rightarrow>
             record_posted piece offset elements
               (pg_transport_post_send_next
                  (byte_offset workbuf (size_mul block_element_offset element_size))
                  n tag (transfer_mode (config ctx)) null_request))"

definition ag_batch :: "ring_collective_context \<Rightarrow> pointer \<Rightarrow> nat \<Rightarrow> nat \<Rightarrow> int \<Rightarrow> int \<Rightarrow> int \<Rightarrow> nat \<Rightarrow>
    (int + unit) prog" where
  "ag_batch ctx workbuf element_size piece_elements step send_block recv_block batch =
     (let batch_capacity = max_inflight (config ctx);
          send_count = counts (layout ctx) ! nat send_block;
          recv_count = counts (layout ctx) ! nat recv_block;
          send_pieces = piece_count_for send_count piece_elements;
          recv_pieces = piece_count_for recv_count piece_elements;
          begin_piece = size_mul batch batch_capacity;
          end_piece = size_add begin_piece batch_capacity
      in bindE (for_pieces (ag_post_recv ctx workbuf element_size piece_elements recv_block recv_count step)
                  begin_piece (min end_piece recv_pieces) []) (\<lambda>recv_requests.
         bindE (for_pieces (ag_post_send ctx workbuf element_size piece_elements send_block send_count step)
                  begin_piece (min end_piece send_pieces) []) (\<lambda>send_requests.
         bindE (wait_requests recv_requests) (\<lambda>_.
         wait_requests send_requests))))"

definition ag_step :: "ring_collective_context \<Rightarrow> pointer \<Rightarrow> nat \<Rightarrow> nat \<Rightarrow> int \<Rightarrow> (int + unit) prog" where
  "ag_step ctx workbuf element_size piece_elements step =
     (let send_block = positive_mod (rank ctx - step + 1) (world_size ctx);
          recv_block = positive_mod (rank ctx - step) (world_size ctx);
          send_count = counts (layout ctx) ! nat send_block;
          recv_count = counts (layout ctx) ! nat recv_block;
          send_pieces = piece_count_for send_count piece_elements;
          recv_pieces = piece_count_for recv_count piece_elements
      in for_batches
           (ag_batch ctx workbuf element_size piece_elements step send_block recv_block)
           0 (total_batches_for send_pieces recv_pieces (max_inflight (config ctx))))"

definition ring_all_gather_inplace :: "ring_collective_context option \<Rightarrow> pointer \<Rightarrow> nat \<Rightarrow>
    DATATYPE \<Rightarrow> int \<Rightarrow> (int \<times> ring_collective_context option) prog" where
  "ring_all_gather_inplace context_arg workbuf count datatype owned_block =
     (case context_arg of
        None \<Rightarrow> Ret (PG_ERR_INVALID_ARGUMENT, None)
      | Some ctx \<Rightarrow>
          if workbuf = NullPtr \<or> owned_block < 0 \<or> owned_block \<ge> world_size ctx then
            Ret (PG_ERR_INVALID_ARGUMENT, Some ctx)
          else
            let expected_owned_block = positive_mod (rank ctx + 1) (world_size ctx) in
            if owned_block \<noteq> expected_owned_block then Ret (PG_ERR_INVALID_ARGUMENT, Some ctx)
            else
              let element_size = datatype_size datatype in
              if element_size = 0 then Ret (PG_ERR_UNSUPPORTED_DATATYPE, Some ctx)
              else
                (case compute_block_layout count (world_size ctx) (layout ctx) of
                   (status, new_layout) \<Rightarrow>
                     let ctx' = ctx\<lparr>layout := new_layout\<rparr> in
                     if status \<noteq> PG_SUCCESS then Ret (status, Some ctx')
                     else
                       let piece_elements = piece_elements_for (config ctx') element_size in
                       bind (for_steps (ag_step ctx' workbuf element_size piece_elements)
                               0 (world_size ctx' - 1)) (\<lambda>r.
                       case r of
                         Inl status \<Rightarrow> Ret (status, Some ctx')
                       | Inr _ \<Rightarrow> Ret (PG_SUCCESS, Some ctx'))))"

section \<open>All-Reduce\<close>

definition ring_all_reduce :: "ring_collective_context option \<Rightarrow> pointer \<Rightarrow> pointer \<Rightarrow> nat \<Rightarrow>
    DATATYPE \<Rightarrow> OPERATION \<Rightarrow> (int \<times> ring_collective_context option) prog" where
  "ring_all_reduce context_arg sendbuf recvbuf count datatype operation =
     (if context_arg = None \<or> sendbuf = NullPtr \<or> recvbuf = NullPtr \<or> count = 0 then
        Ret (PG_ERR_INVALID_ARGUMENT, context_arg)
      else
        let element_size = datatype_size datatype in
        if element_size = 0 then Ret (PG_ERR_UNSUPPORTED_DATATYPE, context_arg)
        else
          bind (if sendbuf \<noteq> recvbuf then call_memcpy recvbuf sendbuf (size_mul count element_size)
                else Ret ()) (\<lambda>_.
          bind (ring_reduce_scatter_inplace context_arg recvbuf count datatype operation (Some (-1)))
            (\<lambda>(status, ctx, owned_block).
               if status \<noteq> PG_SUCCESS then Ret (status, ctx)
               else
                 bind (ring_all_gather_inplace ctx recvbuf count datatype (the owned_block))
                   (\<lambda>(status, ctx).
                      if status = PG_SUCCESS
                      then Ret (status, map_option (\<lambda>c. c\<lparr>sequence := sequence c + 1\<rparr>) ctx)
                      else Ret (status, ctx)))))"

end
