(* ===== verification/Ring_Arith.thy ===== *)
theory Ring_Arith
  imports Ring_Collectives Ring_System
begin

text \<open>
  The arithmetic of \<open>src/ring_collectives.cpp\<close>: \<open>positive_mod\<close> is the mathematical
  remainder, the fields of a tag can be read back from it, and the piece and batch counts
  are the exact ceilings because none of the \<open>size_t\<close> operations wraps.
\<close>

section \<open>Ring positions\<close>

lemma positive_mod_eq: "0 < m \<Longrightarrow> positive_mod v m = v mod m"
proof -
  assume m: "0 < m"
  have s: "v smod m = sgn v * (\<bar>v\<bar> mod m)"
    using m by (simp add: signed_modulo_int_def signed_divide_int_def sgn_mult abs_mult algebra_simps
        minus_div_mult_eq_mod sgn_if)
  consider "0 \<le> v" | "v < 0" by linarith
  then show "positive_mod v m = v mod m"
  proof cases
    case 1
    with s m show ?thesis
      by (cases "v = 0") (simp_all add: positive_mod_def Let_def not_less)
  next
    case 2
    with s have "v smod m = - (- v mod m)" by simp
    moreover have "- (- v mod m) = (if v mod m = 0 then 0 else v mod m - m)"
      using m by (simp add: zmod_zminus1_eq_if)
    ultimately show ?thesis
      using m pos_mod_bound [OF m, of v] pos_mod_sign [OF m, of v]
      by (auto simp: positive_mod_def Let_def)
  qed
qed

text \<open>The block \<open>d\<close> places before \<open>r\<close> on the ring.\<close>

definition ring_back :: "nat \<Rightarrow> nat \<Rightarrow> nat \<Rightarrow> nat" where
  "ring_back P r d = (r + P - d) mod P"

lemma ring_back_less [simp]: "0 < P \<Longrightarrow> ring_back P r d < P"
  by (simp add: ring_back_def)

lemma positive_mod_back:
  assumes "d \<le> P" and "0 < P"
  shows "positive_mod (int r - int d) (int P) = int (ring_back P r d)"
proof -
  have "int ((r + P - d) mod P) = (int r + int P - int d) mod int P"
    using assms by (simp add: zmod_int of_nat_diff)
  also have "\<dots> = (int r - int d) mod int P"
    by (metis add_diff_eq diff_add_eq mod_add_self2)
  finally show ?thesis
    using assms by (simp add: positive_mod_eq ring_back_def)
qed

text \<open>How far block \<open>b\<close> is behind rank \<open>r\<close>: the inverse of \<open>ring_back\<close>.\<close>

lemma ring_back_back:
  assumes "r < P" and "b < P"
  shows "ring_back P r (ring_back P r b) = b"
proof -
  have "ring_back P r b = (if b \<le> r then r - b else r + P - b)"
    using assms by (auto simp: ring_back_def mod_if)
  with assms show ?thesis
    by (auto simp: ring_back_def mod_if)
qed

lemma ring_back_eq_iff:
  assumes "r < P" and "b < P" and "d < P"
  shows "ring_back P r d = b \<longleftrightarrow> ring_back P r b = d"
  using assms ring_back_back by metis

lemma ring_back_Suc:
  assumes "r < P" and "Suc d < P"
  shows "ring_back P r (Suc d) = ring_back P (prev_rank P r) d"
  using assms by (auto simp: ring_back_def prev_rank_def mod_if)

lemma ring_back_0 [simp]: "r < P \<Longrightarrow> ring_back P r 0 = r"
  by (simp add: ring_back_def)

lemma ring_back_next:
  assumes "r < P" and "d < P"
  shows "ring_back P (next_rank P r) (Suc d) = ring_back P r d"
  using assms by (auto simp: ring_back_def next_rank_def mod_if)

section \<open>Tags\<close>

definition tag_word :: "32 word \<Rightarrow> CollectivePhase \<Rightarrow> nat \<Rightarrow> nat \<Rightarrow> pg_tag" where
  "tag_word sq phase step piece =
     push_bit 20 (take_bit 12 sq) OR push_bit 19 (phase_value phase) OR
     push_bit 12 (take_bit 7 (word_of_nat step)) OR take_bit 12 (word_of_nat piece)"

lemma tag_masks:
  "kPieceMask = mask 12" "kStepMask = mask 7" "kSequenceMask = mask 12"
  by (simp_all add: tag_constants mask_eq_exp_minus_1)

lemma make_tag_eq:
  assumes "s < 128" and "j < 4096"
  shows "make_tag sq phase (int s) j = Inr (tag_word sq phase s j)"
proof -
  have "\<not> word_of_int (int s) > kStepMask" "\<not> j > unat kPieceMask"
    using assms by (simp_all add: tag_masks mask_eq_exp_minus_1 word_less_nat_alt unat_of_nat)
  moreover have "phase_value phase AND 1 = phase_value phase"
    by (cases phase) simp_all
  ultimately show ?thesis
    by (simp add: make_tag_def tag_word_def) (simp add: tag_masks take_bit_eq_mask tag_constants)
qed

lemma bit_phase: "bit (phase_value phase) n = (n = 0 \<and> phase = AllGather)"
  by (cases phase) (auto simp: bit_1_iff)

lemma tag_word_fields:
  "take_bit 12 (tag_word sq phase s j) = take_bit 12 (word_of_nat j)"
  "take_bit 7 (drop_bit 12 (tag_word sq phase s j)) = take_bit 7 (word_of_nat s)"
  "bit (tag_word sq phase s j) 19 = (phase = AllGather)"
  "drop_bit 20 (tag_word sq phase s j) = take_bit 12 sq"
  by ((rule bit_eqI)?; auto simp: tag_word_def bit_simps bit_phase)+

lemma field_inj:
  assumes "take_bit n (word_of_nat a :: 32 word) = take_bit n (word_of_nat b)"
    and "a < 2 ^ n" and "b < 2 ^ n" and "n \<le> 32"
  shows "a = b"
proof -
  have *: "unat (take_bit n (word_of_nat c :: 32 word)) = c" if "c < 2 ^ n" for c
  proof -
    have "c < 2 ^ 32"
      using that assms(4) power_increasing [of n 32 "2::nat"] by linarith
    then have "unat (word_of_nat c :: 32 word) = c"
      by (simp add: unat_of_nat)
    moreover have "unat (take_bit n w) = take_bit n (unat w)" for w :: "32 word"
      by (rule unsigned_take_bit_eq)
    ultimately show ?thesis
      using that by (simp only: take_bit_nat_eq_self)
  qed
  show ?thesis
    using * [OF assms(2)] * [OF assms(3)] unfolding assms(1) by (rule trans [OF sym])
qed

text \<open>
  Within one collective, tags of different messages differ; across collectives they differ
  unless the sequence numbers agree in their low 12 bits.
\<close>

lemma tag_word_inj:
  assumes eq: "tag_word sq phase s j = tag_word sq' phase' s' j'"
    and "s < 128" "s' < 128" "j < 4096" "j' < 4096"
  shows "phase = phase' \<and> s = s' \<and> j = j' \<and> take_bit 12 sq = take_bit 12 sq'"
proof -
  have "j = j'"
    by (rule field_inj [of 12]) (use tag_word_fields(1) [of sq phase s j] tag_word_fields(1) [of sq' phase' s' j'] assms in simp_all)
  moreover have "s = s'"
    by (rule field_inj [of 7]) (use tag_word_fields(2) [of sq phase s j] tag_word_fields(2) [of sq' phase' s' j'] assms in simp_all)
  moreover have "(phase = AllGather) = (phase' = AllGather)" "take_bit 12 sq = take_bit 12 sq'"
    using tag_word_fields(3,4) eq by metis+
  ultimately show ?thesis
    by (cases phase; cases phase') simp_all
qed

section \<open>Pieces and batches\<close>

text \<open>
  A block of \<open>cnt\<close> elements in pieces of \<open>pe\<close>: \<open>pieces cnt pe\<close> of them, piece \<open>j\<close>
  from element \<open>j * pe\<close> on with \<open>piece_len cnt pe j\<close> elements. Batch \<open>b\<close> handles the
  pieces from \<open>batch_start cap np b\<close> up to \<open>batch_start cap np (Suc b)\<close>.
\<close>

definition pieces :: "nat \<Rightarrow> nat \<Rightarrow> nat" where
  "pieces cnt pe = (cnt + pe - 1) div pe"

definition piece_len :: "nat \<Rightarrow> nat \<Rightarrow> nat \<Rightarrow> nat" where
  "piece_len cnt pe j = min pe (cnt - j * pe)"

definition batch_start :: "nat \<Rightarrow> nat \<Rightarrow> nat \<Rightarrow> nat" where
  "batch_start cap np b = min (b * cap) np"

lemma less_ceiling: "0 < k \<Longrightarrow> j < (n + k - 1) div k \<longleftrightarrow> j * k < (n::nat)"
proof -
  assume k: "0 < k"
  have "j < (n + k - 1) div k \<longleftrightarrow> Suc j * k \<le> n + k - 1"
    using k by (simp add: less_eq_div_iff_mult_less_eq Suc_le_eq [symmetric] del: mult_Suc)
  with k show ?thesis by auto
qed

lemma pieces_less: "0 < pe \<Longrightarrow> j < pieces cnt pe \<longleftrightarrow> j * pe < cnt"
  unfolding pieces_def by (rule less_ceiling)

lemma pieces_mono: "cnt \<le> cnt' \<Longrightarrow> pieces cnt pe \<le> pieces cnt' pe"
  by (simp add: pieces_def div_le_mono)

lemma piece_len_pos: "0 < pe \<Longrightarrow> j < pieces cnt pe \<Longrightarrow> 0 < piece_len cnt pe j"
  by (simp add: piece_len_def pieces_less)

lemma piece_end_le: "0 < pe \<Longrightarrow> j < pieces cnt pe \<Longrightarrow> j * pe + piece_len cnt pe j \<le> cnt"
  by (simp add: piece_len_def pieces_less)

lemma pieces_apart:
  "0 < pe \<Longrightarrow> j < k \<Longrightarrow> j * pe + piece_len cnt pe j \<le> k * pe"
  using mult_le_mono1 [of "Suc j" k pe] by (simp add: piece_len_def)

text \<open>The elements before piece \<open>j\<close>, also past the last piece.\<close>

definition piece_start :: "nat \<Rightarrow> nat \<Rightarrow> nat \<Rightarrow> nat" where
  "piece_start cnt pe j = min (j * pe) cnt"

lemma piece_start_simps:
  "0 < pe \<Longrightarrow> piece_start cnt pe 0 = 0"
  "0 < pe \<Longrightarrow> j < pieces cnt pe \<Longrightarrow> piece_start cnt pe j = j * pe"
  "0 < pe \<Longrightarrow> j < pieces cnt pe \<Longrightarrow> piece_start cnt pe (Suc j) = j * pe + piece_len cnt pe j"
  "0 < pe \<Longrightarrow> piece_start cnt pe (pieces cnt pe) = cnt"
  using pieces_less [of pe "pieces cnt pe" cnt]
  by (auto simp: piece_start_def piece_len_def pieces_less)

lemma batch_start_simps:
  "batch_start cap np 0 = 0"
  "batch_start cap np b \<le> batch_start cap np (Suc b)"
  "batch_start cap np b \<le> np"
  by (auto simp: batch_start_def)

lemma batch_range: "[b * cap..<min (b * cap + cap) np] = [batch_start cap np b..<batch_start cap np (Suc b)]"
  by (cases "b * cap \<le> np") (simp_all add: batch_start_def min_def add.commute)

definition batches :: "nat \<Rightarrow> nat \<Rightarrow> nat" where
  "batches cap np = (np + cap - 1) div cap"

lemma batches_cover: "0 < cap \<Longrightarrow> batches cap np \<le> b \<Longrightarrow> batch_start cap np b = np"
  using less_ceiling [of cap b np] by (auto simp: batches_def batch_start_def min_def not_less)

lemma batch_count_le:
  "batch_start cap np (Suc b) - batch_start cap np b \<le> cap"
  by (auto simp: batch_start_def)

lemma piece_count_for_eq:
  assumes "0 < pe" and "cnt + pe < size_modulus"
  shows "piece_count_for cnt pe = pieces cnt pe"
proof -
  have "size_sub (size_add cnt pe) 1 = cnt + pe - 1"
    using assms by (simp add: size_exact)
  with assms show ?thesis
    by (simp add: piece_count_for_def pieces_def)
qed

lemma piece_elements_pos [simp]: "0 < piece_elements_for cfg sz"
  by (simp add: piece_elements_for_def Let_def)

text \<open>The sum in \<open>piece_count_for\<close> never wraps: both terms are byte counts divided by the size.\<close>

lemma piece_elements_exact:
  assumes "pipeline_piece_bytes cfg < size_modulus" and "4 \<le> sz" and "cnt * sz < size_modulus"
  shows "cnt + piece_elements_for cfg sz < size_modulus"
proof -
  have "cnt * 4 < size_modulus"
    using assms(3) mult_le_mono2 [OF assms(2), of cnt] by linarith
  moreover have "n div sz \<le> n div 4" for n
    using assms(2) by (simp add: div_le_mono2)
  from this [of "if pipeline_piece_bytes cfg = 0 then kDefaultPieceBytes else pipeline_piece_bytes cfg"]
  have "piece_elements_for cfg sz * 4 \<le> max 4 (if pipeline_piece_bytes cfg = 0 then kDefaultPieceBytes else pipeline_piece_bytes cfg)"
    by (auto simp: piece_elements_for_def Let_def)
  with assms(1) have "piece_elements_for cfg sz * 4 < size_modulus"
    by (auto simp: kDefaultPieceBytes_def size_modulus_def split: if_splits)
  ultimately show ?thesis by linarith
qed

lemma total_batches_eq:
  assumes "0 < cap" and "max sp rp + cap < size_modulus"
  shows "total_batches_for sp rp cap = batches cap (max sp rp)"
proof -
  have "size_sub (size_add (max sp rp) cap) 1 = max sp rp + cap - 1"
    using assms by (simp add: size_exact)
  then show ?thesis
    by (simp add: total_batches_for_def batches_def)
qed

section \<open>Properties of the helpers\<close>

text \<open>
  C17. A tag is made exactly when the step is one of 0..127 and the piece at most 4095 (for a
  step that is a 32-bit \<open>int\<close>); otherwise the answer is \<open>PG_ERR_TAG_RANGE\<close>.
\<close>

theorem make_tag_range:
  assumes "- (2 ^ 31) \<le> step" and "step < 2 ^ 31"
  shows "if 0 \<le> step \<and> step \<le> 127 \<and> piece \<le> 4095
    then \<exists>t. make_tag sq phase step piece = Inr t
    else make_tag sq phase step piece = Inl PG_ERR_TAG_RANGE"
proof -
  have "unat (word_of_int step :: 32 word) = nat step" if "0 \<le> step"
    using that assms by (simp add: unat_eq_nat_uint uint_word_of_int_eq take_bit_int_eq_self)
  then have "(word_of_int step :: 32 word) > kStepMask \<longleftrightarrow> step > 127" if "0 \<le> step"
    using that by (auto simp: word_less_nat_alt tag_masks mask_eq_exp_minus_1)
  then show ?thesis
    by (auto simp: make_tag_def tag_masks mask_eq_exp_minus_1)
qed

theorem make_tag_range_witness:
  "make_tag 3 AllGather 128 0 = Inl PG_ERR_TAG_RANGE \<and> make_tag 3 AllGather (-1) 0 = Inl PG_ERR_TAG_RANGE \<and>
   (\<exists>t. make_tag 3 AllGather 127 4095 = Inr t)"
  using make_tag_range [of 128 0 3 AllGather] make_tag_range [of "-1" 0 3 AllGather]
    make_tag_range [of 127 4095 3 AllGather] by simp

text \<open>
  C18. Equal tags come from the same phase, step and piece and from sequence numbers with the
  same low 12 bits: within one collective no two messages share a tag.
\<close>

theorem make_tag_injective:
  assumes "make_tag sq phase (int s) j = Inr t" and "make_tag sq' phase' (int s') j' = Inr t"
    and "s < 2 ^ 31" and "s' < 2 ^ 31"
  shows "phase = phase' \<and> s = s' \<and> j = j' \<and> take_bit 12 sq = take_bit 12 sq'"
proof -
  have r: "s < 128 \<and> j < 4096" if "make_tag sq phase (int s) j = Inr t" "s < 2 ^ 31" for sq phase s j t
  proof -
    have "unat (word_of_nat s :: 32 word) = s"
      using that(2) by (simp add: unat_of_nat)
    then show ?thesis
      using that(1) by (auto simp: make_tag_def tag_masks mask_eq_exp_minus_1 word_less_nat_alt split: if_splits)
  qed
  note r1 = r [OF assms(1,3)] and r2 = r [OF assms(2,4)]
  with assms(1,2) have "tag_word sq phase s j = tag_word sq' phase' s' j'"
    by (simp add: make_tag_eq)
  from tag_word_inj [OF this] r1 r2 show ?thesis by blast
qed

theorem make_tag_injective_witness:
  "make_tag 1 AllGather (int 5) 9 = Inr (2 ^ 20 + 2 ^ 19 + 5 * 2 ^ 12 + 9) \<and> take_bit 12 (1 :: 32 word) = take_bit 12 4097"
proof -
  have t: "make_tag sq AllGather (int 5) 9 = Inr (2 ^ 20 + 2 ^ 19 + 5 * 2 ^ 12 + 9)" if "sq = 1 \<or> sq = 4097" for sq
    using that by (auto simp: make_tag_def tag_constants)
  from make_tag_injective [OF t t, of 1 4097] t show ?thesis by simp
qed

text \<open>
  \<open>positive_mod\<close> is the mathematical remainder for every positive modulus, also of a
  negative value: a ring position.
\<close>

lemma positive_mod_remainder:
  assumes "0 < modulus"
  shows "0 \<le> positive_mod v modulus \<and> positive_mod v modulus < modulus \<and> (\<exists>q. v = q * modulus + positive_mod v modulus)"
  using assms mult_div_mod_eq [of modulus v] by (auto simp: positive_mod_eq intro!: exI [of _ "v div modulus"] simp: algebra_simps)

lemma positive_mod_minus_three: "positive_mod (-3) 4 = 1"
proof -
  obtain q where "0 \<le> positive_mod (-3) 4" "positive_mod (-3) 4 < 4" "-3 = q * 4 + positive_mod (-3) 4"
    using positive_mod_remainder [of 4 "-3"] by auto
  then show ?thesis by presburger
qed

lemma piece_len_sum: "0 < pe \<Longrightarrow> (\<Sum>j<n. piece_len cnt pe j) = min (n * pe) cnt"
  by (induction n) (auto simp: piece_len_def min_def algebra_simps)

lemma pieces_total: "0 < pe \<Longrightarrow> (\<Sum>j<pieces cnt pe. piece_len cnt pe j) = cnt"
  using pieces_less [of pe "pieces cnt pe" cnt] by (simp add: piece_len_sum min_def)

text \<open>
  C19. A block of \<open>cnt\<close> elements is cut into \<open>piece_count_for cnt pe\<close> pieces: none of them is
  empty or longer than \<open>pe\<close>, all but the last have \<open>pe\<close> elements, together they have \<open>cnt\<close>,
  and every element is in exactly one piece.
\<close>

theorem pieces_cover_block:
  assumes "0 < pe" and "cnt + pe < size_modulus"
  shows "(\<Sum>j<piece_count_for cnt pe. piece_len cnt pe j) = cnt \<and>
    (\<forall>j<piece_count_for cnt pe. 0 < piece_len cnt pe j \<and> piece_len cnt pe j \<le> pe \<and>
       (Suc j < piece_count_for cnt pe \<longrightarrow> piece_len cnt pe j = pe)) \<and>
    (\<forall>e<cnt. \<exists>!j. j < piece_count_for cnt pe \<and> j * pe \<le> e \<and> e < j * pe + piece_len cnt pe j)"
proof -
  have n: "piece_count_for cnt pe = pieces cnt pe"
    by (rule piece_count_for_eq [OF assms])
  have "\<exists>!j. j < pieces cnt pe \<and> j * pe \<le> e \<and> e < j * pe + piece_len cnt pe j" if "e < cnt" for e
  proof (rule ex1I [of _ "e div pe"])
    show "e div pe < pieces cnt pe \<and> e div pe * pe \<le> e \<and> e < e div pe * pe + piece_len cnt pe (e div pe)"
      using that assms(1) div_mult_mod_eq [of e pe] mod_less_divisor [OF assms(1), of e]
      unfolding pieces_less [OF assms(1)] piece_len_def min_def
      by (intro conjI; (split if_split)?; linarith)
    show "j = e div pe" if "j < pieces cnt pe \<and> j * pe \<le> e \<and> e < j * pe + piece_len cnt pe j" for j
      using that by (intro sym [OF div_nat_eqI]) (auto simp: piece_len_def mult.commute)
  qed
  moreover have "piece_len cnt pe j = pe" if "Suc j < pieces cnt pe" for j
    using that pieces_less [OF assms(1), of "Suc j" cnt] by (simp add: piece_len_def)
  ultimately show ?thesis
    using assms(1) pieces_total [OF assms(1), of cnt] by (auto simp: n pieces_less piece_len_def)
qed

theorem pieces_cover_block_witness:
  "piece_count_for 10 4 = 3 \<and> (\<Sum>j<3. piece_len 10 4 j) = 10"
proof -
  have n: "piece_count_for 10 4 = 3"
    by (simp add: piece_count_for_def size_add_def size_sub_def size_modulus_def)
  show ?thesis
    using pieces_cover_block [of 4 10] by (simp add: n size_modulus_def)
qed

end
