(* ===== verification/Ring_Exchange.thy ===== *)
theory Ring_Exchange
  imports Ring_Arith
begin

text \<open>
  What the loops of \<open>src/ring_collectives.cpp\<close> do on the contract endpoint: the loops in
  general, the posting of the receives and sends of one batch, and the waits that take the
  messages in the order of their pieces.
\<close>

section \<open>Loops\<close>

lemma for_pieces_run:
  assumes step: "\<And>j. i \<le> j \<Longrightarrow> j < e \<Longrightarrow> ep_run (post j) (S j) = Some (Inr (x j), S (Suc j), evs j)"
  shows "ep_run (for_pieces post i e acc) (S i) =
    Some (Inr (acc @ map x [i..<e]), S (max i e), concat (map evs [i..<e]))"
  using step
proof (induction "e - i" arbitrary: i acc)
  case 0
  then show ?case by (simp add: for_pieces.simps max_def)
next
  case (Suc k)
  then have i: "i < e" by simp
  have "ep_run (for_pieces post i e acc) (S i) =
      ep_run (bindE (post i) (\<lambda>posted. for_pieces post (Suc i) e (acc @ [posted]))) (S i)"
    using i by (simp add: for_pieces.simps)
  also have "\<dots> = Some (Inr (acc @ [x i] @ map x [Suc i..<e]), S (max (Suc i) e),
      evs i @ concat (map evs [Suc i..<e]))"
  proof (rule ep_run_bindE)
    show "ep_run (post i) (S i) = Some (Inr (x i), S (Suc i), evs i)"
      using Suc.prems i by simp
    show "ep_run (for_pieces post (Suc i) e (acc @ [x i])) (S (Suc i)) =
        Some (Inr (acc @ [x i] @ map x [Suc i..<e]), S (max (Suc i) e), concat (map evs [Suc i..<e]))"
      using Suc.hyps(1) [of "Suc i" "acc @ [x i]"] Suc.hyps(2) Suc.prems by simp
  qed
  finally show ?case
    using i by (simp add: upt_conv_Cons max_def)
qed

text \<open>A loop over a list, as the loops over the posted requests are.\<close>

primrec for_each :: "('x \<Rightarrow> (int + unit) prog) \<Rightarrow> 'x list \<Rightarrow> (int + unit) prog" where
  "for_each body [] = Ret (Inr ())"
| "for_each body (x # xs) = bindE (body x) (\<lambda>_. for_each body xs)"

lemma for_each_run:
  assumes "\<And>j. i \<le> j \<Longrightarrow> j < e \<Longrightarrow> ep_run (body (x j)) (S j) = Some (Inr (), S (Suc j), evs j)"
  shows "ep_run (for_each body (map x [i..<e])) (S i) =
    Some (Inr (), S (max i e), concat (map evs [i..<e]))"
  using assms
proof (induction "e - i" arbitrary: i)
  case 0
  then show ?case by (simp add: max_def)
next
  case (Suc k)
  then have i: "i < e" by simp
  have "ep_run (for_each body (x i # map x [Suc i..<e])) (S i) =
      Some (Inr (), S (max (Suc i) e), evs i @ concat (map evs [Suc i..<e]))"
    unfolding for_each.simps
    by (rule ep_run_bindE) (use Suc i in auto)
  then show ?case
    using i by (simp add: upt_conv_Cons max_def)
qed

text \<open>Loops whose state is only known up to an invariant.\<close>

lemma for_batches_run:
  assumes inv: "I b ep" and le: "b \<le> n"
    and step: "\<And>k ep. b \<le> k \<Longrightarrow> k < n \<Longrightarrow> I k ep \<Longrightarrow>
      \<exists>ep' evs. ep_run (body k) ep = Some (Inr (), ep', evs) \<and> I (Suc k) ep' \<and> comm evs = C k"
  shows "\<exists>ep' evs. ep_run (for_batches body b n) ep = Some (Inr (), ep', evs) \<and> I n ep' \<and>
    comm evs = concat (map C [b..<n])"
  using assms
proof (induction "n - b" arbitrary: b ep)
  case 0
  then show ?case by (simp add: for_batches.simps comm_def)
next
  case (Suc k)
  then have b: "b < n" by simp
  from Suc.prems(3) [OF order.refl b Suc.prems(1)] obtain ep1 evs1
    where 1: "ep_run (body b) ep = Some (Inr (), ep1, evs1)" "I (Suc b) ep1" "comm evs1 = C b" by blast
  have "\<exists>ep' evs. ep_run (for_batches body (Suc b) n) ep1 = Some (Inr (), ep', evs) \<and> I n ep' \<and>
      comm evs = concat (map C [Suc b..<n])"
    by (rule Suc.hyps(1)) (use Suc 1 in auto)
  then obtain ep' evs where 2: "ep_run (for_batches body (Suc b) n) ep1 = Some (Inr (), ep', evs)"
      "I n ep'" "comm evs = concat (map C [Suc b..<n])" by blast
  have "ep_run (for_batches body b n) ep = Some (Inr (), ep', evs1 @ evs)"
    using b ep_run_bindE [OF 1(1) 2(1)] by (simp add: for_batches.simps)
  with 1 2 b show ?case
    by (simp add: upt_conv_Cons)
qed

lemma for_steps_run:
  assumes inv: "I s ep" and le: "s \<le> n"
    and step: "\<And>k ep. s \<le> k \<Longrightarrow> k < n \<Longrightarrow> I k ep \<Longrightarrow>
      \<exists>ep' evs. ep_run (body (int k)) ep = Some (Inr (), ep', evs) \<and> I (Suc k) ep' \<and> comm evs = C k"
  shows "\<exists>ep' evs. ep_run (for_steps body (int s) (int n)) ep = Some (Inr (), ep', evs) \<and> I n ep' \<and>
    comm evs = concat (map C [s..<n])"
  using assms
proof (induction "n - s" arbitrary: s ep)
  case 0
  then show ?case by (simp add: for_steps.simps comm_def)
next
  case (Suc k)
  then have s: "s < n" by simp
  from Suc.prems(3) [OF order.refl s Suc.prems(1)] obtain ep1 evs1
    where 1: "ep_run (body (int s)) ep = Some (Inr (), ep1, evs1)" "I (Suc s) ep1" "comm evs1 = C s" by blast
  have "\<exists>ep' evs. ep_run (for_steps body (int (Suc s)) (int n)) ep1 = Some (Inr (), ep', evs) \<and> I n ep' \<and>
      comm evs = concat (map C [Suc s..<n])"
    by (rule Suc.hyps(1)) (use Suc 1 in auto)
  then obtain ep' evs where 2: "ep_run (for_steps body (int (Suc s)) (int n)) ep1 = Some (Inr (), ep', evs)"
      "I n ep'" "comm evs = concat (map C [Suc s..<n])" by blast
  have "int s + 1 = int (Suc s)" by simp
  then have "ep_run (for_steps body (int s) (int n)) ep = Some (Inr (), ep', evs1 @ evs)"
    using s ep_run_bindE [OF 1(1) 2(1)] by (simp add: for_steps.simps [of body "int s"] add.commute)
  with 1 2 s show ?case
    by (simp add: upt_conv_Cons)
qed

section \<open>The waits as loops over the requests\<close>

definition wait_one :: "PostedRequest \<Rightarrow> (int + unit) prog" where
  "wait_one posted =
     bind (pg_transport_wait (request posted))
       (\<lambda>r. if fst r \<noteq> 0 then Ret (Inl PG_ERR_TRANSPORT) else Ret (Inr ()))"

definition reduce_received :: "pointer \<Rightarrow> nat \<Rightarrow> nat \<Rightarrow> nat \<Rightarrow> DATATYPE \<Rightarrow> OPERATION \<Rightarrow> PostedRequest \<Rightarrow> (int + unit) prog" where
  "reduce_received workbuf tb block_offset_elements sz datatype operation posted =
     bind (call_reduce_in_place
         (byte_offset workbuf (size_mul (size_add block_offset_elements (element_offset posted)) sz))
         (byte_offset (Ptr tb 0) (size_mul (element_offset posted) sz)) (element_count posted) datatype operation)
       (\<lambda>status. if status \<noteq> PG_SUCCESS then Ret (Inl status) else Ret (Inr ()))"

definition wait_reduce_one :: "pointer \<Rightarrow> nat \<Rightarrow> nat \<Rightarrow> nat \<Rightarrow> DATATYPE \<Rightarrow> OPERATION \<Rightarrow> PostedRequest \<Rightarrow> (int + unit) prog" where
  "wait_reduce_one workbuf tb block_offset_elements sz datatype operation posted =
     bind (pg_transport_wait (request posted)) (\<lambda>r.
       if fst r \<noteq> 0 then Ret (Inl PG_ERR_TRANSPORT)
       else reduce_received workbuf tb block_offset_elements sz datatype operation posted)"

lemma bind_cong: "(\<And>x. f x = g x) \<Longrightarrow> bind p f = bind p g"
  by (rule arg_cong [where f = "bind p"], rule ext)

lemma wait_requests_each: "wait_requests rs = for_each wait_one rs"
  by (induction rs) (auto simp: wait_one_def bindE_def bind_assoc intro!: bind_cong)

lemma rs_wait_recvs_each:
  "rs_wait_recvs ctx workbuf sz b datatype operation rs =
   for_each (wait_reduce_one workbuf (temporary_buffer ctx) (offsets (layout ctx) ! nat b) sz datatype operation) rs"
  by (induction rs)
     (auto simp: wait_reduce_one_def reduce_received_def bindE_def bind_assoc Let_def intro!: bind_cong split: sum.split)

section \<open>Posting the pieces of a batch\<close>

text \<open>Requests for pieces \<open>i\<close> to \<open>e - 1\<close>, numbered from address \<open>a\<close> on.\<close>

definition numbered :: "nat \<Rightarrow> (nat \<Rightarrow> outstanding) \<Rightarrow> nat \<Rightarrow> nat \<Rightarrow> nat \<Rightarrow> (nat \<times> outstanding) list" where
  "numbered a rec i j e = map (\<lambda>k. (a + (k - i), rec k)) [j..<e]"

lemma numbered_Suc: "j \<le> e \<Longrightarrow> numbered a rec i j (Suc e) = numbered a rec i j e @ [(a + (e - i), rec e)]"
  by (simp add: numbered_def)

lemma numbered_Cons: "j < e \<Longrightarrow> numbered a rec i j e = (a + (j - i), rec j) # numbered a rec i (Suc j) e"
  by (simp add: numbered_def upt_conv_Cons)

lemma numbered_Nil [simp]: "e \<le> j \<Longrightarrow> numbered a rec i j e = []"
  by (simp add: numbered_def)

lemma numbered_set: "(b, r) \<in> set (numbered a rec i j e) \<longleftrightarrow> (\<exists>k. j \<le> k \<and> k < e \<and> b = a + (k - i) \<and> r = rec k)"
  by (auto simp: numbered_def)

lemma list_all_numbered:
  "list_all Q (numbered a rec i j e) = (\<forall>k. j \<le> k \<and> k < e \<longrightarrow> Q (a + (k - i), rec k))"
  by (auto simp: numbered_def list_all_iff)

definition with_posts :: "endpoint \<Rightarrow> (nat \<times> outstanding) list \<Rightarrow> nat \<Rightarrow> endpoint" where
  "with_posts ep out n = ep\<lparr>ep_out := ep_out ep @ out, ep_next_id := ep_next_id ep + word_of_nat n,
     ep_next_addr := ep_next_addr ep + n\<rparr>"

lemma with_posts_0 [simp]: "with_posts ep [] 0 = ep"
  by (simp add: with_posts_def)

lemma with_posts_simps [simp]:
  "ep_mem (with_posts ep out n) = ep_mem ep" "ep_in (with_posts ep out n) = ep_in ep"
  "ep_out (with_posts ep out n) = ep_out ep @ out"
  "ep_next_addr (with_posts ep out n) = ep_next_addr ep + n"
  by (simp_all add: with_posts_def)

lemma new_request_with_posts [simp]:
  "ep_new_request (with_posts ep out n) = \<lparr>id = ep_next_id ep + word_of_nat n, internal = Some (ep_next_addr ep + n)\<rparr>"
  by (simp add: ep_new_request_def with_posts_def)

lemma ep_add_with_posts:
  "ep_add r (with_posts ep out n) = with_posts ep (out @ [(ep_next_addr ep + n, r)]) (Suc n)"
  by (simp add: ep_add_def with_posts_def)

lemma with_posts_with_posts:
  "with_posts (with_posts ep out n) out' n' = with_posts ep (out @ out') (n + n')"
  by (simp add: with_posts_def)

definition piece_request :: "endpoint \<Rightarrow> nat \<Rightarrow> (nat \<Rightarrow> nat) \<Rightarrow> (nat \<Rightarrow> nat) \<Rightarrow> nat \<Rightarrow> PostedRequest" where
  "piece_request ep i off el j =
     \<lparr>request = \<lparr>id = ep_next_id ep + word_of_nat (j - i), internal = Some (ep_next_addr ep + (j - i))\<rparr>,
      piece_index = j, element_offset = off j, element_count = el j\<rparr>"

definition recv_record :: "(nat \<Rightarrow> pointer) \<Rightarrow> (nat \<Rightarrow> nat) \<Rightarrow> (nat \<Rightarrow> pg_tag) \<Rightarrow> nat \<Rightarrow> outstanding" where
  "recv_record p n t j = \<lparr>out_kind = Receive, out_buffer = p j, out_bytes = n j, out_tag = t j\<rparr>"

definition send_record :: "(nat \<Rightarrow> pointer) \<Rightarrow> (nat \<Rightarrow> nat) \<Rightarrow> (nat \<Rightarrow> pg_tag) \<Rightarrow> nat \<Rightarrow> outstanding" where
  "send_record p n t j = \<lparr>out_kind = Send, out_buffer = p j, out_bytes = n j, out_tag = t j\<rparr>"

lemma record_simps [simp]:
  "out_kind (recv_record p n t j) = Receive" "out_buffer (recv_record p n t j) = p j"
  "out_bytes (recv_record p n t j) = n j" "out_tag (recv_record p n t j) = t j"
  "out_kind (send_record p n t j) = Send" "out_buffer (send_record p n t j) = p j"
  "out_bytes (send_record p n t j) = n j" "out_tag (send_record p n t j) = t j"
  by (simp_all add: recv_record_def send_record_def)

lemma recv_posts_run:
  assumes post: "\<And>j. i \<le> j \<Longrightarrow> j < e \<Longrightarrow> post j =
      record_posted j (off j) (el j) (pg_transport_post_recv_prev (p j) (n j) (t j) mode null_request)"
    and out: "ep_out ep = []"
    and ok: "\<And>j. i \<le> j \<Longrightarrow> j < e \<Longrightarrow> 0 < n j \<and> load (ep_mem ep) (p j) (n j) \<noteq> None"
    and apart: "\<And>j k. i \<le> j \<Longrightarrow> j < k \<Longrightarrow> k < e \<Longrightarrow> region_disjoint (p j) (n j) (p k) (n k) \<and> t j \<noteq> t k"
  shows "ep_run (for_pieces post i e []) ep =
    Some (Inr (map (piece_request ep i off el) [i..<e]),
      with_posts ep (numbered (ep_next_addr ep) (recv_record p n t) i i e) (e - i), replicate (e - i) Silent)"
proof -
  let ?S = "\<lambda>j. with_posts ep (numbered (ep_next_addr ep) (recv_record p n t) i i j) (j - i)"
  have "ep_run (for_pieces post i e []) (?S i) =
      Some (Inr ([] @ map (piece_request ep i off el) [i..<e]), ?S (max i e), concat (map (\<lambda>j. [Silent]) [i..<e]))"
  proof (rule for_pieces_run)
    fix j
    assume j: "i \<le> j" "j < e"
    have "may_write (?S j) (p j) (n j) \<and> tag_free (?S j) (t j)"
      using apart j by (auto simp: may_write_def tag_free_def out list_all_numbered)
    with ok [OF j] show "ep_run (post j) (?S j) = Some (Inr (piece_request ep i off el j), ?S (Suc j), [Silent])"
      using j
      by (auto simp: post record_posted_def pg_transport_post_recv_prev_def null_request_def
          ep_add_with_posts numbered_Suc Suc_diff_le recv_record_def piece_request_def)
  qed
  moreover have "?S i = ep" by simp
  moreover have "?S (max i e) = ?S e" by (simp add: max_def)
  moreover have "concat (map (\<lambda>j. [Silent]) [i..<e]) = replicate (e - i) Silent"
    by (simp add: map_replicate_const)
  ultimately show ?thesis by simp
qed

lemma send_posts_run:
  assumes post: "\<And>j. i \<le> j \<Longrightarrow> j < e \<Longrightarrow> post j =
      record_posted j (off j) (el j) (pg_transport_post_send_next (p j) (n j) (t j) mode null_request)"
    and ok: "\<And>j. i \<le> j \<Longrightarrow> j < e \<Longrightarrow> 0 < n j \<and> load (ep_mem ep) (p j) (n j) = Some (d j) \<and> may_read ep (p j) (n j)"
  shows "ep_run (for_pieces post i e []) ep =
    Some (Inr (map (piece_request ep i off el) [i..<e]),
      with_posts ep (numbered (ep_next_addr ep) (send_record p n t) i i e) (e - i),
      sent_events (map (\<lambda>j. (t j, d j)) [i..<e]))"
proof -
  let ?S = "\<lambda>j. with_posts ep (numbered (ep_next_addr ep) (send_record p n t) i i j) (j - i)"
  have "ep_run (for_pieces post i e []) (?S i) =
      Some (Inr ([] @ map (piece_request ep i off el) [i..<e]), ?S (max i e), concat (map (\<lambda>j. [Sent (t j) (d j)]) [i..<e]))"
  proof (rule for_pieces_run)
    fix j
    assume j: "i \<le> j" "j < e"
    have "may_read (?S j) (p j) (n j)"
      using ok [OF j] by (auto simp: may_read_def list_all_numbered)
    with ok [OF j] show "ep_run (post j) (?S j) =
        Some (Inr (piece_request ep i off el j), ?S (Suc j), [Sent (t j) (d j)])"
      using j
      by (auto simp: post record_posted_def pg_transport_post_send_next_def null_request_def
          ep_add_with_posts numbered_Suc Suc_diff_le send_record_def piece_request_def)
  qed
  moreover have "?S i = ep" by simp
  moreover have "?S (max i e) = ?S e" by (simp add: max_def)
  moreover have "concat (map (\<lambda>j. [Sent (t j) (d j)]) [i..<e]) = sent_events (map (\<lambda>j. (t j, d j)) [i..<e])"
    by (simp add: sent_events_def comp_def)
  ultimately show ?thesis by simp
qed

section \<open>Waiting for the requests of a batch\<close>

lemma remove_head: "a \<notin> fst ` set out \<Longrightarrow> remove_out a ((a, r) # out) = out"
  by (induction out) (auto simp: remove_out_def)

text \<open>A wait for the first outstanding request.\<close>

lemma wait_head_send:
  assumes "ep_out ep = (a, r) # out" and "a \<notin> fst ` set out" and "out_kind r = Send"
    and "internal (request x) = Some a"
  shows "ep_run (wait_one x) ep = Some (Inr (), ep\<lparr>ep_out := out\<rparr>, [Silent])"
  using assms by (simp add: wait_one_def pg_transport_wait_def remove_head)

lemma wait_sends_run:
  assumes out: "ep_out ep = numbered a (send_record p n t) i i e"
    and x: "\<And>j. i \<le> j \<Longrightarrow> j < e \<Longrightarrow> internal (request (x j)) = Some (a + (j - i))"
  shows "ep_run (wait_requests (map x [i..<e])) ep = Some (Inr (), ep\<lparr>ep_out := []\<rparr>, replicate (e - i) Silent)"
proof -
  let ?S = "\<lambda>j. ep\<lparr>ep_out := numbered a (send_record p n t) i j e\<rparr>"
  have "ep_run (for_each wait_one (map x [i..<e])) (?S i) =
      Some (Inr (), ?S (max i e), concat (map (\<lambda>j. [Silent]) [i..<e]))"
  proof (rule for_each_run)
    fix j
    assume j: "i \<le> j" "j < e"
    have "a + (j - i) \<notin> fst ` set (numbered a (send_record p n t) i (Suc j) e)"
      using j by (auto simp: numbered_set)
    with j x [OF j] show "ep_run (wait_one (x j)) (?S j) = Some (Inr (), ?S (Suc j), [Silent])"
      using wait_head_send [of "?S j" "a + (j - i)" "send_record p n t j" "numbered a (send_record p n t) i (Suc j) e" "x j"]
      by (simp add: numbered_Cons)
  qed
  moreover have "?S i = ep" by (simp add: out [symmetric])
  moreover have "concat (map (\<lambda>j. [Silent]) [i..<e]) = replicate (e - i) Silent"
    by (simp add: map_replicate_const)
  ultimately show ?thesis by (simp add: wait_requests_each)
qed

lemma wait_head_receive:
  assumes "ep_out ep = (a, r) # out" and "a \<notin> fst ` set out" and "out_kind r = Receive"
    and "internal rq = Some a" and "ep_in ep (out_tag r) = d # ds" and "length d = out_bytes r"
    and "store (ep_mem ep) (out_buffer r) d = Some m"
  shows "ep_call (Wait rq) ep =
    Some (ep\<lparr>ep_mem := m, ep_out := out, ep_in := (ep_in ep)(out_tag r := ds)\<rparr>, (0, null_request), Received (out_tag r))"
  using assms by (simp add: remove_head)

lemma comm_concat: "comm (concat xss) = concat (map comm xss)"
  by (induction xss) (simp_all add: comm_def)

text \<open>
  Waiting for the receives of a batch with a body per request that may work on the memory
  after its message is there. \<open>m j\<close> is the memory before piece \<open>j\<close>, \<open>m' j\<close> the one with
  its message stored.
\<close>

lemma wait_recvs_run:
  assumes out: "ep_out ep = numbered a (recv_record p n t) i i e @ sends"
    and fresh: "\<And>j. i \<le> j \<Longrightarrow> j < e \<Longrightarrow> a + (j - i) \<notin> fst ` set sends"
    and x: "\<And>j. i \<le> j \<Longrightarrow> j < e \<Longrightarrow> internal (request (x j)) = Some (a + (j - i))"
    and ins: "ep_in ep = feed (map (\<lambda>j. (t j, d j)) [i..<e]) rest"
    and m: "ep_mem ep = m i"
    and st: "\<And>j. i \<le> j \<Longrightarrow> j < e \<Longrightarrow> length (d j) = n j \<and> store (m j) (p j) (d j) = Some (m' j)"
    and body: "\<And>j ep. i \<le> j \<Longrightarrow> j < e \<Longrightarrow> ep_mem ep = m' j \<Longrightarrow>
      ep_out ep = numbered a (recv_record p n t) i (Suc j) e @ sends \<Longrightarrow>
      \<exists>evs. ep_run (after (x j)) ep = Some (Inr (), ep\<lparr>ep_mem := m (Suc j)\<rparr>, evs) \<and> comm evs = []"
    and wait: "\<And>y. wait y = bind (pg_transport_wait (request y))
      (\<lambda>r. if fst r \<noteq> 0 then Ret (Inl PG_ERR_TRANSPORT) else after y)"
  shows "\<exists>evs. ep_run (for_each wait (map x [i..<e])) ep =
      Some (Inr (), ep\<lparr>ep_mem := m (max i e), ep_out := sends, ep_in := rest\<rparr>, evs) \<and>
    comm evs = received_events (map (\<lambda>j. (t j, d j)) [i..<e])"
proof -
  let ?S = "\<lambda>j. ep\<lparr>ep_mem := m j, ep_out := numbered a (recv_record p n t) i j e @ sends,
      ep_in := feed (map (\<lambda>j. (t j, d j)) [j..<e]) rest\<rparr>"
  have one: "\<exists>evs. ep_run (wait (x j)) (?S j) = Some (Inr (), ?S (Suc j), evs) \<and> comm evs = [Received (t j)]"
    if j: "i \<le> j" "j < e" for j
  proof -
    let ?out = "numbered a (recv_record p n t) i (Suc j) e @ sends"
    let ?ep = "(?S j)\<lparr>ep_mem := m' j, ep_out := ?out, ep_in := feed (map (\<lambda>j. (t j, d j)) [Suc j..<e]) rest\<rparr>"
    have "a + (j - i) \<notin> fst ` set ?out"
      using j fresh [OF j] by (auto simp: numbered_set)
    from wait_head_receive [of "?S j" "a + (j - i)" "recv_record p n t j" ?out "request (x j)" "d j"
        "feed (map (\<lambda>j. (t j, d j)) [Suc j..<e]) rest (t j)" "m' j"] this
    have call: "ep_call (Wait (request (x j))) (?S j) = Some (?ep, (0, null_request), Received (t j))"
      using j x [OF j] st [OF j] by (simp add: numbered_Cons upt_conv_Cons)
    have "ep_mem ?ep = m' j" "ep_out ?ep = ?out" by simp_all
    from body [OF j this] obtain evs where
      "ep_run (after (x j)) ?ep = Some (Inr (), ?ep\<lparr>ep_mem := m (Suc j)\<rparr>, evs)" "comm evs = []" by blast
    with call show ?thesis
      by (intro exI [of _ "Received (t j) # evs"]) (simp add: wait pg_transport_wait_def comm_def)
  qed
  define evs where "evs j = (SOME evs. ep_run (wait (x j)) (?S j) = Some (Inr (), ?S (Suc j), evs) \<and>
      comm evs = [Received (t j)])" for j
  have evs: "ep_run (wait (x j)) (?S j) = Some (Inr (), ?S (Suc j), evs j) \<and> comm (evs j) = [Received (t j)]"
    if "i \<le> j" "j < e" for j
    using someI_ex [OF one [OF that]] unfolding evs_def .
  have run: "ep_run (for_each wait (map x [i..<e])) (?S i) =
      Some (Inr (), ?S (max i e), concat (map evs [i..<e]))"
    by (rule for_each_run) (use evs in blast)
  have "?S i = ep"
    by (simp add: out [symmetric] m [symmetric] ins [symmetric])
  moreover have "?S (max i e) = ep\<lparr>ep_mem := m (max i e), ep_out := sends, ep_in := rest\<rparr>"
    by (simp add: max_def)
  ultimately have run': "ep_run (for_each wait (map x [i..<e])) ep =
      Some (Inr (), ep\<lparr>ep_mem := m (max i e), ep_out := sends, ep_in := rest\<rparr>, concat (map evs [i..<e]))"
    using run by (simp only:)
  have "map comm (map evs [i..<e]) = map (\<lambda>j. [Received (t j)]) [i..<e]"
    using evs by simp
  then have "comm (concat (map evs [i..<e])) = concat (map (\<lambda>j. [Received (t j)]) [i..<e])"
    by (simp only: comm_concat)
  also have "\<dots> = received_events (map (\<lambda>j. (t j, d j)) [i..<e])"
    by (simp add: received_events_def comp_def)
  finally show ?thesis
    using run' by blast
qed

section \<open>One batch\<close>

text \<open>
  All of a batch: the receives and the sends are posted, the messages taken in order with
  \<open>after\<close> run on each, the sends waited for. Nothing is outstanding before or after.
\<close>

lemma exchange_run:
  assumes out: "ep_out ep = []" and mem: "ep_mem ep = m i"
    and ins: "ep_in ep = feed (map (\<lambda>j. (t j, d j)) [i..<er]) rest"
    and rpost: "\<And>j. i \<le> j \<Longrightarrow> j < er \<Longrightarrow> rpost j =
      record_posted j (off j) (el j) (pg_transport_post_recv_prev (rp j) (rn j) (t j) mode null_request)"
    and rok: "\<And>j. i \<le> j \<Longrightarrow> j < er \<Longrightarrow> 0 < rn j \<and> load (m i) (rp j) (rn j) \<noteq> None"
    and rapart: "\<And>j k. i \<le> j \<Longrightarrow> j < k \<Longrightarrow> k < er \<Longrightarrow> region_disjoint (rp j) (rn j) (rp k) (rn k) \<and> t j \<noteq> t k"
    and spost: "\<And>j. i \<le> j \<Longrightarrow> j < es \<Longrightarrow> spost j =
      record_posted j (off' j) (el' j) (pg_transport_post_send_next (sp j) (sn j) (u j) mode null_request)"
    and sok: "\<And>j. i \<le> j \<Longrightarrow> j < es \<Longrightarrow> 0 < sn j \<and> load (m i) (sp j) (sn j) = Some (sd j)"
    and sapart: "\<And>j k. i \<le> j \<Longrightarrow> j < es \<Longrightarrow> i \<le> k \<Longrightarrow> k < er \<Longrightarrow> region_disjoint (rp k) (rn k) (sp j) (sn j)"
    and st: "\<And>j. i \<le> j \<Longrightarrow> j < er \<Longrightarrow> length (d j) = rn j \<and> store (m j) (rp j) (d j) = Some (m' j)"
    and body: "\<And>j x ep. i \<le> j \<Longrightarrow> j < er \<Longrightarrow> ep_mem ep = m' j \<Longrightarrow>
      element_offset x = off j \<Longrightarrow> element_count x = el j \<Longrightarrow>
      (\<And>a r. (a, r) \<in> set (ep_out ep) \<Longrightarrow> (\<exists>k. j < k \<and> k < er \<and> r = recv_record rp rn t k) \<or>
         (\<exists>k. i \<le> k \<and> k < es \<and> r = send_record sp sn u k)) \<Longrightarrow>
      \<exists>evs. ep_run (after x) ep = Some (Inr (), ep\<lparr>ep_mem := m (Suc j)\<rparr>, evs) \<and> comm evs = []"
    and wait: "\<And>y. wait y = bind (pg_transport_wait (request y))
      (\<lambda>r. if fst r \<noteq> 0 then Ret (Inl PG_ERR_TRANSPORT) else after y)"
  shows "\<exists>ep' evs. ep_run (bindE (for_pieces rpost i er []) (\<lambda>rr. bindE (for_pieces spost i es []) (\<lambda>sr.
        bindE (for_each wait rr) (\<lambda>_. wait_requests sr)))) ep = Some (Inr (), ep', evs) \<and>
    ep_out ep' = [] \<and> ep_mem ep' = m (max i er) \<and> ep_in ep' = rest \<and>
    comm evs = sent_events (map (\<lambda>j. (u j, sd j)) [i..<es]) @ received_events (map (\<lambda>j. (t j, d j)) [i..<er])"
proof -
  let ?a = "ep_next_addr ep" and ?recs = "recv_record rp rn t"
  let ?ep1 = "with_posts ep (numbered ?a ?recs i i er) (er - i)"
  let ?b = "ep_next_addr ?ep1"
  let ?sends = "numbered ?b (send_record sp sn u) i i es"
  let ?ep2 = "with_posts ?ep1 ?sends (es - i)"
  let ?ep3 = "?ep2\<lparr>ep_mem := m (max i er), ep_out := ?sends, ep_in := rest\<rparr>"
  have 1: "ep_run (for_pieces rpost i er []) ep =
      Some (Inr (map (piece_request ep i off el) [i..<er]), ?ep1, replicate (er - i) Silent)"
    by (rule recv_posts_run) (use rpost out mem rok rapart in auto)
  have "may_read ?ep1 (sp j) (sn j)" if "i \<le> j" "j < es" for j
    using sapart [OF that] by (auto simp: may_read_def list_all_numbered out)
  then have 2: "ep_run (for_pieces spost i es []) ?ep1 =
      Some (Inr (map (piece_request ?ep1 i off' el') [i..<es]), ?ep2, sent_events (map (\<lambda>j. (u j, sd j)) [i..<es]))"
    by (intro send_posts_run) (use spost mem sok in auto)
  have 3: "\<exists>evs. ep_run (for_each wait (map (piece_request ep i off el) [i..<er])) ?ep2 = Some (Inr (), ?ep3, evs) \<and>
      comm evs = received_events (map (\<lambda>j. (t j, d j)) [i..<er])"
  proof (rule wait_recvs_run [where m' = m' and after = after])
    show "ep_out ?ep2 = numbered ?a ?recs i i er @ ?sends"
      by (simp add: out)
    show "?a + (j - i) \<notin> fst ` set ?sends" if "i \<le> j" "j < er" for j
      using that by (auto simp: numbered_set)
    show "internal (request (piece_request ep i off el j)) = Some (?a + (j - i))" if "i \<le> j" "j < er" for j
      by (simp add: piece_request_def)
    show "\<exists>evs. ep_run (after (piece_request ep i off el j)) ep' = Some (Inr (), ep'\<lparr>ep_mem := m (Suc j)\<rparr>, evs) \<and> comm evs = []"
      if j: "i \<le> j" "j < er" "ep_mem ep' = m' j" and o: "ep_out ep' = numbered ?a ?recs i (Suc j) er @ ?sends" for j ep'
    proof (rule body [OF j])
      fix a r
      assume "(a, r) \<in> set (ep_out ep')"
      then show "(\<exists>k. j < k \<and> k < er \<and> r = ?recs k) \<or> (\<exists>k. i \<le> k \<and> k < es \<and> r = send_record sp sn u k)"
        unfolding o by (auto simp: numbered_set Suc_le_eq)
    qed (simp_all add: piece_request_def)
    show "wait y = bind (pg_transport_wait (request y))
        (\<lambda>r. if fst r \<noteq> 0 then Ret (Inl PG_ERR_TRANSPORT) else after y)" for y
      by (rule wait)
  qed (use ins mem st in simp_all)
  then obtain evs where 3: "ep_run (for_each wait (map (piece_request ep i off el) [i..<er])) ?ep2 = Some (Inr (), ?ep3, evs)"
    "comm evs = received_events (map (\<lambda>j. (t j, d j)) [i..<er])" by blast
  have 4: "ep_run (wait_requests (map (piece_request ?ep1 i off' el') [i..<es])) ?ep3 =
      Some (Inr (), ?ep3\<lparr>ep_out := []\<rparr>, replicate (es - i) Silent)"
    by (rule wait_sends_run) (simp_all add: piece_request_def)
  have quiet: "comm (replicate n Silent) = []" for n
    by (induction n) (simp_all add: comm_def)
  have sent: "comm (sent_events ms) = sent_events ms" for ms
    by (induction ms) (auto simp: comm_def sent_events_def)
  let ?evs = "replicate (er - i) Silent @ sent_events (map (\<lambda>j. (u j, sd j)) [i..<es]) @ evs @ replicate (es - i) Silent"
  have run: "ep_run (bindE (for_pieces rpost i er []) (\<lambda>rr. bindE (for_pieces spost i es []) (\<lambda>sr.
      bindE (for_each wait rr) (\<lambda>_. wait_requests sr)))) ep = Some (Inr (), ?ep3\<lparr>ep_out := []\<rparr>, ?evs)"
    by (rule ep_run_bindE, rule 1, rule ep_run_bindE, rule 2, rule ep_run_bindE, rule 3(1), rule 4)
  have "comm ?evs = sent_events (map (\<lambda>j. (u j, sd j)) [i..<es]) @ received_events (map (\<lambda>j. (t j, d j)) [i..<er])"
    by (simp add: quiet sent 3(2))
  moreover have "ep_out (?ep3\<lparr>ep_out := []\<rparr>) = []" "ep_mem (?ep3\<lparr>ep_out := []\<rparr>) = m (max i er)"
      "ep_in (?ep3\<lparr>ep_out := []\<rparr>) = rest" by simp_all
  ultimately show ?thesis
    using run by blast
qed

end
