(* ===== verification/Ring_Pieces.thy ===== *)
theory Ring_Pieces
  imports Ring_Exchange
begin

text \<open>
  Where the pieces of a block lie in the work buffer and in the temporary buffer, and how a
  block changes piece by piece. \<open>mix k new old\<close> is a block of which the first \<open>k\<close> bytes
  have been replaced.
\<close>

section \<open>Blocks that change from the front\<close>

definition mix :: "nat \<Rightarrow> bytes \<Rightarrow> bytes \<Rightarrow> bytes" where
  "mix k new old = take k new @ drop k old"

lemma mix_0 [simp]: "mix 0 new old = old"
  by (simp add: mix_def)

lemma mix_full: "length new = k \<Longrightarrow> length old = k \<Longrightarrow> mix k new old = new"
  by (simp add: mix_def)

lemma length_mix [simp]: "k \<le> length new \<Longrightarrow> k \<le> length old \<Longrightarrow> length (mix k new old) = length old"
  by (simp add: mix_def)

lemma blit_mix:
  assumes "k + n \<le> length new" and "k + n \<le> length old"
  shows "blit k (slice k n new) (mix k new old) = mix (k + n) new old"
proof -
  have a: "take k (mix k new old) = take k new" and b: "drop (k + n) (mix k new old) = drop (k + n) old"
    and l: "length (slice k n new) = n"
    using assms by (simp_all add: mix_def add.commute [of k n])
  show ?thesis
    unfolding blit_def a b l by (simp add: mix_def slice_def take_add)
qed

lemma slice_mix_new: "k + n \<le> m \<Longrightarrow> m \<le> length new \<Longrightarrow> slice k n (mix m new old) = slice k n new"
  by (simp add: mix_def slice_append_left) (simp add: slice_def drop_take)

lemma slice_mix_old:
  assumes "k + n \<le> length old" and "k \<le> length new"
  shows "slice k n (mix k new old) = slice k n old"
  using assms by (simp add: mix_def slice_def)

section \<open>Messages\<close>

text \<open>The payload of piece \<open>j\<close> of a block of \<open>cnt\<close> elements of \<open>sz\<close> bytes.\<close>

definition piece_bytes :: "nat \<Rightarrow> nat \<Rightarrow> nat \<Rightarrow> bytes \<Rightarrow> nat \<Rightarrow> bytes" where
  "piece_bytes cnt pe sz data j = slice (j * pe * sz) (piece_len cnt pe j * sz) data"

lemma piece_end_bytes:
  assumes "0 < pe" and "j < pieces cnt pe"
  shows "j * pe * sz + piece_len cnt pe j * sz \<le> cnt * sz"
  using mult_le_mono1 [OF piece_end_le [OF assms], of sz] by (simp add: add_mult_distrib)

lemma length_piece_bytes:
  assumes "0 < pe" and "j < pieces cnt pe" and "length data = cnt * sz"
  shows "length (piece_bytes cnt pe sz data j) = piece_len cnt pe j * sz"
  using piece_end_bytes [OF assms(1,2), of sz] assms(3) by (simp add: piece_bytes_def)

lemma piece_apart_bytes:
  assumes "0 < pe" and "j < k"
  shows "j * pe * sz + piece_len cnt pe j * sz \<le> k * pe * sz"
  using mult_le_mono1 [OF pieces_apart [OF assms, of cnt], of sz] by (simp add: add_mult_distrib)

text \<open>Byte progress after the pieces before \<open>j\<close>.\<close>

definition progress :: "nat \<Rightarrow> nat \<Rightarrow> nat \<Rightarrow> nat \<Rightarrow> nat" where
  "progress cnt pe sz j = piece_start cnt pe j * sz"

lemma progress_simps:
  assumes "0 < pe"
  shows "progress cnt pe sz 0 = 0"
    and "progress cnt pe sz (pieces cnt pe) = cnt * sz"
    and "j < pieces cnt pe \<Longrightarrow> progress cnt pe sz j = j * pe * sz"
    and "j < pieces cnt pe \<Longrightarrow> progress cnt pe sz (Suc j) = j * pe * sz + piece_len cnt pe j * sz"
    and "progress cnt pe sz j \<le> cnt * sz"
  using assms by (simp_all add: progress_def piece_start_simps add_mult_distrib) (simp add: piece_start_def)

text \<open>Storing piece \<open>j\<close> of \<open>new\<close> moves the boundary past it.\<close>

lemma mix_piece:
  assumes "0 < pe" and "j < pieces cnt pe" and "length new = cnt * sz" and "cnt * sz \<le> length old"
  shows "blit (j * pe * sz) (piece_bytes cnt pe sz new j) (mix (progress cnt pe sz j) new old) =
    mix (progress cnt pe sz (Suc j)) new old"
  using assms piece_end_bytes [OF assms(1,2), of sz]
  by (simp add: progress_simps piece_bytes_def blit_mix)

section \<open>Pieces in the work buffer\<close>

text \<open>Piece \<open>j\<close> of block \<open>b\<close> of a buffer in memory block \<open>rb\<close> with \<open>c b\<close> elements in block \<open>b\<close>.\<close>

definition block_at :: "nat \<Rightarrow> (nat \<Rightarrow> nat) \<Rightarrow> nat \<Rightarrow> nat \<Rightarrow> nat \<Rightarrow> nat \<Rightarrow> pointer" where
  "block_at rb c pe sz b j = Ptr rb (block_start (\<lambda>i. c i * sz) b + j * pe * sz)"

definition block_bytes_ok :: "nat \<Rightarrow> (nat \<Rightarrow> nat) \<Rightarrow> nat \<Rightarrow> (nat \<Rightarrow> bytes) \<Rightarrow> bool" where
  "block_bytes_ok P c sz B = (\<forall>b<P. length (B b) = c b * sz)"

lemma block_bytes_okD: "block_bytes_ok P c sz B \<Longrightarrow> b < P \<Longrightarrow> length (B b) = c b * sz"
  by (simp add: block_bytes_ok_def)

lemma length_joined_blocks:
  "block_bytes_ok P c sz B \<Longrightarrow> length (joined B P) = block_start (\<lambda>i. c i * sz) P"
  by (rule length_joined) (simp add: block_bytes_ok_def)

lemma block_piece_inside:
  assumes "b < P" and "0 < pe" and "j < pieces (c b) pe"
  shows "block_start (\<lambda>i. c i * sz) b + j * pe * sz + piece_len (c b) pe j * sz \<le> block_start (\<lambda>i. c i * sz) P"
  using block_range_in [OF assms(1), of "\<lambda>i. c i * sz"] piece_end_bytes [OF assms(2,3), of sz] by linarith

lemma load_block_piece:
  assumes "m rb = Some (joined B P)" and ok: "block_bytes_ok P c sz B" and "b < P" and "0 < pe" and "j < pieces (c b) pe"
  shows "load m (block_at rb c pe sz b j) (piece_len (c b) pe j * sz) = Some (piece_bytes (c b) pe sz (B b) j)"
proof -
  have "slice (block_start (\<lambda>i. c i * sz) b + j * pe * sz) (piece_len (c b) pe j * sz) (joined B P) =
      slice (j * pe * sz) (piece_len (c b) pe j * sz) (B b)"
    by (rule slice_joined) (use assms piece_end_bytes in \<open>auto simp: block_bytes_ok_def\<close>)
  with assms show ?thesis
    using block_piece_inside [OF assms(3,4), of j c sz]
    by (simp add: block_at_def length_joined_blocks [OF ok] piece_bytes_def)
qed

lemma store_block_piece:
  assumes "m rb = Some (joined B P)" and ok: "block_bytes_ok P c sz B" and "b < P" and "0 < pe" and "j < pieces (c b) pe"
    and "length d = piece_len (c b) pe j * sz"
  shows "store m (block_at rb c pe sz b j) d = Some (m(rb \<mapsto> joined (B(b := blit (j * pe * sz) d (B b))) P))"
proof -
  have "blit (block_start (\<lambda>i. c i * sz) b + j * pe * sz) d (joined B P) =
      joined (B(b := blit (j * pe * sz) d (B b))) P"
    by (rule blit_joined) (use assms piece_end_bytes in \<open>auto simp: block_bytes_ok_def\<close>)
  with assms show ?thesis
    using block_piece_inside [OF assms(3,4), of j c sz]
    by (simp add: block_at_def length_joined_blocks [OF ok])
qed

lemma block_pieces_apart:
  assumes "a \<noteq> b" and "0 < pe" and "j < pieces (c a) pe" and "k < pieces (c b) pe"
  shows "region_disjoint (block_at rb c pe sz a j) (piece_len (c a) pe j * sz)
    (block_at rb c pe sz b k) (piece_len (c b) pe k * sz)"
  using block_ranges_apart [OF assms(1), of "j * pe * sz" "piece_len (c a) pe j * sz" "\<lambda>i. c i * sz"
      "k * pe * sz" "piece_len (c b) pe k * sz"]
    piece_end_bytes [OF assms(2,3), of sz] piece_end_bytes [OF assms(2,4), of sz]
  by (auto simp: block_at_def)

lemma same_block_apart:
  assumes "0 < pe" and "j < k"
  shows "region_disjoint (block_at rb c pe sz b j) (piece_len (c b) pe j * sz)
      (block_at rb c pe sz b k) (piece_len (c b) pe k * sz)"
    and "region_disjoint (Ptr tb (j * pe * sz)) (piece_len cnt pe j * sz) (Ptr tb (k * pe * sz)) (piece_len cnt pe k * sz)"
  using piece_apart_bytes [OF assms, of sz] by (simp_all add: block_at_def add.assoc)

section \<open>The setting of a collective\<close>

text \<open>
  The sizes for which the arithmetic is exact and every tag exists: at most 129 ranks, at
  most 4096 pieces per block (the block of rank 0 is the longest).
\<close>

definition ring_setup :: "nat \<Rightarrow> nat \<Rightarrow> nat \<Rightarrow> ring_collective_config \<Rightarrow> bool" where
  "ring_setup P count sz cfg =
     (0 < P \<and> P \<le> 129 \<and> 4 \<le> sz \<and> count * sz < size_modulus \<and>
      pipeline_piece_bytes cfg < size_modulus \<and> 0 < max_inflight cfg \<and> max_inflight cfg \<le> kMaxInflightLimit \<and>
      pieces (block_count count P 0) (piece_elements_for cfg sz) \<le> 4096)"

definition context_at :: "nat \<Rightarrow> nat \<Rightarrow> nat \<Rightarrow> ring_collective_context \<Rightarrow> bool" where
  "context_at P r count ctx =
     (rank ctx = int r \<and> world_size ctx = int P \<and> r < P \<and>
      counts (layout ctx) = map (block_count count P) [0..<P] \<and>
      offsets (layout ctx) = map (block_offset count P) [0..<P])"

lemma block_count_max: "block_count count P b \<le> block_count count P 0"
  by (auto simp: block_count_def)

lemma setup_pieces:
  assumes "ring_setup P count sz cfg"
  shows "pieces (block_count count P b) (piece_elements_for cfg sz) \<le> 4096"
  using pieces_mono [OF block_count_max, of count P b "piece_elements_for cfg sz"] assms
  by (simp add: ring_setup_def)

lemma setup_count:
  assumes "ring_setup P count sz cfg" and "b < P"
  shows "block_offset count P b + block_count count P b \<le> count"
    and "(block_offset count P b + block_count count P b) * sz < size_modulus"
    and "count < size_modulus"
proof -
  have "0 < P" and c: "count * sz < size_modulus" and "4 \<le> sz"
    using assms by (simp_all add: ring_setup_def)
  then show 1: "block_offset count P b + block_count count P b \<le> count"
    using block_count_fits assms(2) by blast
  show "(block_offset count P b + block_count count P b) * sz < size_modulus"
    using mult_le_mono1 [OF 1, of sz] c by linarith
  have "count * 1 \<le> count * sz"
    using \<open>4 \<le> sz\<close> by (intro mult_le_mono2) simp
  with c show "count < size_modulus" by linarith
qed

lemma setup_piece_count:
  assumes "ring_setup P count sz cfg" and "b < P"
  shows "piece_count_for (block_count count P b) (piece_elements_for cfg sz) =
    pieces (block_count count P b) (piece_elements_for cfg sz)"
proof (rule piece_count_for_eq)
  have "block_count count P b * sz < size_modulus"
    using setup_count(2) [OF assms] by (simp add: add_mult_distrib)
  then show "block_count count P b + piece_elements_for cfg sz < size_modulus"
    using assms by (intro piece_elements_exact) (simp_all add: ring_setup_def)
qed simp

text \<open>Offsets, lengths and addresses of a piece as the code computes them.\<close>

lemma piece_exact:
  assumes sizes: "ring_setup P count sz cfg" and b: "b < P"
    and pe: "pe = piece_elements_for cfg sz" and j: "j < pieces (block_count count P b) pe"
  shows "size_mul j pe = j * pe"
    and "min pe (size_sub (block_count count P b) (j * pe)) = piece_len (block_count count P b) pe j"
    and "size_mul (piece_len (block_count count P b) pe j) sz = piece_len (block_count count P b) pe j * sz"
    and "size_mul (j * pe) sz = j * pe * sz"
    and "size_mul (size_add (block_offset count P b) (j * pe)) sz =
      block_start (\<lambda>i. block_count count P i * sz) b + j * pe * sz"
proof -
  let ?c = "block_count count P b" and ?o = "block_offset count P b"
  have e: "j * pe + piece_len ?c pe j \<le> ?c"
    using piece_end_le j by (simp add: pe)
  note bound = setup_count [OF sizes b]
  from e bound(1,3) show "size_mul j pe = j * pe"
    and "min pe (size_sub ?c (j * pe)) = piece_len ?c pe j"
    by (simp_all add: size_exact piece_len_def)
  have "?o * sz + (j * pe + piece_len ?c pe j) * sz \<le> ?o * sz + ?c * sz"
    using e by simp
  with bound(2) have fits: "?o * sz + (j * pe * sz + piece_len ?c pe j * sz) < size_modulus"
    by (simp add: add_mult_distrib)
  then show "size_mul (piece_len ?c pe j) sz = piece_len ?c pe j * sz"
    and "size_mul (j * pe) sz = j * pe * sz"
    by (simp_all add: size_exact)
  have "size_add ?o (j * pe) = ?o + j * pe"
    using e bound(1,3) by (simp add: size_exact)
  moreover have "size_mul (?o + j * pe) sz = ?o * sz + j * pe * sz"
    using fits by (simp add: size_exact add_mult_distrib)
  ultimately show "size_mul (size_add ?o (j * pe)) sz = block_start (\<lambda>i. block_count count P i * sz) b + j * pe * sz"
    by (simp add: block_start_scale block_offset_def)
qed

end
