(* ===== verification/Ring_Phases.thy ===== *)
theory Ring_Phases
  imports Ring_Pieces
begin

text \<open>
  The batches and steps of Reduce-Scatter and All-Gather on the contract endpoint: what a
  rank sends and receives in each batch, and how the block it receives changes.
\<close>

section \<open>The messages of a batch\<close>

definition batch_messages :: "32 word \<Rightarrow> CollectivePhase \<Rightarrow> nat \<Rightarrow> nat \<Rightarrow> nat \<Rightarrow> nat \<Rightarrow> nat \<Rightarrow> bytes \<Rightarrow> nat \<Rightarrow>
    (pg_tag \<times> bytes) list" where
  "batch_messages sq phase s cnt pe sz cap data k =
     map (\<lambda>j. (tag_word sq phase s j, piece_bytes cnt pe sz data j)) [k * cap..<min (k * cap + cap) (pieces cnt pe)]"

lemma batch_messages_beyond: "pieces cnt pe \<le> k * cap \<Longrightarrow> batch_messages sq phase s cnt pe sz cap data k = []"
  by (simp add: batch_messages_def)

lemma progress_past:
  assumes "0 < pe" and "pieces cnt pe \<le> j"
  shows "progress cnt pe sz j = cnt * sz"
  using pieces_less [OF assms(1), of j cnt] assms(2) by (simp add: progress_def piece_start_def)

lemma progress_batch:
  assumes "0 < pe"
  shows "progress cnt pe sz (max (k * cap) (min (k * cap + cap) (pieces cnt pe))) = progress cnt pe sz (Suc k * cap)"
proof (cases "k * cap + cap \<le> pieces cnt pe")
  case True
  then show ?thesis by (simp add: add.commute)
next
  case False
  then have "pieces cnt pe \<le> max (k * cap) (min (k * cap + cap) (pieces cnt pe))" by simp
  with progress_past [OF assms this] progress_past [OF assms, of cnt "Suc k * cap"] False
  show ?thesis by (simp add: add.commute)
qed

section \<open>Posts with exact arithmetic\<close>

lemma context_layout:
  assumes "context_at P r count ctx" and "b < P"
  shows "counts (layout ctx) ! nat (int b) = block_count count P b"
    and "offsets (layout ctx) ! nat (int b) = block_offset count P b"
  using assms by (simp_all add: context_at_def)

text \<open>The pieces of block \<open>b\<close> posted in step \<open>s\<close>; \<open>pe\<close> and the counts are those of the context.\<close>

lemma rs_post_recv_eq:
  assumes sizes: "ring_setup P count sz (config ctx)" and ctx: "context_at P r count ctx" and b: "b < P"
    and pe: "pe = piece_elements_for (config ctx) sz" and s: "s < 128"
    and j: "j < pieces (block_count count P b) pe"
  shows "rs_post_recv ctx sz pe (block_count count P b) (int s) j =
    record_posted j (j * pe) (piece_len (block_count count P b) pe j)
      (pg_transport_post_recv_prev (Ptr (temporary_buffer ctx) (j * pe * sz))
        (piece_len (block_count count P b) pe j * sz) (tag_word (sequence ctx) ReduceScatter s j)
        (transfer_mode (config ctx)) null_request)"
proof -
  note exact = piece_exact [OF sizes b pe j]
  have "j < 4096" using setup_pieces [OF sizes, of b] j pe by simp
  then show ?thesis
    by (simp add: rs_post_recv_def make_tag_eq s exact Let_def)
qed

lemma post_block_eq:
  assumes sizes: "ring_setup P count sz (config ctx)" and ctx: "context_at P r count ctx" and b: "b < P"
    and pe: "pe = piece_elements_for (config ctx) sz" and s: "s < 128"
    and j: "j < pieces (block_count count P b) pe"
  shows "rs_post_send ctx (Ptr rb 0) sz pe (int b) (block_count count P b) (int s) j =
    record_posted j (j * pe) (piece_len (block_count count P b) pe j)
      (pg_transport_post_send_next (block_at rb (block_count count P) pe sz b j)
        (piece_len (block_count count P b) pe j * sz) (tag_word (sequence ctx) ReduceScatter s j)
        (transfer_mode (config ctx)) null_request)"
    and "ag_post_send ctx (Ptr rb 0) sz pe (int b) (block_count count P b) (int s) j =
    record_posted j (j * pe) (piece_len (block_count count P b) pe j)
      (pg_transport_post_send_next (block_at rb (block_count count P) pe sz b j)
        (piece_len (block_count count P b) pe j * sz) (tag_word (sequence ctx) AllGather s j)
        (transfer_mode (config ctx)) null_request)"
    and "ag_post_recv ctx (Ptr rb 0) sz pe (int b) (block_count count P b) (int s) j =
    record_posted j (j * pe) (piece_len (block_count count P b) pe j)
      (pg_transport_post_recv_prev (block_at rb (block_count count P) pe sz b j)
        (piece_len (block_count count P b) pe j * sz) (tag_word (sequence ctx) AllGather s j)
        (transfer_mode (config ctx)) null_request)"
proof -
  note exact = piece_exact [OF sizes b pe j] context_layout [OF ctx b]
  have "j < 4096" using setup_pieces [OF sizes, of b] j pe by simp
  then show "rs_post_send ctx (Ptr rb 0) sz pe (int b) (block_count count P b) (int s) j =
    record_posted j (j * pe) (piece_len (block_count count P b) pe j)
      (pg_transport_post_send_next (block_at rb (block_count count P) pe sz b j)
        (piece_len (block_count count P b) pe j * sz) (tag_word (sequence ctx) ReduceScatter s j)
        (transfer_mode (config ctx)) null_request)"
    and "ag_post_send ctx (Ptr rb 0) sz pe (int b) (block_count count P b) (int s) j =
    record_posted j (j * pe) (piece_len (block_count count P b) pe j)
      (pg_transport_post_send_next (block_at rb (block_count count P) pe sz b j)
        (piece_len (block_count count P b) pe j * sz) (tag_word (sequence ctx) AllGather s j)
        (transfer_mode (config ctx)) null_request)"
    and "ag_post_recv ctx (Ptr rb 0) sz pe (int b) (block_count count P b) (int s) j =
    record_posted j (j * pe) (piece_len (block_count count P b) pe j)
      (pg_transport_post_recv_prev (block_at rb (block_count count P) pe sz b j)
        (piece_len (block_count count P b) pe j * sz) (tag_word (sequence ctx) AllGather s j)
        (transfer_mode (config ctx)) null_request)"
    by (simp_all add: rs_post_send_def ag_post_send_def ag_post_recv_def make_tag_eq s exact Let_def
        block_at_def del: nat_int)
qed

lemma tags_differ:
  assumes "j < k" and "k < 4096" and "s < 128"
  shows "tag_word sq phase s j \<noteq> tag_word sq phase s k"
  using tag_word_inj [of sq phase s j sq phase s k] assms by auto

lemma batch_tags_differ:
  assumes "ring_setup P count sz cfg" and "s < 128" and "j < k" and "k < pieces (block_count count P b) (piece_elements_for cfg sz)"
  shows "tag_word sq phase s j \<noteq> tag_word sq phase s k"
  using tags_differ [OF assms(3) _ assms(2)] setup_pieces [OF assms(1), of b] assms(4) by simp

section \<open>One batch of Reduce-Scatter\<close>

text \<open>
  The memory while block \<open>b\<close> is received: \<open>B\<close> are the blocks before the step, \<open>D\<close> the
  block the previous rank sends, \<open>p\<close> the bytes handled.
\<close>

definition rs_memory :: "memory \<Rightarrow> nat \<Rightarrow> nat \<Rightarrow> nat \<Rightarrow> (nat \<Rightarrow> bytes) \<Rightarrow> nat \<Rightarrow> bytes \<Rightarrow> bytes \<Rightarrow> bytes \<Rightarrow> nat \<Rightarrow> memory" where
  "rs_memory m0 rb tb P B b new D T0 p =
     m0(rb \<mapsto> joined (B(b := mix p new (B b))) P, tb \<mapsto> mix p D T0)"

lemma block_bytes_ok_mix:
  "block_bytes_ok P c sz B \<Longrightarrow> b < P \<Longrightarrow> length new = c b * sz \<Longrightarrow> p \<le> c b * sz \<Longrightarrow>
   block_bytes_ok P c sz (B(b := mix p new (B b)))"
  by (auto simp: block_bytes_ok_def)

text \<open>Reducing one received piece.\<close>

lemma reduce_piece:
  assumes op: "byte_op dt oper = Some g" and sz: "sz = datatype_size dt" and pe: "0 < pe"
    and ok: "block_bytes_ok P c sz B" and b: "b < P" and j: "j < pieces (c b) pe"
    and D: "length D = c b * sz" and T0: "c b * sz \<le> length T0" and "rb \<noteq> tb"
    and new: "new = reduce_bytes sz g (c b) (B b) D"
  shows "reduce_in_place (m0(rb \<mapsto> joined (B(b := mix (progress (c b) pe sz j) new (B b))) P,
        tb \<mapsto> mix (progress (c b) pe sz (Suc j)) D T0))
      (block_at rb c pe sz b j) (Ptr tb (j * pe * sz)) (piece_len (c b) pe j) dt oper =
    Some (PG_SUCCESS, rs_memory m0 rb tb P B b new D T0 (progress (c b) pe sz (Suc j)))"
proof -
  let ?p = "progress (c b) pe sz j" and ?p' = "progress (c b) pe sz (Suc j)" and ?n = "piece_len (c b) pe j"
  let ?o = "block_start (\<lambda>i. c i * sz) b + j * pe * sz"
  let ?B = "B(b := mix ?p new (B b))"
  have p: "?p = j * pe * sz" "?p' = j * pe * sz + ?n * sz"
    using progress_simps [OF pe] j by simp_all
  have len: "length (g a x) = sz" for a x
    using byte_op_length [OF op] sz by simp
  have lnew: "length new = c b * sz"
    by (simp add: new length_reduce_bytes len)
  have le: "j * pe * sz + ?n * sz \<le> c b * sz"
    by (rule piece_end_bytes [OF pe j])
  have okB: "block_bytes_ok P c sz ?B"
    by (rule block_bytes_ok_mix [OF ok b lnew]) (use progress_simps(5) [OF pe] in simp)
  have old: "slice ?o (?n * sz) (joined ?B P) = slice (j * pe * sz) (?n * sz) (B b)"
  proof -
    have "slice ?o (?n * sz) (joined ?B P) = slice (j * pe * sz) (?n * sz) (?B b)"
      by (rule slice_joined) (use okB b le in \<open>auto simp: block_bytes_ok_def\<close>)
    moreover have "slice (j * pe * sz) (?n * sz) (mix (j * pe * sz) new (B b)) = slice (j * pe * sz) (?n * sz) (B b)"
      by (rule slice_mix_old) (use le lnew block_bytes_okD [OF ok b] in linarith)+
    ultimately show ?thesis
      by (simp add: p)
  qed
  have src: "slice (j * pe * sz) (?n * sz) (mix ?p' D T0) = slice (j * pe * sz) (?n * sz) D"
    using le D by (simp add: p slice_mix_new)
  have red: "reduce_bytes sz g ?n (slice (j * pe * sz) (?n * sz) (B b)) (slice (j * pe * sz) (?n * sz) D) =
      piece_bytes (c b) pe sz new j"
    unfolding new piece_bytes_def
    by (rule slice_reduce_bytes [symmetric]) (use len piece_end_le [OF pe j] in auto)
  have "blit ?o (piece_bytes (c b) pe sz new j) (joined ?B P) =
      joined (?B(b := blit (j * pe * sz) (piece_bytes (c b) pe sz new j) (?B b))) P"
    by (rule blit_joined)
       (use okB b le length_piece_bytes [OF pe j lnew] in \<open>auto simp: block_bytes_ok_def\<close>)
  also have "?B(b := blit (j * pe * sz) (piece_bytes (c b) pe sz new j) (?B b)) = B(b := mix ?p' new (B b))"
    using mix_piece [OF pe j lnew, of "B b"] block_bytes_okD [OF ok b] by simp
  finally have blit: "blit ?o (piece_bytes (c b) pe sz new j) (joined ?B P) = joined (B(b := mix ?p' new (B b))) P" .
  have "?o + ?n * sz \<le> length (joined ?B P)"
    using block_piece_inside [OF b pe, of j c sz] j by (simp add: length_joined_blocks [OF okB])
  moreover have "j * pe * sz + ?n * sz \<le> length (mix ?p' D T0)"
    using le D T0 by (simp add: p)
  ultimately have "reduce_in_place (m0(rb \<mapsto> joined ?B P, tb \<mapsto> mix ?p' D T0)) (Ptr rb ?o) (Ptr tb (j * pe * sz)) ?n dt oper =
    Some (PG_SUCCESS, (m0(rb \<mapsto> joined ?B P, tb \<mapsto> mix ?p' D T0))(rb \<mapsto> blit ?o (reduce_bytes sz g ?n
      (slice ?o (?n * sz) (joined ?B P)) (slice (j * pe * sz) (?n * sz) (mix ?p' D T0))) (joined ?B P)))"
    by (intro reduce_in_place_eq [OF op _ _ sz]) (use \<open>rb \<noteq> tb\<close> in simp_all)
  then show ?thesis
    unfolding old src red blit using \<open>rb \<noteq> tb\<close>
    by (simp add: block_at_def rs_memory_def fun_upd_twist [OF \<open>rb \<noteq> tb\<close>])
qed

text \<open>What \<open>reduce_in_place\<close> after a wait is allowed to touch, given what is still outstanding.\<close>

lemma reduce_allowed:
  assumes out: "\<And>a r. (a, r) \<in> set (ep_out ep) \<Longrightarrow> (\<exists>k. j < k \<and> k < er \<and> r = recv_record rp rn t k) \<or>
      (\<exists>k. i \<le> k \<and> k < es \<and> r = send_record sp sn u k)"
    and recv: "\<And>k. j < k \<Longrightarrow> k < er \<Longrightarrow> region_disjoint (rp k) (rn k) dst n \<and> region_disjoint (rp k) (rn k) src n"
    and send: "\<And>k. i \<le> k \<Longrightarrow> k < es \<Longrightarrow> region_disjoint (sp k) (sn k) dst n"
    and n: "n = el * datatype_size dt"
  shows "buffer_call_allowed (Reduce_in_place dst src el dt oper) ep"
proof -
  have "region_disjoint (out_buffer r) (out_bytes r) dst n \<and>
      (out_kind r = Receive \<longrightarrow> region_disjoint (out_buffer r) (out_bytes r) src n)"
    if "(a, r) \<in> set (ep_out ep)" for a r
    using out [OF that] recv send by auto
  then show ?thesis
    by (auto simp: buffer_call_allowed_def may_write_def may_read_def list_all_iff n)
qed

text \<open>The reduction of a received piece.\<close>

lemma reduce_received_run:
  fixes P count b sb rb :: nat and ctx :: ring_collective_context and dt :: DATATYPE
  defines "c \<equiv> block_count count P" and "sz \<equiv> datatype_size dt" and "tb \<equiv> temporary_buffer ctx"
  defines "pe \<equiv> piece_elements_for (config ctx) sz"
  defines "tmp \<equiv> \<lambda>j. Ptr tb (j * pe * sz)" and "rn \<equiv> \<lambda>j. piece_len (c b) pe j * sz"
    and "sp \<equiv> block_at rb c pe sz sb" and "sn \<equiv> \<lambda>j. piece_len (c sb) pe j * sz"
  assumes sizes: "ring_setup P count sz (config ctx)" and ctx: "context_at P r count ctx"
    and bs: "b < P" "sb < P" and ne: "sb \<noteq> b" and op: "byte_op dt oper = Some g"
    and ok: "block_bytes_ok P c sz B" and D: "length D = c b * sz" and T0: "c b * sz \<le> length T0" and rb: "rb \<noteq> tb"
    and new: "new = reduce_bytes sz g (c b) (B b) D"
    and j: "j < pieces (c b) pe" and es: "es \<le> pieces (c sb) pe"
    and e: "ep_mem e = m0(rb \<mapsto> joined (B(b := mix (progress (c b) pe sz j) new (B b))) P,
        tb \<mapsto> mix (progress (c b) pe sz (Suc j)) D T0)"
    and x: "element_offset x = j * pe" "element_count x = piece_len (c b) pe j"
    and outs: "\<And>a r. (a, r) \<in> set (ep_out e) \<Longrightarrow> (\<exists>k. j < k \<and> k < er \<and> r = recv_record tmp rn t k) \<or>
         (\<exists>k. i \<le> k \<and> k < es \<and> r = send_record sp sn t k)"
  shows "\<exists>evs. ep_run (reduce_received (Ptr rb 0) tb (offsets (layout ctx) ! nat (int b)) sz dt oper x) e =
      Some (Inr (), e\<lparr>ep_mem := rs_memory m0 rb tb P B b new D T0 (progress (c b) pe sz (Suc j))\<rparr>, evs) \<and> comm evs = []"
proof -
  let ?dst = "block_at rb c pe sz b j" and ?m = "rs_memory m0 rb tb P B b new D T0 (progress (c b) pe sz (Suc j))"
  let ?call = "Reduce_in_place ?dst (tmp j) (piece_len (c b) pe j) dt oper"
  have pe0: "0 < pe"
    using sizes by (simp add: ring_setup_def pe_def)
  note exact = piece_exact [OF sizes bs(1) pe_def [THEN meta_eq_to_obj_eq] j [unfolded c_def]]
  have ptrs: "byte_offset (Ptr rb 0) (size_mul (size_add (offsets (layout ctx) ! nat (int b)) (element_offset x)) sz) = ?dst"
      "byte_offset (Ptr tb 0) (size_mul (element_offset x) sz) = tmp j"
    using exact by (simp_all add: x context_layout(2) [OF ctx bs(1)] block_at_def c_def tmp_def del: nat_int)
  have "buffer_call_allowed ?call e"
  proof (rule reduce_allowed [OF outs])
    show "region_disjoint (tmp k) (rn k) ?dst (rn j) \<and> region_disjoint (tmp k) (rn k) (tmp j) (rn j)" if "j < k" for k
      using same_block_apart(2) [OF pe0 that, of tb sz "c b"] rb
      by (subst (2) region_disjoint_sym) (simp add: block_at_def tmp_def rn_def)
    show "region_disjoint (sp k) (sn k) ?dst (rn j)" if "k < es" for k
      unfolding sp_def sn_def rn_def by (rule block_pieces_apart [OF ne pe0]) (use that j es in simp_all)
  qed (simp_all add: sz_def rn_def)
  moreover have "mem_call ?call (ep_mem e) = Some (PG_SUCCESS, ?m)"
    using reduce_piece [OF op sz_def [THEN meta_eq_to_obj_eq] pe0 ok bs(1) j D T0 rb new, of m0] by (simp add: e tmp_def)
  ultimately have "ep_call ?call e = Some (e\<lparr>ep_mem := ?m\<rparr>, (PG_SUCCESS, null_request), Silent)"
    by simp
  then show ?thesis
    unfolding reduce_received_def ptrs x(2) call_reduce_in_place_def
    by (intro exI [of _ "[Silent]"]) (simp add: comm_def del: ep_call.simps)
qed

text \<open>A batch as posts, one wait after the other and the waits for the sends.\<close>

lemma batch_eq:
  fixes P count sz :: nat and ctx :: ring_collective_context
  defines "c \<equiv> block_count count P" and "cap \<equiv> max_inflight (config ctx)"
  defines "pe \<equiv> piece_elements_for (config ctx) sz"
  assumes sizes: "ring_setup P count sz (config ctx)" and ctx: "context_at P r count ctx"
    and bs: "b < P" "sb < P" and k: "k * cap + cap < size_modulus"
  shows "rs_batch ctx (Ptr rb 0) sz pe dt oper step (int sb) (int b) k =
      bindE (for_pieces (rs_post_recv ctx sz pe (c b) step) (k * cap) (min (k * cap + cap) (pieces (c b) pe)) []) (\<lambda>rr.
      bindE (for_pieces (rs_post_send ctx (Ptr rb 0) sz pe (int sb) (c sb) step) (k * cap) (min (k * cap + cap) (pieces (c sb) pe)) []) (\<lambda>sr.
      bindE (for_each (wait_reduce_one (Ptr rb 0) (temporary_buffer ctx) (offsets (layout ctx) ! nat (int b)) sz dt oper) rr) (\<lambda>_. wait_requests sr)))"
    and "ag_batch ctx (Ptr rb 0) sz pe step (int sb) (int b) k =
      bindE (for_pieces (ag_post_recv ctx (Ptr rb 0) sz pe (int b) (c b) step) (k * cap) (min (k * cap + cap) (pieces (c b) pe)) []) (\<lambda>rr.
      bindE (for_pieces (ag_post_send ctx (Ptr rb 0) sz pe (int sb) (c sb) step) (k * cap) (min (k * cap + cap) (pieces (c sb) pe)) []) (\<lambda>sr.
      bindE (for_each wait_one rr) (\<lambda>_. wait_requests sr)))"
  using k setup_piece_count [OF sizes bs(1)] setup_piece_count [OF sizes bs(2)]
  by (simp_all add: rs_batch_def ag_batch_def Let_def context_layout(1) [OF ctx bs(1)] context_layout(1) [OF ctx bs(2)]
      rs_wait_recvs_each wait_requests_each size_exact
      c_def [symmetric] cap_def [symmetric] pe_def [symmetric] del: nat_int)

lemma rs_batch_run:
  fixes r s k P count :: nat and ctx :: ring_collective_context and dt :: DATATYPE
  defines "c \<equiv> block_count count P" and "sb \<equiv> ring_back P r s" and "b \<equiv> ring_back P r (Suc s)"
    and "sz \<equiv> datatype_size dt" and "tb \<equiv> temporary_buffer ctx" and "cap \<equiv> max_inflight (config ctx)"
  defines "pe \<equiv> piece_elements_for (config ctx) sz" and "sq \<equiv> sequence ctx"
  assumes sizes: "ring_setup P count sz (config ctx)" and ctx: "context_at P r count ctx" and s: "Suc s < P"
    and op: "byte_op dt oper = Some g" and k: "k * cap + cap < size_modulus"
    and ok: "block_bytes_ok P c sz B" and D: "length D = c b * sz" and T0: "c b * sz \<le> length T0" and rb: "rb \<noteq> tb"
    and new: "new = reduce_bytes sz g (c b) (B b) D"
    and out: "ep_out ep = []" and mem: "ep_mem ep = rs_memory m0 rb tb P B b new D T0 (progress (c b) pe sz (k * cap))"
    and ins: "ep_in ep = feed (batch_messages sq ReduceScatter s (c b) pe sz cap D k) rest"
  shows "\<exists>ep' evs. ep_run (rs_batch ctx (Ptr rb 0) sz pe dt oper (int s) (int sb) (int b) k) ep = Some (Inr (), ep', evs) \<and>
    ep_out ep' = [] \<and> ep_mem ep' = rs_memory m0 rb tb P B b new D T0 (progress (c b) pe sz (Suc k * cap)) \<and> ep_in ep' = rest \<and>
    comm evs = sent_events (batch_messages sq ReduceScatter s (c sb) pe sz cap (B sb) k) @
      received_events (batch_messages sq ReduceScatter s (c b) pe sz cap D k)"
proof -
  have P: "0 < P" "P \<le> 129" "r < P" and pe0: "0 < pe" and s128: "s < 128" and sz0: "0 < sz"
    using sizes ctx s by (simp_all add: ring_setup_def context_at_def pe_def)
  have bs: "b < P" "sb < P" and ne: "sb \<noteq> b"
    using ring_back_back [of r P s] ring_back_back [of r P "Suc s"] P s
    by (auto simp: sb_def b_def)
  have lnew: "length new = c b * sz"
    using byte_op_length [OF op] by (simp add: new length_reduce_bytes sz_def)
  have prog: "progress (c b) pe sz j \<le> c b * sz" for j
    by (rule progress_simps(5) [OF pe0])
  note pe = pe_def [THEN meta_eq_to_obj_eq]
  let ?i = "k * cap" and ?er = "min (k * cap + cap) (pieces (c b) pe)" and ?es = "min (k * cap + cap) (pieces (c sb) pe)"
  let ?t = "tag_word sq ReduceScatter s"
  let ?tmp = "\<lambda>j. Ptr tb (j * pe * sz)" and ?rn = "\<lambda>j. piece_len (c b) pe j * sz"
    and ?sp = "block_at rb c pe sz sb" and ?sn = "\<lambda>j. piece_len (c sb) pe j * sz"
  define m where "m j = rs_memory m0 rb tb P B b new D T0 (progress (c b) pe sz j)" for j
  define m' where "m' j = m0(rb \<mapsto> joined (B(b := mix (progress (c b) pe sz j) new (B b))) P,
      tb \<mapsto> mix (progress (c b) pe sz (Suc j)) D T0)" for j
  have okm: "block_bytes_ok P c sz (B(b := mix (progress (c b) pe sz j) new (B b)))" for j
    by (rule block_bytes_ok_mix [OF ok bs(1) lnew prog])
  have mrb: "m j rb = Some (joined (B(b := mix (progress (c b) pe sz j) new (B b))) P)"
    and mtb: "m j tb = Some (mix (progress (c b) pe sz j) D T0)" for j
    using rb by (simp_all add: m_def rs_memory_def)
  have "\<exists>ep' evs. ep_run (rs_batch ctx (Ptr rb 0) sz pe dt oper (int s) (int sb) (int b) k) ep = Some (Inr (), ep', evs) \<and>
      ep_out ep' = [] \<and> ep_mem ep' = m (max ?i ?er) \<and> ep_in ep' = rest \<and>
      comm evs = sent_events (map (\<lambda>j. (?t j, piece_bytes (c sb) pe sz (B sb) j)) [?i..<?es]) @
        received_events (map (\<lambda>j. (?t j, piece_bytes (c b) pe sz D j)) [?i..<?er])"
    unfolding batch_eq(1) [OF sizes ctx bs k [unfolded cap_def], folded pe_def c_def cap_def]
  proof (rule exchange_run [where m' = m' and off = "\<lambda>j. j * pe" and el = "piece_len (c b) pe" and
        rp = ?tmp and rn = ?rn and off' = "\<lambda>j. j * pe" and el' = "piece_len (c sb) pe" and sp = ?sp and sn = ?sn and
        mode = "transfer_mode (config ctx)"])
    show "rs_post_recv ctx sz pe (c b) (int s) j = record_posted j (j * pe) (piece_len (c b) pe j)
        (pg_transport_post_recv_prev (?tmp j) (?rn j) (?t j) (transfer_mode (config ctx)) null_request)"
      if "j < ?er" for j
      unfolding c_def tb_def sq_def
      by (rule rs_post_recv_eq [OF sizes ctx bs(1) pe s128]) (use that in \<open>simp add: c_def\<close>)
    show "rs_post_send ctx (Ptr rb 0) sz pe (int sb) (c sb) (int s) j = record_posted j (j * pe) (piece_len (c sb) pe j)
        (pg_transport_post_send_next (?sp j) (?sn j) (?t j) (transfer_mode (config ctx)) null_request)"
      if "j < ?es" for j
      unfolding c_def sq_def
      by (rule post_block_eq(1) [OF sizes ctx bs(2) pe s128]) (use that in \<open>simp add: c_def\<close>)
    show "0 < ?rn j \<and> load (m ?i) (?tmp j) (?rn j) \<noteq> None" if "j < ?er" for j
      using piece_len_pos [OF pe0, of j "c b"] piece_end_bytes [OF pe0, of j "c b" sz] that prog [of ?i] D T0 sz0
      by (simp add: mtb)
    show "region_disjoint (?tmp j) (?rn j) (?tmp k') (?rn k') \<and> ?t j \<noteq> ?t k'" if "j < k'" "k' < ?er" for j k'
      using same_block_apart(2) [OF pe0 that(1)] batch_tags_differ [OF sizes s128 that(1), of b] that(2)
      by (simp add: c_def pe_def)
    show "0 < ?sn j \<and> load (m ?i) (?sp j) (?sn j) = Some (piece_bytes (c sb) pe sz (B sb) j)" if "j < ?es" for j
      using piece_len_pos [OF pe0, of j "c sb"] that sz0
        load_block_piece [where m = "m ?i" and c = c and j = j, OF mrb okm bs(2) pe0] ne by simp
    show "region_disjoint (?tmp k') (?rn k') (?sp j) (?sn j)" for k' j
      using rb by (simp add: block_at_def)
    show "length (piece_bytes (c b) pe sz D j) = ?rn j \<and> store (m j) (?tmp j) (piece_bytes (c b) pe sz D j) = Some (m' j)"
      if "j < ?er" for j
      using that length_piece_bytes [OF pe0 _ D, of j] piece_end_bytes [OF pe0, of j "c b" sz] mix_piece [OF pe0 _ D, of j T0]
        D T0 prog [of j] rb
      by (simp add: mtb) (simp add: m_def m'_def rs_memory_def)
    show "\<exists>evs. ep_run (reduce_received (Ptr rb 0) tb (offsets (layout ctx) ! nat (int b)) sz dt oper x) e =
        Some (Inr (), e\<lparr>ep_mem := m (Suc j)\<rparr>, evs) \<and> comm evs = []"
      if "j < ?er" "ep_mem e = m' j" "element_offset x = j * pe" "element_count x = piece_len (c b) pe j"
        "\<And>a r. (a, r) \<in> set (ep_out e) \<Longrightarrow> (\<exists>k. j < k \<and> k < ?er \<and> r = recv_record ?tmp ?rn ?t k) \<or>
         (\<exists>k'. ?i \<le> k' \<and> k' < ?es \<and> r = send_record ?sp ?sn ?t k')" for j x e
      unfolding m_def
      by (rule reduce_received_run [where P = P and count = count and dt = dt and ctx = ctx and er = ?er and es = ?es and t = ?t and i = ?i, folded sz_def, folded c_def tb_def pe_def,
            OF sizes ctx bs ne op ok D T0 rb new]) (use that in \<open>simp_all add: m'_def\<close>)
    show "wait_reduce_one (Ptr rb 0) (temporary_buffer ctx) (offsets (layout ctx) ! nat (int b)) sz dt oper y =
      bind (pg_transport_wait (request y)) (\<lambda>r. if fst r \<noteq> 0 then Ret (Inl PG_ERR_TRANSPORT)
        else reduce_received (Ptr rb 0) tb (offsets (layout ctx) ! nat (int b)) sz dt oper y)" for y
      unfolding tb_def by (rule wait_reduce_one_def)
  qed (use out mem ins in \<open>simp_all add: m_def batch_messages_def\<close>)
  then show ?thesis
    by (simp only: m_def progress_batch [OF pe0] batch_messages_def)
qed

section \<open>One batch of All-Gather\<close>

text \<open>The memory while block \<open>b\<close> is overwritten by \<open>D\<close>, received straight into place.\<close>

definition ag_memory :: "memory \<Rightarrow> nat \<Rightarrow> nat \<Rightarrow> (nat \<Rightarrow> bytes) \<Rightarrow> nat \<Rightarrow> bytes \<Rightarrow> nat \<Rightarrow> memory" where
  "ag_memory m0 rb P B b D p = m0(rb \<mapsto> joined (B(b := mix p D (B b))) P)"

lemma ag_store_piece:
  assumes ok: "block_bytes_ok P c sz B" and b: "b < P" and pe: "0 < pe" and D: "length D = c b * sz"
    and j: "j < pieces (c b) pe"
  shows "store (ag_memory m0 rb P B b D (progress (c b) pe sz j)) (block_at rb c pe sz b j) (piece_bytes (c b) pe sz D j) =
    Some (ag_memory m0 rb P B b D (progress (c b) pe sz (Suc j)))"
proof -
  let ?B = "B(b := mix (progress (c b) pe sz j) D (B b))"
  have "block_bytes_ok P c sz ?B"
    by (rule block_bytes_ok_mix [OF ok b D]) (rule progress_simps(5) [OF pe])
  from store_block_piece [where m = "ag_memory m0 rb P B b D (progress (c b) pe sz j)" and rb = rb, OF _ this b pe j length_piece_bytes [OF pe j D]]
  show ?thesis
    using mix_piece [OF pe j D, of "B b"] block_bytes_okD [OF ok b]
    by (simp add: ag_memory_def)
qed

lemma ag_batch_run:
  fixes r s k P count sz :: nat and ctx :: ring_collective_context
  defines "c \<equiv> block_count count P" and "cap \<equiv> max_inflight (config ctx)"
  defines "pe \<equiv> piece_elements_for (config ctx) sz" and "sq \<equiv> sequence ctx"
  assumes sizes: "ring_setup P count sz (config ctx)" and ctx: "context_at P r count ctx" and s: "Suc s < P"
    and bs: "b < P" "sb < P" and ne: "sb \<noteq> b" and k: "k * cap + cap < size_modulus"
    and ok: "block_bytes_ok P c sz B" and D: "length D = c b * sz"
    and out: "ep_out ep = []" and mem: "ep_mem ep = ag_memory m0 rb P B b D (progress (c b) pe sz (k * cap))"
    and ins: "ep_in ep = feed (batch_messages sq AllGather s (c b) pe sz cap D k) rest"
  shows "\<exists>ep' evs. ep_run (ag_batch ctx (Ptr rb 0) sz pe (int s) (int sb) (int b) k) ep = Some (Inr (), ep', evs) \<and>
    ep_out ep' = [] \<and> ep_mem ep' = ag_memory m0 rb P B b D (progress (c b) pe sz (Suc k * cap)) \<and> ep_in ep' = rest \<and>
    comm evs = sent_events (batch_messages sq AllGather s (c sb) pe sz cap (B sb) k) @
      received_events (batch_messages sq AllGather s (c b) pe sz cap D k)"
proof -
  have pe0: "0 < pe" and s128: "s < 128" and sz0: "0 < sz"
    using sizes s by (simp_all add: ring_setup_def pe_def)
  have pe: "pe = piece_elements_for (config ctx) sz"
    by (simp add: pe_def)
  let ?i = "k * cap" and ?er = "min (k * cap + cap) (pieces (c b) pe)" and ?es = "min (k * cap + cap) (pieces (c sb) pe)"
  let ?t = "tag_word sq AllGather s"
  define m where "m j = ag_memory m0 rb P B b D (progress (c b) pe sz j)" for j
  have okm: "block_bytes_ok P c sz (B(b := mix (progress (c b) pe sz j) D (B b)))" for j
    by (rule block_bytes_ok_mix [OF ok bs(1) D progress_simps(5) [OF pe0]])
  have mrb: "m j rb = Some (joined (B(b := mix (progress (c b) pe sz j) D (B b))) P)" for j
    by (simp add: m_def ag_memory_def)
  let ?rp = "block_at rb c pe sz b" and ?rn = "\<lambda>j. piece_len (c b) pe j * sz"
    and ?sp = "block_at rb c pe sz sb" and ?sn = "\<lambda>j. piece_len (c sb) pe j * sz"
  have "\<exists>ep' evs. ep_run (ag_batch ctx (Ptr rb 0) sz pe (int s) (int sb) (int b) k) ep = Some (Inr (), ep', evs) \<and>
      ep_out ep' = [] \<and> ep_mem ep' = m (max ?i ?er) \<and> ep_in ep' = rest \<and>
      comm evs = sent_events (map (\<lambda>j. (?t j, piece_bytes (c sb) pe sz (B sb) j)) [?i..<?es]) @
        received_events (map (\<lambda>j. (?t j, piece_bytes (c b) pe sz D j)) [?i..<?er])"
    unfolding batch_eq(2) [OF sizes ctx bs k [unfolded cap_def], folded pe_def c_def cap_def]
  proof (rule exchange_run [where m' = "\<lambda>j. m (Suc j)" and off = "\<lambda>j. j * pe" and el = "piece_len (c b) pe" and
        rp = ?rp and rn = ?rn and off' = "\<lambda>j. j * pe" and el' = "piece_len (c sb) pe" and sp = ?sp and sn = ?sn and
        mode = "transfer_mode (config ctx)" and after = "\<lambda>_. Ret (Inr ())"])
    show "ag_post_recv ctx (Ptr rb 0) sz pe (int b) (c b) (int s) j = record_posted j (j * pe) (piece_len (c b) pe j)
        (pg_transport_post_recv_prev (?rp j) (?rn j) (?t j) (transfer_mode (config ctx)) null_request)"
      if "j < ?er" for j
      unfolding c_def sq_def
      by (rule post_block_eq(3) [OF sizes ctx bs(1) pe s128]) (use that in \<open>simp add: c_def\<close>)
    show "ag_post_send ctx (Ptr rb 0) sz pe (int sb) (c sb) (int s) j = record_posted j (j * pe) (piece_len (c sb) pe j)
        (pg_transport_post_send_next (?sp j) (?sn j) (?t j) (transfer_mode (config ctx)) null_request)"
      if "j < ?es" for j
      unfolding c_def sq_def
      by (rule post_block_eq(2) [OF sizes ctx bs(2) pe s128]) (use that in \<open>simp add: c_def\<close>)
    show "0 < ?rn j \<and> load (m ?i) (?rp j) (?rn j) \<noteq> None" if "j < ?er" for j
      using piece_len_pos [OF pe0, of j "c b"] that sz0
        load_block_piece [where m = "m ?i" and c = c and j = j, OF mrb okm bs(1) pe0] by simp
    show "region_disjoint (?rp j) (?rn j) (?rp k') (?rn k') \<and> ?t j \<noteq> ?t k'" if "j < k'" "k' < ?er" for j k'
      using same_block_apart(1) [OF pe0 that(1)] batch_tags_differ [OF sizes s128 that(1), of b] that(2)
      by (simp add: c_def pe)
    show "0 < ?sn j \<and> load (m ?i) (?sp j) (?sn j) = Some (piece_bytes (c sb) pe sz (B sb) j)" if "j < ?es" for j
      using piece_len_pos [OF pe0, of j "c sb"] that sz0
        load_block_piece [where m = "m ?i" and c = c and j = j, OF mrb okm bs(2) pe0] ne by simp
    show "region_disjoint (?rp k') (?rn k') (?sp j) (?sn j)" if "k' < ?er" "j < ?es" for k' j
      by (rule block_pieces_apart [OF ne [symmetric] pe0]) (use that in simp_all)
    show "length (piece_bytes (c b) pe sz D j) = ?rn j \<and> store (m j) (?rp j) (piece_bytes (c b) pe sz D j) = Some (m (Suc j))"
      if "j < ?er" for j
      using that length_piece_bytes [OF pe0 _ D, of j] ag_store_piece [OF ok bs(1) pe0 D, of j m0 rb]
      by (simp add: m_def)
    show "\<exists>evs. ep_run (Ret (Inr ())) e = Some (Inr (), e\<lparr>ep_mem := m (Suc j)\<rparr>, evs) \<and> comm evs = []"
      if "ep_mem e = m (Suc j)" for j and e :: endpoint
      using that by (simp add: comm_def)
    show "wait_one y = bind (pg_transport_wait (request y))
      (\<lambda>r. if fst r \<noteq> 0 then Ret (Inl PG_ERR_TRANSPORT) else Ret (Inr ()))" for y
      by (rule wait_one_def)
  qed (use out mem ins in \<open>simp_all add: m_def batch_messages_def\<close>)
  then show ?thesis
    by (simp only: m_def progress_batch [OF pe0] batch_messages_def)
qed

end
