(* ===== verification/Ring_Steps.thy ===== *)
theory Ring_Steps
  imports Ring_Phases
begin

text \<open>
  Whole steps of the two phases on the contract endpoint: the batches of a step move one
  block to the next rank and take one block from the previous one.
\<close>

section \<open>The number of batches\<close>

text \<open>
  Ranks whose two blocks are short may run one batch less than others in a step. Counting up
  to \<open>step_batches\<close> on every rank adds only batches without messages.
\<close>

definition step_batches :: "nat \<Rightarrow> nat \<Rightarrow> nat \<Rightarrow> ring_collective_config \<Rightarrow> nat" where
  "step_batches P count sz cfg =
     batches (max_inflight cfg) (pieces (block_count count P 0) (piece_elements_for cfg sz))"

lemma batches_mono: "n \<le> n' \<Longrightarrow> batches cap n \<le> batches cap n'"
  by (simp add: batches_def div_le_mono)

lemma concat_upto_more:
  assumes "n \<le> n'" and "\<And>k. n \<le> k \<Longrightarrow> f k = []"
  shows "concat (map f [0..<n']) = concat (map f [0..<n])"
proof -
  have "[0..<n'] = [0..<n] @ [n..<n']"
    using assms(1) by (metis le_add_diff_inverse upt_add_eq_append zero_le)
  moreover have "concat (map f [n..<n']) = []"
    using assms(2) by simp
  ultimately show ?thesis by simp
qed

lemma batches_done: "0 < cap \<Longrightarrow> batches cap np \<le> k \<Longrightarrow> np \<le> k * cap"
  using less_ceiling [of cap k np] by (simp add: batches_def not_less [symmetric])

lemma setup_batches:
  assumes sizes: "ring_setup P count sz cfg" and pe: "pe = piece_elements_for cfg sz"
  shows "total_batches_for (pieces (block_count count P b) pe) (pieces (block_count count P b') pe) (max_inflight cfg) =
      batches (max_inflight cfg) (max (pieces (block_count count P b) pe) (pieces (block_count count P b') pe))"
    and "batches (max_inflight cfg) (max (pieces (block_count count P b) pe) (pieces (block_count count P b') pe))
      \<le> step_batches P count sz cfg"
    and "k < batches (max_inflight cfg) (max (pieces (block_count count P b) pe) (pieces (block_count count P b') pe)) \<Longrightarrow>
      k * max_inflight cfg + max_inflight cfg < size_modulus"
proof -
  let ?m = "max (pieces (block_count count P b) pe) (pieces (block_count count P b') pe)"
  have m: "?m \<le> pieces (block_count count P 0) pe"
    using pieces_mono [OF block_count_max, of count P _ pe] by simp
  have cap: "0 < max_inflight cfg" "max_inflight cfg \<le> 1024" and np: "pieces (block_count count P 0) pe \<le> 4096"
    using sizes pe by (simp_all add: ring_setup_def kMaxInflightLimit_def)
  show "total_batches_for (pieces (block_count count P b) pe) (pieces (block_count count P b') pe) (max_inflight cfg) =
      batches (max_inflight cfg) ?m"
    by (rule total_batches_eq) (use cap m np in \<open>auto simp: size_modulus_def\<close>)
  show "batches (max_inflight cfg) ?m \<le> step_batches P count sz cfg"
    unfolding step_batches_def pe [symmetric] by (rule batches_mono [OF m])
  show "k * max_inflight cfg + max_inflight cfg < size_modulus" if "k < batches (max_inflight cfg) ?m"
  proof -
    have "k * max_inflight cfg < ?m"
      using that less_ceiling [OF cap(1)] by (simp add: batches_def)
    then have "k * max_inflight cfg + max_inflight cfg < 4096 + 1024 + 1"
      using m np cap(2) by linarith
    then show ?thesis by (simp add: size_modulus_def)
  qed
qed

section \<open>The messages of a step\<close>

definition step_messages :: "32 word \<Rightarrow> CollectivePhase \<Rightarrow> nat \<Rightarrow> nat \<Rightarrow> nat \<Rightarrow> nat \<Rightarrow> nat \<Rightarrow> nat \<Rightarrow> bytes \<Rightarrow>
    (pg_tag \<times> bytes) list" where
  "step_messages sq phase s cnt pe sz cap n data = concat (map (batch_messages sq phase s cnt pe sz cap data) [0..<n])"

definition step_events :: "32 word \<Rightarrow> CollectivePhase \<Rightarrow> nat \<Rightarrow> nat \<Rightarrow> nat \<Rightarrow> nat \<Rightarrow> nat \<Rightarrow> bytes \<Rightarrow> nat \<Rightarrow> bytes \<Rightarrow>
    nat \<Rightarrow> event list" where
  "step_events sq phase s pe sz cap cnt data cnt' data' n =
     concat (map (\<lambda>k. sent_events (batch_messages sq phase s cnt pe sz cap data k) @
       received_events (batch_messages sq phase s cnt' pe sz cap data' k)) [0..<n])"

lemma step_messages_more:
  assumes "0 < cap" and "batches cap (pieces cnt pe) \<le> n" and "n \<le> n'"
  shows "step_messages sq phase s cnt pe sz cap n' data = step_messages sq phase s cnt pe sz cap n data"
  unfolding step_messages_def
  by (rule concat_upto_more [OF assms(3)]) (use assms batches_done in \<open>simp add: batch_messages_beyond\<close>)

lemma step_events_more:
  assumes "0 < cap" and "batches cap (pieces cnt pe) \<le> n" and "batches cap (pieces cnt' pe) \<le> n" and "n \<le> n'"
  shows "step_events sq phase s pe sz cap cnt data cnt' data' n' = step_events sq phase s pe sz cap cnt data cnt' data' n"
  unfolding step_events_def
  by (rule concat_upto_more [OF assms(4)])
     (use assms batches_done in \<open>simp add: batch_messages_beyond sent_events_def received_events_def\<close>)

section \<open>Batches in sequence\<close>

text \<open>
  Batches that each take their messages and move the memory from one progress to the next.
\<close>

lemma batches_run:
  assumes out: "ep_out ep = []" and mem: "ep_mem ep = m 0"
    and ins: "ep_in ep = feed (concat (map msgs [0..<n])) rest"
    and body: "\<And>k ep. k < n \<Longrightarrow> ep_out ep = [] \<Longrightarrow> ep_mem ep = m k \<Longrightarrow>
      ep_in ep = feed (msgs k) (feed (concat (map msgs [Suc k..<n])) rest) \<Longrightarrow>
      \<exists>ep' evs. ep_run (body k) ep = Some (Inr (), ep', evs) \<and> ep_out ep' = [] \<and> ep_mem ep' = m (Suc k) \<and>
        ep_in ep' = feed (concat (map msgs [Suc k..<n])) rest \<and> comm evs = C k"
  shows "\<exists>ep' evs. ep_run (for_batches body 0 n) ep = Some (Inr (), ep', evs) \<and> ep_out ep' = [] \<and>
    ep_mem ep' = m n \<and> ep_in ep' = rest \<and> comm evs = concat (map C [0..<n])"
proof -
  let ?I = "\<lambda>k (ep :: endpoint). ep_out ep = [] \<and> ep_mem ep = m k \<and> ep_in ep = feed (concat (map msgs [k..<n])) rest"
  have "\<exists>ep' evs. ep_run (for_batches body 0 n) ep = Some (Inr (), ep', evs) \<and> ?I n ep' \<and>
      comm evs = concat (map C [0..<n])"
  proof (rule for_batches_run [where I = ?I])
    show "?I 0 ep"
      using out mem ins by simp
    fix k and e :: endpoint
    assume k: "k < n" and I: "?I k e"
    then have "ep_in e = feed (msgs k) (feed (concat (map msgs [Suc k..<n])) rest)"
      by (simp add: upt_conv_Cons)
    with body [OF k] I show "\<exists>ep' evs. ep_run (body k) e = Some (Inr (), ep', evs) \<and> ?I (Suc k) ep' \<and> comm evs = C k"
      by blast
  qed simp
  then show ?thesis by auto
qed

text \<open>
  All batches of a step, for either phase: \<open>M p\<close> is the memory when \<open>p\<close> bytes of the incoming
  block \<open>D\<close> are handled, \<open>S\<close> is the outgoing block.
\<close>

definition step_length :: "nat \<Rightarrow> nat \<Rightarrow> ring_collective_config \<Rightarrow> nat \<Rightarrow> nat \<Rightarrow> nat \<Rightarrow> nat" where
  "step_length P count cfg sz sb b =
     (let pe = piece_elements_for cfg sz in
      batches (max_inflight cfg) (max (pieces (block_count count P sb) pe) (pieces (block_count count P b) pe)))"

lemma step_run:
  fixes P count sz s :: nat and cfg :: ring_collective_config
  defines "c \<equiv> block_count count P" and "cap \<equiv> max_inflight cfg" and "pe \<equiv> piece_elements_for cfg sz"
    and "n \<equiv> step_batches P count sz cfg"
  assumes sizes: "ring_setup P count sz cfg" and out: "ep_out ep = []" and mem: "ep_mem ep = M 0"
    and ins: "ep_in ep = feed (step_messages sq phase s (c b) pe sz cap n D) rest"
    and body: "\<And>k e rest'. k * cap + cap < size_modulus \<Longrightarrow> ep_out e = [] \<Longrightarrow> ep_mem e = M (progress (c b) pe sz (k * cap)) \<Longrightarrow>
      ep_in e = feed (batch_messages sq phase s (c b) pe sz cap D k) rest' \<Longrightarrow>
      \<exists>ep' evs. ep_run (batch k) e = Some (Inr (), ep', evs) \<and> ep_out ep' = [] \<and>
        ep_mem ep' = M (progress (c b) pe sz (Suc k * cap)) \<and> ep_in ep' = rest' \<and>
        comm evs = sent_events (batch_messages sq phase s (c sb) pe sz cap S k) @
          received_events (batch_messages sq phase s (c b) pe sz cap D k)"
  shows "\<exists>ep' evs. ep_run (for_batches batch 0 (step_length P count cfg sz sb b)) ep = Some (Inr (), ep', evs) \<and>
    ep_out ep' = [] \<and> ep_mem ep' = M (c b * sz) \<and> ep_in ep' = rest \<and>
    comm evs = step_events sq phase s pe sz cap (c sb) S (c b) D n"
proof -
  have cap: "0 < cap" and pe0: "0 < pe" and pe: "pe = piece_elements_for cfg sz"
    using sizes by (simp_all add: ring_setup_def cap_def pe_def)
  let ?n = "step_length P count cfg sz sb b"
  have n: "?n = batches cap (max (pieces (c sb) pe) (pieces (c b) pe))"
    by (simp add: step_length_def c_def cap_def pe_def Let_def)
  note nb = setup_batches [where b = sb and b' = b, OF sizes pe, folded c_def cap_def n_def, folded n]
  have less: "batches cap (pieces (c b) pe) \<le> ?n" "batches cap (pieces (c sb) pe) \<le> ?n"
    by (simp_all add: n batches_mono)
  let ?msgs = "batch_messages sq phase s (c b) pe sz cap D"
  let ?C = "\<lambda>k. sent_events (batch_messages sq phase s (c sb) pe sz cap S k) @ received_events (?msgs k)"
  have "\<exists>ep' evs. ep_run (for_batches batch 0 ?n) ep = Some (Inr (), ep', evs) \<and> ep_out ep' = [] \<and>
      ep_mem ep' = M (progress (c b) pe sz (?n * cap)) \<and> ep_in ep' = rest \<and> comm evs = concat (map ?C [0..<?n])"
  proof (rule batches_run [where m = "\<lambda>k. M (progress (c b) pe sz (k * cap))" and msgs = ?msgs])
    show "ep_in ep = feed (concat (map ?msgs [0..<?n])) rest"
      using ins step_messages_more [OF cap less(1) nb(2)] by (simp add: step_messages_def)
  qed (use out mem progress_simps(1) [OF pe0] body nb(3) in simp_all)
  moreover have "progress (c b) pe sz (?n * cap) = c b * sz"
    by (rule progress_past [OF pe0 batches_done [OF cap less(1)]])
  ultimately show ?thesis
    using step_events_more [OF cap less(2,1) nb(2)] by (simp add: step_events_def)
qed

section \<open>A step of Reduce-Scatter\<close>

lemma rs_step_eq:
  assumes sizes: "ring_setup P count sz (config ctx)" and ctx: "context_at P r count ctx" and s: "Suc s < P"
  shows "rs_step ctx workbuf sz (piece_elements_for (config ctx) sz) dt oper (int s) =
    for_batches (rs_batch ctx workbuf sz (piece_elements_for (config ctx) sz) dt oper (int s)
        (int (ring_back P r s)) (int (ring_back P r (Suc s)))) 0
      (step_length P count (config ctx) sz (ring_back P r s) (ring_back P r (Suc s)))"
proof -
  have P: "0 < P" "r < P" "world_size ctx = int P" "rank ctx = int r"
    using sizes ctx by (simp_all add: ring_setup_def context_at_def)
  have bs: "ring_back P r s < P" "ring_back P r (Suc s) < P"
    using P by simp_all
  have "positive_mod (int r - int s) (int P) = int (ring_back P r s)"
      "positive_mod (int r - int s - 1) (int P) = int (ring_back P r (Suc s))"
    using positive_mod_back [of s P r] positive_mod_back [of "Suc s" P r] s P
    by (simp_all add: diff_diff_add add.commute)
  then show ?thesis
    using setup_batches(1) [OF sizes refl] setup_piece_count [OF sizes bs(1)] setup_piece_count [OF sizes bs(2)]
    by (simp add: rs_step_def P context_layout(1) [OF ctx bs(1)] context_layout(1) [OF ctx bs(2)] Let_def step_length_def
        del: nat_int)
qed

lemma rs_step_run:
  fixes r s P count :: nat and ctx :: ring_collective_context and dt :: DATATYPE
  defines "c \<equiv> block_count count P" and "sb \<equiv> ring_back P r s" and "b \<equiv> ring_back P r (Suc s)"
    and "sz \<equiv> datatype_size dt" and "tb \<equiv> temporary_buffer ctx" and "cap \<equiv> max_inflight (config ctx)"
  defines "pe \<equiv> piece_elements_for (config ctx) sz" and "sq \<equiv> sequence ctx"
    and "n \<equiv> step_batches P count sz (config ctx)"
  assumes sizes: "ring_setup P count sz (config ctx)" and ctx: "context_at P r count ctx" and s: "Suc s < P"
    and op: "byte_op dt oper = Some g"
    and ok: "block_bytes_ok P c sz B" and D: "length D = c b * sz" and T0: "c b * sz \<le> length T0" and rb: "rb \<noteq> tb"
    and out: "ep_out ep = []" and mem: "ep_mem ep = m0(rb \<mapsto> joined B P, tb \<mapsto> T0)"
    and ins: "ep_in ep = feed (step_messages sq ReduceScatter s (c b) pe sz cap n D) rest"
  shows "\<exists>ep' evs T. ep_run (rs_step ctx (Ptr rb 0) sz pe dt oper (int s)) ep = Some (Inr (), ep', evs) \<and>
    ep_out ep' = [] \<and> ep_mem ep' = m0(rb \<mapsto> joined (B(b := reduce_bytes sz g (c b) (B b) D)) P, tb \<mapsto> T) \<and>
    length T = length T0 \<and> ep_in ep' = rest \<and>
    comm evs = step_events sq ReduceScatter s pe sz cap (c sb) (B sb) (c b) D n"
proof -
  let ?new = "reduce_bytes sz g (c b) (B b) D" and ?T = "mix (c b * sz) D T0"
  let ?M = "rs_memory m0 rb tb P B b ?new D T0"
  have b: "b < P"
    using ctx by (simp add: context_at_def b_def)
  have start: "ep_mem ep = ?M 0"
    by (simp add: mem rs_memory_def)
  have "\<exists>ep' evs. ep_run (rs_step ctx (Ptr rb 0) sz pe dt oper (int s)) ep = Some (Inr (), ep', evs) \<and>
      ep_out ep' = [] \<and> ep_mem ep' = ?M (c b * sz) \<and> ep_in ep' = rest \<and>
      comm evs = step_events sq ReduceScatter s pe sz cap (c sb) (B sb) (c b) D n"
    unfolding rs_step_eq [OF sizes ctx s, folded pe_def sb_def b_def]
  proof (rule step_run [where M = ?M and P = P and count = count and sz = sz and cfg = "config ctx",
        folded pe_def, folded c_def cap_def n_def, OF sizes out start ins])
    fix k and e :: endpoint and rest'
    assume k: "k * cap + cap < size_modulus" and e: "ep_out e = []" "ep_mem e = ?M (progress (c b) pe sz (k * cap))"
      "ep_in e = feed (batch_messages sq ReduceScatter s (c b) pe sz cap D k) rest'"
    show "\<exists>ep' evs. ep_run (rs_batch ctx (Ptr rb 0) sz pe dt oper (int s) (int sb) (int b) k) e = Some (Inr (), ep', evs) \<and>
        ep_out ep' = [] \<and> ep_mem ep' = ?M (progress (c b) pe sz (Suc k * cap)) \<and> ep_in ep' = rest' \<and>
        comm evs = sent_events (batch_messages sq ReduceScatter s (c sb) pe sz cap (B sb) k) @
          received_events (batch_messages sq ReduceScatter s (c b) pe sz cap D k)"
      using rs_batch_run [OF sizes [unfolded sz_def] ctx s op, folded sz_def, folded c_def b_def sb_def tb_def cap_def, folded pe_def sq_def,
          OF k ok D T0 rb refl e] .
  qed
  moreover have "?M (c b * sz) = m0(rb \<mapsto> joined (B(b := ?new)) P, tb \<mapsto> ?T)"
    using block_bytes_okD [OF ok b] byte_op_length [OF op] by (simp add: rs_memory_def mix_full length_reduce_bytes sz_def)
  moreover have "length ?T = length T0"
    using D T0 by simp
  ultimately show ?thesis by metis
qed

section \<open>A step of All-Gather\<close>

text \<open>All-Gather counts positions from the next rank on: the block a rank owns is that one.\<close>

lemma ring_back_Suc_rank:
  assumes "r < P" and "d \<le> P"
  shows "ring_back P (Suc r) d = ring_back P (next_rank P r) d"
proof (cases "Suc r = P")
  case True
  then have "ring_back P (Suc r) d = (P - d + P) mod P" "next_rank P r = 0"
    using assms by (simp_all add: ring_back_def next_rank_def)
  then show ?thesis by (simp add: ring_back_def)
next
  case False
  with assms show ?thesis by (simp add: next_rank_def)
qed

lemma ag_step_eq:
  assumes sizes: "ring_setup P count sz (config ctx)" and ctx: "context_at P r count ctx" and s: "Suc s < P"
  shows "ag_step ctx workbuf sz (piece_elements_for (config ctx) sz) (int s) =
    for_batches (ag_batch ctx workbuf sz (piece_elements_for (config ctx) sz) (int s)
        (int (ring_back P (next_rank P r) s)) (int (ring_back P (next_rank P r) (Suc s)))) 0
      (step_length P count (config ctx) sz (ring_back P (next_rank P r) s) (ring_back P (next_rank P r) (Suc s)))"
proof -
  have P: "0 < P" "r < P" "world_size ctx = int P" "rank ctx = int r"
    using sizes ctx by (simp_all add: ring_setup_def context_at_def)
  have bs: "ring_back P (next_rank P r) s < P" "ring_back P (next_rank P r) (Suc s) < P"
    using P by simp_all
  have "positive_mod (int r - int s + 1) (int P) = int (ring_back P (next_rank P r) s)"
      "positive_mod (int r - int s) (int P) = int (ring_back P (next_rank P r) (Suc s))"
    using positive_mod_back [of s P "Suc r"] positive_mod_back [of "Suc s" P "Suc r"] s P
    by (simp_all add: ring_back_Suc_rank add_diff_eq [symmetric] add.commute)
  then show ?thesis
    using setup_batches(1) [OF sizes refl] setup_piece_count [OF sizes bs(1)] setup_piece_count [OF sizes bs(2)]
    by (simp add: ag_step_def P context_layout(1) [OF ctx bs(1)] context_layout(1) [OF ctx bs(2)] Let_def step_length_def
        del: nat_int)
qed

lemma ag_step_run:
  fixes r s P count sz :: nat and ctx :: ring_collective_context
  defines "c \<equiv> block_count count P" and "sb \<equiv> ring_back P (next_rank P r) s" and "b \<equiv> ring_back P (next_rank P r) (Suc s)"
    and "cap \<equiv> max_inflight (config ctx)"
  defines "pe \<equiv> piece_elements_for (config ctx) sz" and "sq \<equiv> sequence ctx"
    and "n \<equiv> step_batches P count sz (config ctx)"
  assumes sizes: "ring_setup P count sz (config ctx)" and ctx: "context_at P r count ctx" and s: "Suc s < P"
    and ok: "block_bytes_ok P c sz B" and D: "length D = c b * sz"
    and out: "ep_out ep = []" and mem: "ep_mem ep = m0(rb \<mapsto> joined B P)"
    and ins: "ep_in ep = feed (step_messages sq AllGather s (c b) pe sz cap n D) rest"
  shows "\<exists>ep' evs. ep_run (ag_step ctx (Ptr rb 0) sz pe (int s)) ep = Some (Inr (), ep', evs) \<and>
    ep_out ep' = [] \<and> ep_mem ep' = m0(rb \<mapsto> joined (B(b := D)) P) \<and> ep_in ep' = rest \<and>
    comm evs = step_events sq AllGather s pe sz cap (c sb) (B sb) (c b) D n"
proof -
  let ?M = "ag_memory m0 rb P B b D"
  have P: "r < P" "0 < P"
    using ctx by (auto simp: context_at_def)
  then have bs: "b < P" "sb < P" and ne: "sb \<noteq> b"
    using ring_back_back [of "next_rank P r" P s] ring_back_back [of "next_rank P r" P "Suc s"] s
    by (auto simp: sb_def b_def)
  have start: "ep_mem ep = ?M 0"
    by (simp add: mem ag_memory_def)
  have "\<exists>ep' evs. ep_run (ag_step ctx (Ptr rb 0) sz pe (int s)) ep = Some (Inr (), ep', evs) \<and>
      ep_out ep' = [] \<and> ep_mem ep' = ?M (c b * sz) \<and> ep_in ep' = rest \<and>
      comm evs = step_events sq AllGather s pe sz cap (c sb) (B sb) (c b) D n"
    unfolding ag_step_eq [OF sizes ctx s, folded pe_def sb_def b_def]
  proof (rule step_run [where M = ?M and P = P and count = count and sz = sz and cfg = "config ctx",
        folded pe_def, folded c_def cap_def n_def, OF sizes out start ins])
    fix k and e :: endpoint and rest'
    assume k: "k * cap + cap < size_modulus" and e: "ep_out e = []" "ep_mem e = ?M (progress (c b) pe sz (k * cap))"
      "ep_in e = feed (batch_messages sq AllGather s (c b) pe sz cap D k) rest'"
    show "\<exists>ep' evs. ep_run (ag_batch ctx (Ptr rb 0) sz pe (int s) (int sb) (int b) k) e = Some (Inr (), ep', evs) \<and>
        ep_out ep' = [] \<and> ep_mem ep' = ?M (progress (c b) pe sz (Suc k * cap)) \<and> ep_in ep' = rest' \<and>
        comm evs = sent_events (batch_messages sq AllGather s (c sb) pe sz cap (B sb) k) @
          received_events (batch_messages sq AllGather s (c b) pe sz cap D k)"
      using ag_batch_run [OF sizes ctx s bs ne, folded c_def cap_def, folded pe_def sq_def, OF k ok D e] .
  qed
  moreover have "?M (c b * sz) = m0(rb \<mapsto> joined (B(b := D)) P)"
    using block_bytes_okD [OF ok bs(1)] by (simp add: ag_memory_def mix_full D)
  ultimately show ?thesis by metis
qed

end
