(* ===== verification/Ring_Local.thy ===== *)
theory Ring_Local
  imports Ring_Steps
begin

text \<open>
  The three collectives on the contract endpoint of one rank: which blocks a rank holds after
  every step, the messages of every round, and what the routines return.
\<close>

section \<open>The blocks on the ring\<close>

text \<open>
  \<open>X r b\<close> is block \<open>b\<close> of rank \<open>r\<close>'s input. Block \<open>b\<close> starts at rank \<open>b\<close> and every
  rank it comes to reduces its own block into it; \<open>partial_block b s\<close> is what it is after
  \<open>s\<close> of them.
\<close>

primrec partial_block :: "nat \<Rightarrow> (nat \<Rightarrow> nat) \<Rightarrow> nat \<Rightarrow> (bytes \<Rightarrow> bytes \<Rightarrow> bytes) \<Rightarrow> (nat \<Rightarrow> nat \<Rightarrow> bytes) \<Rightarrow>
    nat \<Rightarrow> nat \<Rightarrow> bytes" where
  "partial_block P c sz g X b 0 = X b b"
| "partial_block P c sz g X b (Suc s) =
     reduce_bytes sz g (c b) (X ((b + Suc s) mod P) b) (partial_block P c sz g X b s)"

definition reduced_block :: "nat \<Rightarrow> (nat \<Rightarrow> nat) \<Rightarrow> nat \<Rightarrow> (bytes \<Rightarrow> bytes \<Rightarrow> bytes) \<Rightarrow> (nat \<Rightarrow> nat \<Rightarrow> bytes) \<Rightarrow>
    nat \<Rightarrow> bytes" where
  "reduced_block P c sz g X b = partial_block P c sz g X b (P - 1)"

text \<open>The blocks of rank \<open>r\<close> before step \<open>s\<close> of Reduce-Scatter and of All-Gather.\<close>

definition rs_blocks :: "nat \<Rightarrow> (nat \<Rightarrow> nat) \<Rightarrow> nat \<Rightarrow> (bytes \<Rightarrow> bytes \<Rightarrow> bytes) \<Rightarrow> (nat \<Rightarrow> nat \<Rightarrow> bytes) \<Rightarrow>
    nat \<Rightarrow> nat \<Rightarrow> nat \<Rightarrow> bytes" where
  "rs_blocks P c sz g X r s b =
     (if ring_back P r b \<le> s then partial_block P c sz g X b (ring_back P r b) else X r b)"

definition ag_blocks :: "nat \<Rightarrow> (nat \<Rightarrow> bytes) \<Rightarrow> (nat \<Rightarrow> bytes) \<Rightarrow> nat \<Rightarrow> nat \<Rightarrow> nat \<Rightarrow> bytes" where
  "ag_blocks P F B r s b = (if ring_back P (next_rank P r) b \<le> s then F b else B b)"

lemma ring_forward: "r < P \<Longrightarrow> d \<le> P \<Longrightarrow> (ring_back P r d + d) mod P = r"
proof -
  assume "r < P" "d \<le> P"
  then have "(ring_back P r d + d) mod P = (r + P - d + d) mod P"
    unfolding ring_back_def by (simp only: mod_add_left_eq)
  with \<open>r < P\<close> \<open>d \<le> P\<close> show ?thesis by simp
qed

lemma ring_back_self: "r < P \<Longrightarrow> ring_back P r r = 0"
  by (simp add: ring_back_def)

lemma length_partial_block:
  assumes X: "\<And>r. r < P \<Longrightarrow> length (X r b) = c b * sz" and "\<And>x y. length (g x y) = sz" and "b < P"
  shows "length (partial_block P c sz g X b s) = c b * sz"
  using assms by (cases s) (simp_all add: length_reduce_bytes)

lemma rs_blocks_ok:
  assumes "\<And>r b. r < P \<Longrightarrow> b < P \<Longrightarrow> length (X r b) = c b * sz" and "\<And>x y. length (g x y) = sz" and "r < P"
  shows "block_bytes_ok P c sz (rs_blocks P c sz g X r s)"
  using assms by (auto simp: block_bytes_ok_def rs_blocks_def length_partial_block)

lemma rs_blocks_0: "r < P \<Longrightarrow> b < P \<Longrightarrow> rs_blocks P c sz g X r 0 b = X r b"
  using ring_back_eq_iff [of r P b 0] by (auto simp: rs_blocks_def)

lemma rs_blocks_sent: "r < P \<Longrightarrow> s < P \<Longrightarrow>
    rs_blocks P c sz g X r s (ring_back P r s) = partial_block P c sz g X (ring_back P r s) s"
  by (simp add: rs_blocks_def ring_back_back)

lemma rs_blocks_Suc:
  assumes "r < P" and "Suc s < P" and "b < P"
  shows "((rs_blocks P c sz g X r s)(ring_back P r (Suc s) := reduce_bytes sz g (c (ring_back P r (Suc s)))
      (rs_blocks P c sz g X r s (ring_back P r (Suc s))) (partial_block P c sz g X (ring_back P r (Suc s)) s))) b =
    rs_blocks P c sz g X r (Suc s) b"
proof (cases "b = ring_back P r (Suc s)")
  case True
  then have "ring_back P r b = Suc s"
    using assms by (simp add: ring_back_back)
  with True assms show ?thesis
    using ring_forward [of r P "Suc s"] by (simp add: rs_blocks_def)
next
  case False
  then have "ring_back P r b \<noteq> Suc s"
    using ring_back_eq_iff [of r P b "Suc s"] assms by auto
  with False show ?thesis
    by (auto simp: rs_blocks_def le_Suc_eq)
qed

lemma rs_blocks_last: "0 < P \<Longrightarrow> r < P \<Longrightarrow>
    rs_blocks P c sz g X r (P - 1) (next_rank P r) = reduced_block P c sz g X (next_rank P r)"
proof -
  assume P: "0 < P" "r < P"
  then have "ring_back P r (next_rank P r) = P - 1"
    by (auto simp: ring_back_def next_rank_def mod_if)
  then show ?thesis
    by (simp add: rs_blocks_def reduced_block_def)
qed

lemma ag_blocks_0:
  assumes "r < P" and "b < P" and "B (next_rank P r) = F (next_rank P r)"
  shows "ag_blocks P F B r 0 b = B b"
  using ring_back_eq_iff [of "next_rank P r" P b 0] assms by (auto simp: ag_blocks_def)

lemma ag_blocks_sent: "r < P \<Longrightarrow> s < P \<Longrightarrow>
    ag_blocks P F B r s (ring_back P (next_rank P r) s) = F (ring_back P (next_rank P r) s)"
  by (simp add: ag_blocks_def ring_back_back)

lemma ag_blocks_Suc:
  assumes "r < P" and "Suc s < P" and "b < P"
  shows "((ag_blocks P F B r s)(ring_back P (next_rank P r) (Suc s) := F (ring_back P (next_rank P r) (Suc s)))) b =
    ag_blocks P F B r (Suc s) b"
proof (cases "b = ring_back P (next_rank P r) (Suc s)")
  case True
  with assms show ?thesis by (simp add: ag_blocks_def ring_back_back)
next
  case False
  then have "ring_back P (next_rank P r) b \<noteq> Suc s"
    using ring_back_eq_iff [of "next_rank P r" P b "Suc s"] assms by auto
  with False show ?thesis
    by (auto simp: ag_blocks_def le_Suc_eq)
qed

lemma ag_blocks_last: "r < P \<Longrightarrow> b < P \<Longrightarrow> ag_blocks P F B r (P - 1) b = F b"
proof -
  assume "r < P" "b < P"
  then have "ring_back P (next_rank P r) b < P" by simp
  then have "ring_back P (next_rank P r) b \<le> P - 1" by linarith
  then show ?thesis by (simp add: ag_blocks_def)
qed

section \<open>Reduce-Scatter\<close>

text \<open>The messages rank \<open>r\<close> sends in step \<open>s\<close>.\<close>

definition rs_sends :: "nat \<Rightarrow> nat \<Rightarrow> nat \<Rightarrow> (bytes \<Rightarrow> bytes \<Rightarrow> bytes) \<Rightarrow> (nat \<Rightarrow> nat \<Rightarrow> bytes) \<Rightarrow> 32 word \<Rightarrow>
    ring_collective_config \<Rightarrow> nat \<Rightarrow> nat \<Rightarrow> nat \<Rightarrow> (pg_tag \<times> bytes) list" where
  "rs_sends P count sz g X sq cfg r s k =
     (let b = ring_back P r s; c = block_count count P in
      batch_messages sq ReduceScatter s (c b) (piece_elements_for cfg sz) sz (max_inflight cfg)
        (partial_block P c sz g X b s) k)"

definition ag_sends :: "nat \<Rightarrow> nat \<Rightarrow> nat \<Rightarrow> (nat \<Rightarrow> bytes) \<Rightarrow> 32 word \<Rightarrow>
    ring_collective_config \<Rightarrow> nat \<Rightarrow> nat \<Rightarrow> nat \<Rightarrow> (pg_tag \<times> bytes) list" where
  "ag_sends P count sz F sq cfg r s k =
     (let b = ring_back P (next_rank P r) s; c = block_count count P in
      batch_messages sq AllGather s (c b) (piece_elements_for cfg sz) sz (max_inflight cfg) (F b) k)"

text \<open>One phase as rounds: what \<open>sends\<close> says a rank sends in each batch of each step.\<close>

definition step_trace :: "(nat \<Rightarrow> nat \<Rightarrow> nat \<Rightarrow> (pg_tag \<times> bytes) list) \<Rightarrow> nat \<Rightarrow> nat \<Rightarrow> nat \<Rightarrow> nat \<Rightarrow> event list" where
  "step_trace sends P n r s =
     concat (map (\<lambda>k. sent_events (sends r s k) @ received_events (sends (prev_rank P r) s k)) [0..<n])"

definition phase_inputs :: "(nat \<Rightarrow> nat \<Rightarrow> nat \<Rightarrow> (pg_tag \<times> bytes) list) \<Rightarrow> nat \<Rightarrow> nat \<Rightarrow> nat \<Rightarrow> nat \<Rightarrow>
    (pg_tag \<times> bytes) list" where
  "phase_inputs sends P n r s0 =
     concat (map (\<lambda>s. concat (map (sends (prev_rank P r) s) [0..<n])) [s0..<P - 1])"

text \<open>
  Steps that each take the previous rank's messages; \<open>J s\<close> is what is known of the memory
  before step \<open>s\<close>.
\<close>

lemma phase_run:
  assumes out: "ep_out ep = []" and mem: "J 0 (ep_mem ep)" and ins: "ep_in ep = feed (phase_inputs sends P n r 0) rest"
    and step: "\<And>s ep rest. Suc s < P \<Longrightarrow> ep_out ep = [] \<Longrightarrow> J s (ep_mem ep) \<Longrightarrow>
      ep_in ep = feed (concat (map (sends (prev_rank P r) s) [0..<n])) rest \<Longrightarrow>
      \<exists>ep' evs. ep_run (body (int s)) ep = Some (Inr (), ep', evs) \<and> ep_out ep' = [] \<and> J (Suc s) (ep_mem ep') \<and>
        ep_in ep' = rest \<and> comm evs = step_trace sends P n r s"
    and P: "0 < P"
  shows "\<exists>ep' evs. ep_run (for_steps body 0 (int P - 1)) ep = Some (Inr (), ep', evs) \<and> ep_out ep' = [] \<and>
    J (P - 1) (ep_mem ep') \<and> ep_in ep' = rest \<and> comm evs = concat (map (step_trace sends P n r) [0..<P - 1])"
proof -
  let ?I = "\<lambda>s (ep :: endpoint). ep_out ep = [] \<and> J s (ep_mem ep) \<and> ep_in ep = feed (phase_inputs sends P n r s) rest"
  have "\<exists>ep' evs. ep_run (for_steps body (int 0) (int (P - 1))) ep = Some (Inr (), ep', evs) \<and> ?I (P - 1) ep' \<and>
      comm evs = concat (map (step_trace sends P n r) [0..<P - 1])"
  proof (rule for_steps_run [where I = ?I])
    show "?I 0 ep"
      using out mem ins by simp
    fix s and e :: endpoint
    assume s: "s < P - 1" and I: "?I s e"
    then have "ep_in e = feed (concat (map (sends (prev_rank P r) s) [0..<n])) (feed (phase_inputs sends P n r (Suc s)) rest)"
      by (simp add: phase_inputs_def upt_conv_Cons)
    with step [of s e] I s show "\<exists>ep' evs. ep_run (body (int s)) e = Some (Inr (), ep', evs) \<and> ?I (Suc s) ep' \<and>
        comm evs = step_trace sends P n r s"
      by fastforce
  qed simp
  moreover have "int (P - 1) = int P - 1"
    using P by simp
  ultimately show ?thesis
    by (auto simp: phase_inputs_def)
qed

text \<open>One step of Reduce-Scatter takes the blocks of rank \<open>r\<close> to those of the next step.\<close>

lemma rs_phase_step:
  fixes r P count :: nat and ctx :: ring_collective_context and dt :: DATATYPE
    and g :: "bytes \<Rightarrow> bytes \<Rightarrow> bytes" and X :: "nat \<Rightarrow> nat \<Rightarrow> bytes"
  defines "c \<equiv> block_count count P" and "sz \<equiv> datatype_size dt" and "tb \<equiv> temporary_buffer ctx"
  defines "n \<equiv> step_batches P count sz (config ctx)"
  defines "sends \<equiv> rs_sends P count sz g X (sequence ctx) (config ctx)"
  assumes sizes: "ring_setup P count sz (config ctx)" and ctx: "context_at P r count ctx"
    and op: "byte_op dt oper = Some g" and X: "\<And>r b. r < P \<Longrightarrow> b < P \<Longrightarrow> length (X r b) = c b * sz"
    and T: "\<And>b. b < P \<Longrightarrow> c b * sz \<le> length T" and rb: "rb \<noteq> tb" and s: "Suc s < P"
    and out: "ep_out ep = []" and mem: "ep_mem ep = m0(rb \<mapsto> joined (rs_blocks P c sz g X r s) P, tb \<mapsto> T)"
    and ins: "ep_in ep = feed (concat (map (sends (prev_rank P r) s) [0..<n])) rest"
  shows "\<exists>ep' evs T'. ep_run (rs_step ctx (Ptr rb 0) sz (piece_elements_for (config ctx) sz) dt oper (int s)) ep =
      Some (Inr (), ep', evs) \<and> ep_out ep' = [] \<and>
    ep_mem ep' = m0(rb \<mapsto> joined (rs_blocks P c sz g X r (Suc s)) P, tb \<mapsto> T') \<and> length T' = length T \<and>
    ep_in ep' = rest \<and> comm evs = step_trace sends P n r s"
proof -
  let ?R = "rs_blocks P c sz g X r" and ?b = "ring_back P r (Suc s)" and ?sb = "ring_back P r s"
  let ?D = "partial_block P c sz g X ?b s" and ?pe = "piece_elements_for (config ctx) sz"
  have P: "0 < P" "r < P"
    using sizes ctx by (simp_all add: ring_setup_def context_at_def)
  have len: "length (g x y) = sz" for x y
    using byte_op_length [OF op] by (simp add: sz_def)
  have b: "?b < P" using P by simp
  have prev: "ring_back P (prev_rank P r) s = ?b"
    using ring_back_Suc [OF P(2) s] by simp
  have D: "length ?D = c ?b * sz"
    by (rule length_partial_block) (use X len b in auto)
  have ok: "block_bytes_ok P c sz (?R s)"
    by (rule rs_blocks_ok) (use X len P in auto)
  have ins': "ep_in ep = feed (step_messages (sequence ctx) ReduceScatter s (c ?b) ?pe sz (max_inflight (config ctx)) n ?D) rest"
    by (simp add: ins step_messages_def sends_def rs_sends_def prev Let_def c_def cong: map_cong)
  from rs_step_run [OF sizes [unfolded sz_def] ctx s op, folded sz_def, folded c_def tb_def n_def, OF ok D T [OF b] rb out mem ins']
  obtain ep' evs T' where run: "ep_run (rs_step ctx (Ptr rb 0) sz ?pe dt oper (int s)) ep = Some (Inr (), ep', evs)"
    and o: "ep_out ep' = []" "ep_mem ep' = m0(rb \<mapsto> joined ((?R s)(?b := reduce_bytes sz g (c ?b) (?R s ?b) ?D)) P, tb \<mapsto> T')"
      "length T' = length T" "ep_in ep' = rest"
    and evs: "comm evs = step_events (sequence ctx) ReduceScatter s ?pe sz (max_inflight (config ctx)) (c ?sb) (?R s ?sb) (c ?b) ?D n"
    by blast
  have "joined ((?R s)(?b := reduce_bytes sz g (c ?b) (?R s ?b) ?D)) P = joined (?R (Suc s)) P"
    by (rule joined_cong) (rule rs_blocks_Suc [OF P(2) s])
  moreover have "comm evs = step_trace sends P n r s"
    using s by (simp add: evs step_events_def step_trace_def sends_def rs_sends_def prev Let_def c_def rs_blocks_sent P)
  ultimately show ?thesis
    using run o by metis
qed

text \<open>The steps of Reduce-Scatter take rank \<open>r\<close> from its input to the blocks of the last step.\<close>

lemma rs_phase_run:
  fixes r P count :: nat and ctx :: ring_collective_context and dt :: DATATYPE
    and g :: "bytes \<Rightarrow> bytes \<Rightarrow> bytes" and X :: "nat \<Rightarrow> nat \<Rightarrow> bytes"
  defines "c \<equiv> block_count count P" and "sz \<equiv> datatype_size dt" and "tb \<equiv> temporary_buffer ctx"
  defines "n \<equiv> step_batches P count sz (config ctx)"
  defines "sends \<equiv> rs_sends P count sz g X (sequence ctx) (config ctx)"
  assumes sizes: "ring_setup P count sz (config ctx)" and ctx: "context_at P r count ctx"
    and op: "byte_op dt oper = Some g" and X: "\<And>r b. r < P \<Longrightarrow> b < P \<Longrightarrow> length (X r b) = c b * sz"
    and T: "\<And>b. b < P \<Longrightarrow> c b * sz \<le> length T" and rb: "rb \<noteq> tb"
    and out: "ep_out ep = []" and mem: "ep_mem ep = m0(rb \<mapsto> joined (X r) P, tb \<mapsto> T)"
    and ins: "ep_in ep = feed (phase_inputs sends P n r 0) rest"
  shows "\<exists>ep' evs T'. ep_run (for_steps (rs_step ctx (Ptr rb 0) sz (piece_elements_for (config ctx) sz) dt oper) 0 (int P - 1)) ep =
      Some (Inr (), ep', evs) \<and> ep_out ep' = [] \<and>
    ep_mem ep' = m0(rb \<mapsto> joined (rs_blocks P c sz g X r (P - 1)) P, tb \<mapsto> T') \<and> ep_in ep' = rest \<and>
    comm evs = concat (map (step_trace sends P n r) [0..<P - 1])"
proof -
  have P: "0 < P" "r < P"
    using sizes ctx by (simp_all add: ring_setup_def context_at_def)
  let ?J = "\<lambda>s mem. \<exists>T'. mem = m0(rb \<mapsto> joined (rs_blocks P c sz g X r s) P, tb \<mapsto> T') \<and> length T' = length T"
  have "\<exists>ep' evs. ep_run (for_steps (rs_step ctx (Ptr rb 0) sz (piece_elements_for (config ctx) sz) dt oper) 0 (int P - 1)) ep =
      Some (Inr (), ep', evs) \<and> ep_out ep' = [] \<and> ?J (P - 1) (ep_mem ep') \<and> ep_in ep' = rest \<and>
      comm evs = concat (map (step_trace sends P n r) [0..<P - 1])"
  proof (rule phase_run [where J = ?J, OF out _ ins _ P(1)])
    have "joined (rs_blocks P c sz g X r 0) P = joined (X r) P"
      by (rule joined_cong) (simp add: rs_blocks_0 P)
    then show "?J 0 (ep_mem ep)"
      by (auto simp: mem)
    fix s rest and e :: endpoint
    assume s: "Suc s < P" and e: "ep_out e = []" "?J s (ep_mem e)"
      and ins: "ep_in e = feed (concat (map (sends (prev_rank P r) s) [0..<n])) rest"
    obtain T' where T': "ep_mem e = m0(rb \<mapsto> joined (rs_blocks P c sz g X r s) P, tb \<mapsto> T')" "length T' = length T"
      using e(2) by blast
    have "c b * sz \<le> length T'" if "b < P" for b
      using T [OF that] T'(2) by simp
    from rs_phase_step [where P = P and count = count and dt = dt and ctx = ctx and g = g and X = X,
        folded sz_def, folded c_def tb_def n_def sends_def, OF sizes ctx op X this rb s e(1) T'(1) ins]
    show "\<exists>ep' evs. ep_run (rs_step ctx (Ptr rb 0) sz (piece_elements_for (config ctx) sz) dt oper (int s)) e = Some (Inr (), ep', evs) \<and>
        ep_out ep' = [] \<and> ?J (Suc s) (ep_mem ep') \<and> ep_in ep' = rest \<and> comm evs = step_trace sends P n r s"
      using T'(2) by fastforce
  qed
  then show ?thesis by blast
qed

section \<open>All-Gather\<close>

lemma ag_phase_step:
  fixes r P count sz :: nat and ctx :: ring_collective_context and F :: "nat \<Rightarrow> bytes"
  defines "c \<equiv> block_count count P"
  defines "n \<equiv> step_batches P count sz (config ctx)"
  defines "sends \<equiv> ag_sends P count sz F (sequence ctx) (config ctx)"
  assumes sizes: "ring_setup P count sz (config ctx)" and ctx: "context_at P r count ctx"
    and F: "\<And>b. b < P \<Longrightarrow> length (F b) = c b * sz" and ok: "block_bytes_ok P c sz B" and s: "Suc s < P"
    and out: "ep_out ep = []" and mem: "ep_mem ep = m0(rb \<mapsto> joined (ag_blocks P F B r s) P)"
    and ins: "ep_in ep = feed (concat (map (sends (prev_rank P r) s) [0..<n])) rest"
  shows "\<exists>ep' evs. ep_run (ag_step ctx (Ptr rb 0) sz (piece_elements_for (config ctx) sz) (int s)) ep = Some (Inr (), ep', evs) \<and>
    ep_out ep' = [] \<and> ep_mem ep' = m0(rb \<mapsto> joined (ag_blocks P F B r (Suc s)) P) \<and> ep_in ep' = rest \<and>
    comm evs = step_trace sends P n r s"
proof -
  let ?R = "ag_blocks P F B r" and ?b = "ring_back P (next_rank P r) (Suc s)" and ?sb = "ring_back P (next_rank P r) s"
  let ?pe = "piece_elements_for (config ctx) sz"
  have P: "0 < P" "r < P"
    using sizes ctx by (simp_all add: ring_setup_def context_at_def)
  have okR: "block_bytes_ok P c sz (?R s)"
    using F ok by (auto simp: block_bytes_ok_def ag_blocks_def)
  have b: "?b < P" using P by simp
  have prev: "ring_back P (next_rank P (prev_rank P r)) s = ?b"
    using ring_back_Suc [of "next_rank P r" P s] P s by simp
  have ins': "ep_in ep = feed (step_messages (sequence ctx) AllGather s (c ?b) ?pe sz (max_inflight (config ctx)) n (F ?b)) rest"
    by (simp only: ins step_messages_def sends_def ag_sends_def prev Let_def c_def cong: map_cong)
  from ag_step_run [OF sizes ctx s, folded c_def n_def, OF okR F [OF b] out mem ins']
  obtain ep' evs where run: "ep_run (ag_step ctx (Ptr rb 0) sz ?pe (int s)) ep = Some (Inr (), ep', evs)"
    and o: "ep_out ep' = []" "ep_mem ep' = m0(rb \<mapsto> joined ((?R s)(?b := F ?b)) P)" "ep_in ep' = rest"
    and evs: "comm evs = step_events (sequence ctx) AllGather s ?pe sz (max_inflight (config ctx)) (c ?sb) (?R s ?sb) (c ?b) (F ?b) n"
    by blast
  have "joined ((?R s)(?b := F ?b)) P = joined (?R (Suc s)) P"
    by (rule joined_cong) (rule ag_blocks_Suc [OF P(2) s])
  moreover have "comm evs = step_trace sends P n r s"
    using s P by (simp only: evs step_events_def step_trace_def sends_def ag_sends_def prev Let_def c_def ag_blocks_sent Suc_lessD)
  ultimately show ?thesis
    using run o by metis
qed

lemma ag_phase_run:
  fixes r P count sz :: nat and ctx :: ring_collective_context and F :: "nat \<Rightarrow> bytes"
  defines "c \<equiv> block_count count P"
  defines "n \<equiv> step_batches P count sz (config ctx)"
  defines "sends \<equiv> ag_sends P count sz F (sequence ctx) (config ctx)"
  assumes sizes: "ring_setup P count sz (config ctx)" and ctx: "context_at P r count ctx"
    and F: "\<And>b. b < P \<Longrightarrow> length (F b) = c b * sz" and ok: "block_bytes_ok P c sz B"
    and own: "B (next_rank P r) = F (next_rank P r)"
    and out: "ep_out ep = []" and mem: "ep_mem ep = m0(rb \<mapsto> joined B P)"
    and ins: "ep_in ep = feed (phase_inputs sends P n r 0) rest"
  shows "\<exists>ep' evs. ep_run (for_steps (ag_step ctx (Ptr rb 0) sz (piece_elements_for (config ctx) sz)) 0 (int P - 1)) ep =
      Some (Inr (), ep', evs) \<and> ep_out ep' = [] \<and> ep_mem ep' = m0(rb \<mapsto> joined F P) \<and> ep_in ep' = rest \<and>
    comm evs = concat (map (step_trace sends P n r) [0..<P - 1])"
proof -
  have P: "0 < P" "r < P"
    using sizes ctx by (simp_all add: ring_setup_def context_at_def)
  let ?J = "\<lambda>s mem. mem = m0(rb \<mapsto> joined (ag_blocks P F B r s) P)"
  have "joined (ag_blocks P F B r 0) P = joined B P"
    by (rule joined_cong) (use ag_blocks_0 [where B = B and F = F, OF P(2) _ own] in blast)
  then have start: "?J 0 (ep_mem ep)"
    by (simp add: mem)
  have "joined (ag_blocks P F B r (P - 1)) P = joined F P"
    by (rule joined_cong) (rule ag_blocks_last [OF P(2)])
  with phase_run [where J = ?J, OF out start ins _ P(1)]
      ag_phase_step [where P = P and count = count and sz = sz and ctx = ctx and F = F, folded c_def n_def sends_def, OF sizes ctx F ok]
  show ?thesis by auto
qed

section \<open>The routines\<close>

lemma fold_max_bounds:
  "a \<le> fold max xs (a :: nat)"
  "x \<in> set xs \<Longrightarrow> x \<le> fold max xs a"
  "(\<And>x. x \<in> set xs \<Longrightarrow> x \<le> N) \<Longrightarrow> a \<le> N \<Longrightarrow> fold max xs a \<le> N"
proof -
  show 1: "a \<le> fold max xs a" for a :: nat and xs
    by (induction xs arbitrary: a) (auto intro: order.trans [OF max.cobounded2])
  show "x \<in> set xs \<Longrightarrow> x \<le> fold max xs a"
  proof (induction xs arbitrary: a)
    case (Cons y ys)
    then show ?case using 1 [of "max y a" ys] by fastforce
  qed simp
  show "(\<And>x. x \<in> set xs \<Longrightarrow> x \<le> N) \<Longrightarrow> a \<le> N \<Longrightarrow> fold max xs a \<le> N"
    by (induction xs arbitrary: a) auto
qed

definition with_layout :: "nat \<Rightarrow> ring_collective_context \<Rightarrow> ring_collective_context" where
  "with_layout count ctx = ctx\<lparr>layout := snd (compute_block_layout count (world_size ctx) (layout ctx))\<rparr>"

lemma with_layout_simps [simp]:
  "config (with_layout count ctx) = config ctx" "sequence (with_layout count ctx) = sequence ctx"
  "rank (with_layout count ctx) = rank ctx" "world_size (with_layout count ctx) = world_size ctx"
  "temporary_buffer (with_layout count ctx) = temporary_buffer ctx" "transport (with_layout count ctx) = transport ctx"
  by (simp_all add: with_layout_def)

lemma with_layout_update: "ctx\<lparr>layout := layout (with_layout count ctx)\<rparr> = with_layout count ctx"
  by (simp add: with_layout_def)

lemma with_layout_context:
  assumes "ring_setup P count sz cfg" and "rank ctx = int r" and "world_size ctx = int P" and "r < P"
  shows "context_at P r count (with_layout count ctx)"
    and "compute_block_layout count (int P) (layout ctx) = (PG_SUCCESS, layout (with_layout count ctx))"
  using assms setup_count(3) [OF assms(1,4)]
  by (simp_all add: context_at_def with_layout_def compute_block_layout_eq)

lemma ring_reduce_scatter_run:
  fixes r P count :: nat and ctx :: ring_collective_context and dt :: DATATYPE
    and g :: "bytes \<Rightarrow> bytes \<Rightarrow> bytes" and X :: "nat \<Rightarrow> nat \<Rightarrow> bytes"
  defines "c \<equiv> block_count count P" and "sz \<equiv> datatype_size dt" and "tb \<equiv> temporary_buffer ctx"
  defines "n \<equiv> step_batches P count sz (config ctx)"
  defines "sends \<equiv> rs_sends P count sz g X (sequence ctx) (config ctx)"
  assumes sizes: "ring_setup P count sz (config ctx)" and ctx: "rank ctx = int r" "world_size ctx = int P" "r < P"
    and op: "byte_op dt oper = Some g" and X: "\<And>r b. r < P \<Longrightarrow> b < P \<Longrightarrow> length (X r b) = c b * sz"
    and rb: "rb \<noteq> tb" and out: "ep_out ep = []" and mem: "ep_mem ep = m0(rb \<mapsto> joined (X r) P, tb \<mapsto> T)"
    and ins: "ep_in ep = feed (phase_inputs sends P n r 0) rest"
  shows "\<exists>ep' evs T'. ep_run (ring_reduce_scatter_inplace (Some ctx) (Ptr rb 0) count dt oper (Some owned)) ep =
      Some ((PG_SUCCESS, Some (with_layout count ctx), Some (int (next_rank P r))), ep', evs) \<and> ep_out ep' = [] \<and>
    ep_mem ep' = m0(rb \<mapsto> joined (rs_blocks P c sz g X r (P - 1)) P, tb \<mapsto> T') \<and> ep_in ep' = rest \<and>
    comm evs = concat (map (step_trace sends P n r) [0..<P - 1])"
proof -
  note lay = with_layout_context [OF sizes ctx]
  have P: "0 < P" and sz0: "sz \<noteq> 0" and fits: "count * sz < size_modulus"
    using sizes by (simp_all add: ring_setup_def)
  let ?mx = "fold max (counts (layout (with_layout count ctx))) 0"
  have cnts: "counts (layout (with_layout count ctx)) = map c [0..<P]"
    using lay(1) by (simp add: context_at_def c_def)
  have "?mx \<le> count"
    unfolding cnts by (rule fold_max_bounds(3)) (use block_count_le [OF P] in \<open>auto simp: c_def\<close>)
  then have "?mx * sz \<le> count * sz"
    by (rule mult_le_mono1)
  then have mx: "size_mul ?mx sz = ?mx * sz"
    using fits by (intro size_mul_exact) linarith
  let ?T = "resize_bytes (?mx * sz) T" and ?ctx = "with_layout count ctx"
  have T: "c b * sz \<le> length ?T" if "b < P" for b
    using fold_max_bounds(2) [of "c b" "counts (layout ?ctx)" 0] that by (simp add: cnts)
  let ?ep = "ep\<lparr>ep_mem := m0(rb \<mapsto> joined (X r) P, tb \<mapsto> ?T)\<rparr>"
  have resize: "ep_run (call_resize tb (?mx * sz)) ep = Some ((), ?ep, [Silent])"
    using rb by (simp add: call_resize_def buffer_call_allowed_def out mem)
  obtain ep' evs T' where run: "ep_run (for_steps (rs_step ?ctx (Ptr rb 0) sz (piece_elements_for (config ctx) sz) dt oper) 0 (int P - 1)) ?ep =
      Some (Inr (), ep', evs)" and o: "ep_out ep' = []"
      "ep_mem ep' = m0(rb \<mapsto> joined (rs_blocks P c sz g X r (P - 1)) P, tb \<mapsto> T')" "ep_in ep' = rest"
      "comm evs = concat (map (step_trace sends P n r) [0..<P - 1])"
    using rs_phase_run [where X = X, OF sizes [unfolded sz_def, folded with_layout_simps(1) [of count ctx]] lay(1) op,
        folded sz_def c_def, unfolded with_layout_simps, folded tb_def n_def sends_def, of ?T rb ?ep m0 rest]
      X T rb out ins by auto
  have "positive_mod (int r + 1) (int P) = int (next_rank P r)"
    using P by (simp add: positive_mod_eq next_rank_def zmod_int add.commute)
  then have "ep_run (ring_reduce_scatter_inplace (Some ctx) (Ptr rb 0) count dt oper (Some owned)) ep =
      Some ((PG_SUCCESS, Some ?ctx, Some (int (next_rank P r))), ep', [Silent] @ evs)"
    by (simp add: ring_reduce_scatter_inplace_def Let_def sz0 ctx lay(2) mx sz_def [symmetric] tb_def [symmetric]
        with_layout_update ep_run_bind resize run)
  then show ?thesis
    using o by (intro exI conjI) (assumption, simp_all add: comm_def)
qed

lemma ring_all_gather_run:
  fixes r P count :: nat and ctx :: ring_collective_context and F :: "nat \<Rightarrow> bytes" and dt :: DATATYPE
  defines "c \<equiv> block_count count P" and "sz \<equiv> datatype_size dt"
  defines "n \<equiv> step_batches P count sz (config ctx)"
  defines "sends \<equiv> ag_sends P count sz F (sequence ctx) (config ctx)"
  assumes sizes: "ring_setup P count sz (config ctx)" and ctx: "rank ctx = int r" "world_size ctx = int P" "r < P"
    and F: "\<And>b. b < P \<Longrightarrow> length (F b) = c b * sz" and ok: "block_bytes_ok P c sz B"
    and own: "B (next_rank P r) = F (next_rank P r)"
    and out: "ep_out ep = []" and mem: "ep_mem ep = m0(rb \<mapsto> joined B P)"
    and ins: "ep_in ep = feed (phase_inputs sends P n r 0) rest"
  shows "\<exists>ep' evs. ep_run (ring_all_gather_inplace (Some ctx) (Ptr rb 0) count dt (int (next_rank P r))) ep =
      Some ((PG_SUCCESS, Some (with_layout count ctx)), ep', evs) \<and> ep_out ep' = [] \<and>
    ep_mem ep' = m0(rb \<mapsto> joined F P) \<and> ep_in ep' = rest \<and> comm evs = concat (map (step_trace sends P n r) [0..<P - 1])"
proof -
  note lay = with_layout_context [OF sizes ctx]
  let ?ctx = "with_layout count ctx"
  have P: "0 < P" and sz0: "sz \<noteq> 0"
    using sizes by (simp_all add: ring_setup_def)
  have own_block: "positive_mod (int r + 1) (int P) = int (next_rank P r)"
    using P by (simp add: positive_mod_eq next_rank_def zmod_int add.commute)
  obtain ep' evs where run: "ep_run (for_steps (ag_step ?ctx (Ptr rb 0) sz (piece_elements_for (config ctx) sz)) 0 (int P - 1)) ep =
      Some (Inr (), ep', evs)" and o: "ep_out ep' = []" "ep_mem ep' = m0(rb \<mapsto> joined F P)" "ep_in ep' = rest"
      "comm evs = concat (map (step_trace sends P n r) [0..<P - 1])"
    using ag_phase_run [OF sizes [folded with_layout_simps(1) [of count ctx]] lay(1),
        folded c_def, unfolded with_layout_simps, folded n_def, OF F ok own out mem ins [unfolded sends_def]]
    unfolding sends_def by blast
  have "ep_run (ring_all_gather_inplace (Some ctx) (Ptr rb 0) count dt (int (next_rank P r))) ep =
      Some ((PG_SUCCESS, Some ?ctx), ep', evs)"
    using next_rank_less [OF ctx(3), folded not_le]
    by (simp add: ring_all_gather_inplace_def Let_def sz0 ctx lay(2) own_block sz_def [symmetric]
        with_layout_update ep_run_bind run)
  with o show ?thesis by blast
qed

section \<open>All-Reduce\<close>

text \<open>The rounds of an All-Reduce: every batch of every step of the two phases.\<close>

type_synonym round = "CollectivePhase \<times> nat \<times> nat"

definition phase_rounds :: "CollectivePhase \<Rightarrow> nat \<Rightarrow> nat \<Rightarrow> round list" where
  "phase_rounds phase P n = concat (map (\<lambda>s. map (\<lambda>k. (phase, s, k)) [0..<n]) [0..<P - 1])"

definition all_reduce_rounds :: "nat \<Rightarrow> nat \<Rightarrow> round list" where
  "all_reduce_rounds P n = phase_rounds ReduceScatter P n @ phase_rounds AllGather P n"

fun all_reduce_messages :: "nat \<Rightarrow> nat \<Rightarrow> nat \<Rightarrow> (bytes \<Rightarrow> bytes \<Rightarrow> bytes) \<Rightarrow> (nat \<Rightarrow> nat \<Rightarrow> bytes) \<Rightarrow> 32 word \<Rightarrow>
    ring_collective_config \<Rightarrow> nat \<Rightarrow> round \<Rightarrow> (pg_tag \<times> bytes) list" where
  "all_reduce_messages P count sz g X sq cfg r (ReduceScatter, s, k) = rs_sends P count sz g X sq cfg r s k"
| "all_reduce_messages P count sz g X sq cfg r (AllGather, s, k) =
     ag_sends P count sz (reduced_block P (block_count count P) sz g X) sq cfg r s k"

lemma concat_map_concat: "concat (map f (concat xss)) = concat (map (\<lambda>xs. concat (map f xs)) xss)"
  by (induction xss) simp_all

lemma rounds_trace_phase:
  "rounds_trace M P (phase_rounds phase P n) r =
   concat (map (step_trace (\<lambda>r s k. M r (phase, s, k)) P n r) [0..<P - 1])"
  by (simp add: rounds_trace_def phase_rounds_def step_trace_def [abs_def] round_events_def concat_map_concat comp_def)

lemma phase_inputs_rounds:
  "phase_inputs (\<lambda>r s k. M r (phase, s, k)) P n r 0 = concat (map (M (prev_rank P r)) (phase_rounds phase P n))"
  by (simp add: phase_rounds_def phase_inputs_def concat_map_concat comp_def)

lemma with_layout_again:
  assumes "ring_setup P count sz cfg" and "rank ctx = int r" and "world_size ctx = int P" and "r < P"
  shows "with_layout count (with_layout count ctx) = with_layout count ctx"
  using assms setup_count(3) [OF assms(1,4)]
  by (simp add: with_layout_def compute_block_layout_eq)

lemma ring_all_reduce_copy:
  assumes "m rb = Some R" and "length R = N" and "load m sendbuf N = Some J"
    and "sendbuf = Ptr rb 0 \<or> region_disjoint (Ptr rb 0) N sendbuf N" and "ep_out ep = []" and "ep_mem ep = m"
  shows "\<exists>evs. ep_run (if sendbuf \<noteq> Ptr rb 0 then call_memcpy (Ptr rb 0) sendbuf N else Ret ()) ep =
      Some ((), ep\<lparr>ep_mem := m(rb \<mapsto> J)\<rparr>, evs) \<and> comm evs = []"
proof (cases "sendbuf = Ptr rb 0")
  case True
  with assms have "J = R"
    by (simp add: slice_def)
  with True assms show ?thesis
    by (auto simp: comm_def fun_upd_idem)
next
  case False
  have "length J = N"
    using length_load [OF assms(3)] .
  with False assms show ?thesis
    by (auto simp: call_memcpy_def buffer_call_allowed_def may_write_def may_read_def blit_whole comm_def)
qed

lemma ring_all_reduce_run:
  fixes r P count :: nat and ctx :: ring_collective_context and dt :: DATATYPE
    and g :: "bytes \<Rightarrow> bytes \<Rightarrow> bytes" and X :: "nat \<Rightarrow> nat \<Rightarrow> bytes"
  defines "c \<equiv> block_count count P" and "sz \<equiv> datatype_size dt" and "tb \<equiv> temporary_buffer ctx"
  defines "n \<equiv> step_batches P count sz (config ctx)"
  defines "M \<equiv> all_reduce_messages P count sz g X (sequence ctx) (config ctx)"
  assumes sizes: "ring_setup P count sz (config ctx)" and ctx: "rank ctx = int r" "world_size ctx = int P" "r < P"
    and op: "byte_op dt oper = Some g" and X: "\<And>r b. r < P \<Longrightarrow> b < P \<Longrightarrow> length (X r b) = c b * sz"
    and rb: "rb \<noteq> tb" and count: "0 < count"
    and bufs: "ep_mem ep rb = Some R" "length R = count * sz" "ep_mem ep tb = Some T"
      "load (ep_mem ep) sendbuf (count * sz) = Some (joined (X r) P)"
      "sendbuf = Ptr rb 0 \<or> region_disjoint (Ptr rb 0) (count * sz) sendbuf (count * sz)"
    and out: "ep_out ep = []"
    and ins: "ep_in ep = feed (concat (map (M (prev_rank P r)) (all_reduce_rounds P n))) rest"
  shows "\<exists>ep' evs T'. ep_run (ring_all_reduce (Some ctx) sendbuf (Ptr rb 0) count dt oper) ep =
      Some ((PG_SUCCESS, Some ((with_layout count ctx)\<lparr>sequence := sequence ctx + 1\<rparr>)), ep', evs) \<and> ep_out ep' = [] \<and>
    ep_mem ep' = (ep_mem ep)(rb \<mapsto> joined (reduced_block P c sz g X) P, tb \<mapsto> T') \<and> ep_in ep' = rest \<and>
    comm evs = rounds_trace M P (all_reduce_rounds P n) r"
proof -
  let ?F = "reduced_block P c sz g X" and ?ctx = "with_layout count ctx" and ?m = "ep_mem ep"
  let ?rs = "rs_sends P count sz g X (sequence ctx) (config ctx)" and ?ag = "ag_sends P count sz ?F (sequence ctx) (config ctx)"
  have P: "0 < P" and sz0: "sz \<noteq> 0" and fits: "count * sz < size_modulus"
    using sizes by (simp_all add: ring_setup_def)
  have len: "length (g x y) = sz" for x y
    using byte_op_length [OF op] by (simp add: sz_def)
  have Mrs: "(\<lambda>r s k. M r (ReduceScatter, s, k)) = ?rs" and Mag: "(\<lambda>r s k. M r (AllGather, s, k)) = ?ag"
    by (simp_all add: M_def c_def fun_eq_iff)
  have nonnull: "sendbuf \<noteq> NullPtr"
    using bufs(4) by auto
  have ins': "ep_in ep = feed (phase_inputs ?rs P n r 0) (feed (phase_inputs ?ag P n r 0) rest)"
    unfolding ins all_reduce_rounds_def Mrs [symmetric] Mag [symmetric] phase_inputs_rounds by simp
  obtain evs0 where copy: "ep_run (if sendbuf \<noteq> Ptr rb 0 then call_memcpy (Ptr rb 0) sendbuf (count * sz) else Ret ()) ep =
      Some ((), ep\<lparr>ep_mem := ?m(rb \<mapsto> joined (X r) P)\<rparr>, evs0)" "comm evs0 = []"
    using ring_all_reduce_copy [where m = ?m, OF bufs(1,2,4,5) out refl] by blast
  let ?ep = "ep\<lparr>ep_mem := ?m(rb \<mapsto> joined (X r) P)\<rparr>"
  have mem1: "ep_mem ?ep = ?m(rb \<mapsto> joined (X r) P, tb \<mapsto> T)"
    using bufs(3) rb by (auto simp: fun_eq_iff)
  have "ep_out ?ep = []" "ep_in ?ep = feed (phase_inputs ?rs P n r 0) (feed (phase_inputs ?ag P n r 0) rest)"
    using out ins' by simp_all
  from ring_reduce_scatter_run [where X = X, OF sizes [unfolded sz_def] ctx op, folded sz_def c_def tb_def, folded n_def, OF X rb this(1) mem1 this(2)]
  obtain ep1 evs1 T1 where rs: "ep_run (ring_reduce_scatter_inplace (Some ctx) (Ptr rb 0) count dt oper (Some (-1))) ?ep =
      Some ((PG_SUCCESS, Some ?ctx, Some (int (next_rank P r))), ep1, evs1)"
    and o1: "ep_out ep1 = []" "ep_mem ep1 = ?m(rb \<mapsto> joined (rs_blocks P c sz g X r (P - 1)) P, tb \<mapsto> T1)"
      "ep_in ep1 = feed (phase_inputs ?ag P n r 0) rest" "comm evs1 = concat (map (step_trace ?rs P n r) [0..<P - 1])"
    by blast
  have mem2: "ep_mem ep1 = (?m(tb \<mapsto> T1))(rb \<mapsto> joined (rs_blocks P c sz g X r (P - 1)) P)"
    using o1(2) rb by (simp add: fun_upd_twist)
  have F: "length (?F b) = c b * sz" if "b < P" for b
    unfolding reduced_block_def by (rule length_partial_block) (use X len that in auto)
  have ok: "block_bytes_ok P c sz (rs_blocks P c sz g X r (P - 1))"
    by (rule rs_blocks_ok) (use X len ctx(3) in auto)
  have ctx': "rank ?ctx = int r" "world_size ?ctx = int P"
    using ctx by simp_all
  from ring_all_gather_run [OF sizes [unfolded sz_def, folded with_layout_simps(1) [of count ctx]] ctx' ctx(3), folded sz_def c_def,
      unfolded with_layout_simps, folded n_def, OF F ok rs_blocks_last [OF P ctx(3)] o1(1) mem2 o1(3)]
  obtain ep2 evs2 where ag: "ep_run (ring_all_gather_inplace (Some ?ctx) (Ptr rb 0) count dt (int (next_rank P r))) ep1 =
      Some ((PG_SUCCESS, Some ?ctx), ep2, evs2)"
    and o2: "ep_out ep2 = []" "ep_mem ep2 = (?m(tb \<mapsto> T1))(rb \<mapsto> joined ?F P)" "ep_in ep2 = rest"
      "comm evs2 = concat (map (step_trace ?ag P n r) [0..<P - 1])"
    unfolding with_layout_again [OF sizes ctx] by blast
  have "ep_run (ring_all_reduce (Some ctx) sendbuf (Ptr rb 0) count dt oper) ep =
      Some ((PG_SUCCESS, Some (?ctx\<lparr>sequence := sequence ctx + 1\<rparr>)), ep2, evs0 @ evs1 @ evs2)"
    using count nonnull
    by (simp add: ring_all_reduce_def Let_def sz_def [symmetric] sz0 ep_run_bind
        copy(1) [folded size_mul_exact [OF fits]] rs ag del: ep_run.simps(2) split del: if_split)
  moreover have "comm (evs0 @ evs1 @ evs2) = rounds_trace M P (all_reduce_rounds P n) r"
    unfolding all_reduce_rounds_def
    by (simp add: rounds_trace_def [of M P "xs @ ys" for xs ys] rounds_trace_def [symmetric] copy(2) o1(4) o2(4)
        rounds_trace_phase Mrs Mag)
  moreover have "ep_mem ep2 = ?m(rb \<mapsto> joined ?F P, tb \<mapsto> T1)"
    using o2(2) rb by (simp add: fun_upd_twist)
  ultimately show ?thesis
    using o2 by blast
qed

end
