(* ===== verification/Reduction_Algebra.thy ===== *)
theory Reduction_Algebra
  imports Reduction_Ops
begin

text \<open>
  Reductions whose result does not depend on the order of the operands. The ring combines the
  values of all ranks in a different order for every block; under an associative and
  commutative operation the order does not matter. The three integer operations are such.
\<close>

section \<open>Folding around the ring\<close>

text \<open>\<open>fold_from f v xs\<close> combines \<open>v\<close> with the values of \<open>xs\<close>, the newest operand first.\<close>

definition combine :: "('v \<Rightarrow> 'v \<Rightarrow> 'v) \<Rightarrow> 'v list \<Rightarrow> 'v" where
  "combine f xs = fold f (tl xs) (hd xs)"

definition around_ring :: "nat \<Rightarrow> (nat \<Rightarrow> 'v) \<Rightarrow> nat \<Rightarrow> 'v list" where
  "around_ring P v b = map (\<lambda>k. v ((b + k) mod P)) [0..<P]"

lemma around_ring_rotation:
  assumes "b < P"
  shows "around_ring P v b = map v [b..<P] @ map v [0..<b]"
proof (rule nth_equalityI)
  fix k
  assume "k < length (around_ring P v b)"
  then have k: "k < P" by (simp add: around_ring_def)
  show "around_ring P v b ! k = (map v [b..<P] @ map v [0..<b]) ! k"
  proof (cases "k < P - b")
    case False
    with k assms have "b + k = (k - (P - b)) + P" "k - (P - b) < P" by simp_all
    then have "(b + k) mod P = k - (P - b)"
      by (metis mod_add_self2 mod_less)
    with False k assms show ?thesis
      by (simp add: around_ring_def nth_append)
  qed (use k assms in \<open>simp add: around_ring_def nth_append\<close>)
qed (use assms in \<open>simp add: around_ring_def\<close>)

locale ring_reduction =
  fixes f :: "'v \<Rightarrow> 'v \<Rightarrow> 'v"
  assumes assoc: "f (f a b) c = f a (f b c)"
    and commute: "f a b = f b a"
begin

lemma fold_start: "fold f ys (f y a) = f (fold f ys y) a"
proof (induction ys arbitrary: y)
  case (Cons z ys)
  have "fold f (z # ys) (f y a) = fold f ys (f (f z y) a)"
    by (simp add: assoc)
  also have "\<dots> = f (fold f ys (f z y)) a"
    by (rule Cons.IH)
  finally show ?case by simp
qed simp

lemma combine_append:
  assumes "xs \<noteq> []" and "ys \<noteq> []"
  shows "combine f (xs @ ys) = f (combine f ys) (combine f xs)"
proof -
  obtain y ys' where ys: "ys = y # ys'"
    using assms(2) by (cases ys) auto
  have "combine f (xs @ ys) = fold f ys' (f y (combine f xs))"
    using assms(1) by (simp add: combine_def ys)
  then show ?thesis
    by (simp add: fold_start) (simp add: combine_def ys)
qed

text \<open>Every block's order gives the value of rank order.\<close>

lemma around_ring_combine:
  assumes "b < P"
  shows "combine f (around_ring P v b) = combine f (map v [0..<P])"
proof (cases "b = 0")
  case True
  with assms show ?thesis
    by (simp add: around_ring_rotation)
next
  case False
  have "map v [0..<P] = map v [0..<b] @ map v [b..<P]"
    using assms by (metis le_add_diff_inverse less_imp_le map_append upt_add_eq_append zero_le)
  with False assms show ?thesis
    by (simp add: around_ring_rotation combine_append commute [of "combine f (map v [b..<P])"])
qed

end

section \<open>The integer operations\<close>

lemma sint_std_min: "sint (std_min word_sless a b) = min (sint a) (sint b)"
  and sint_std_max: "sint (std_max word_sless a b) = max (sint a) (sint b)"
  by (auto simp: std_min_def std_max_def word_sless_alt)

lemma sint_injective: "sint a = sint b \<Longrightarrow> a = (b :: 32 word)"
  by (rule signed_word_eqI)

interpretation int32_sum: ring_reduction "(+) :: 32 word \<Rightarrow> 32 word \<Rightarrow> 32 word"
  by unfold_locales (simp_all add: ac_simps)

interpretation int32_min: ring_reduction "std_min word_sless :: 32 word \<Rightarrow> 32 word \<Rightarrow> 32 word"
  by unfold_locales (rule sint_injective; simp add: sint_std_min ac_simps)+

interpretation int32_max: ring_reduction "std_max word_sless :: 32 word \<Rightarrow> 32 word \<Rightarrow> 32 word"
  by unfold_locales (rule sint_injective; simp add: sint_std_max ac_simps)+

text \<open>What the three folds are over the values of all ranks.\<close>

lemma combine_sum: "0 < P \<Longrightarrow> combine (+) (map v [0..<P]) = (\<Sum>r<P. v r :: 32 word)"
proof -
  assume "0 < P"
  have "fold (+) (map v [1..<n]) a = a + (\<Sum>r\<in>{1..<n}. v r)" for n and a :: "32 word"
    by (induction n) (auto simp: ac_simps)
  moreover have "{..<P} = insert 0 {1..<P}"
    using \<open>0 < P\<close> by auto
  ultimately show ?thesis
    using \<open>0 < P\<close> by (simp add: combine_def upt_conv_Cons)
qed

lemma combine_extremum:
  assumes "\<And>a b. sint (f a b) = m (sint a) (sint b :: int)" and "0 < P"
  shows "sint (combine f (map v [0..<P])) = fold m (map (\<lambda>r. sint (v r)) [1..<P]) (sint (v 0 :: 32 word))"
proof -
  have "sint (fold f xs a) = fold m (map sint xs) (sint a)" for xs and a :: "32 word"
    by (induction xs arbitrary: a) (simp_all add: assms(1))
  then show ?thesis
    using assms(2) by (simp add: combine_def upt_conv_Cons comp_def)
qed

lemma combine_min: "0 < P \<Longrightarrow> sint (combine (std_min word_sless) (map v [0..<P])) = Min ((\<lambda>r. sint (v r :: 32 word)) ` {..<P})"
  and combine_max: "0 < P \<Longrightarrow> sint (combine (std_max word_sless) (map v [0..<P])) = Max ((\<lambda>r. sint (v r)) ` {..<P})"
proof -
  assume P: "0 < P"
  have set: "set (sint (v 0) # map (\<lambda>r. sint (v r)) [1..<P]) = (\<lambda>r. sint (v r)) ` {..<P}"
  proof -
    have "sint (v 0) # map (\<lambda>r. sint (v r)) [1..<P] = map (\<lambda>r. sint (v r)) [0..<P]"
      using P by (simp add: upt_conv_Cons)
    then show ?thesis
      by (simp only: set_map set_upt atLeast0LessThan)
  qed
  show "sint (combine (std_min word_sless) (map v [0..<P])) = Min ((\<lambda>r. sint (v r)) ` {..<P})"
    by (simp only: combine_extremum [where m = min, OF sint_std_min P] Min.set_eq_fold [symmetric] set)
  show "sint (combine (std_max word_sless) (map v [0..<P])) = Max ((\<lambda>r. sint (v r)) ` {..<P})"
    by (simp only: combine_extremum [where m = max, OF sint_std_max P] Max.set_eq_fold [symmetric] set)
qed

end
