(* ===== verification/Ring_Correctness.thy ===== *)
theory Ring_Correctness
  imports Mock_Interpretation Ring_Local Reduction_Algebra
begin

text \<open>
  All ranks together on the mock transport: an All-Reduce of all ranks ends under every
  schedule, after the same number of calls, with the same reduced buffer on every rank. The
  locale of associative and commutative reductions turns the ring's order of evaluation into
  the plain reduction over all ranks.
\<close>

section \<open>Idle worlds\<close>

text \<open>Nothing is outstanding at any rank and nothing is under way.\<close>

definition idle_world :: "nat \<Rightarrow> mock_world \<Rightarrow> bool" where
  "idle_world P w = (\<exists>E. mock_rel P w E (\<lambda>r t. []) \<and> (\<forall>r<P. ep_out (E r) = []))"

lemma mock_rel_inputs:
  assumes "mock_rel P w E N"
  shows "mock_rel P w (\<lambda>r. (E r)\<lparr>ep_in := ins r\<rparr>) N"
  using assms by (simp add: mock_rel_def rank_rel_def ep_wf_def)

lemma mock_rel_cong:
  assumes "mock_rel P w E N" and "\<And>r. r < P \<Longrightarrow> E' r = E r \<and> N' r = N r"
  shows "mock_rel P w E' N'"
  using assms by (simp add: mock_rel_def)

lemma idle_memory:
  assumes "mock_rel P w E N" and "r < P" and "ep_out (E r) = []"
  shows "memories w r = ep_mem (E r)"
  using assms by (auto simp: mock_rel_def rank_rel_def puts_def)

lemma group_idle:
  assumes "mock_transport_group_create (int P) False mems False = (0, Some (w, ts))"
  shows "idle_world P w" and "memories w = mems"
proof -
  have "mock_rel P w (\<lambda>r. fresh_endpoint (mems r) (\<lambda>t. [])) (\<lambda>r t. [])"
    by (rule mock_group_fresh [OF assms])
  then show "idle_world P w"
    unfolding idle_world_def by (intro exI conjI) (assumption, simp add: fresh_endpoint_def)
  show "memories w = mems"
    using assms by (auto simp: mock_transport_group_create_def split: if_splits)
qed

section \<open>Programs that match round by round\<close>

text \<open>
  If on the contract every rank runs to its end in the rounds \<open>ids\<close>, given what the previous
  rank sends in them, then from an idle world every schedule of all ranks runs to the end,
  and the world is idle again.
\<close>

lemma schedule_rounds:
  assumes idle: "idle_world P w"
    and run: "\<And>r ep. r < P \<Longrightarrow> ep_out ep = [] \<Longrightarrow> ep_mem ep = memories w r \<Longrightarrow>
      ep_in ep = feed (concat (map (M (prev_rank P r)) ids)) (\<lambda>_. []) \<Longrightarrow>
      \<exists>ep' evs. ep_run (progs r) ep = Some (res r, ep', evs) \<and> ep_out ep' = [] \<and> Q r (ep_mem ep') \<and>
        ep_in ep' = (\<lambda>_. []) \<and> comm evs = rounds_trace M P ids r"
  shows "every_schedule (sys_step mock_call P) (w, progs)
    (\<lambda>(w', progs'). idle_world P w' \<and> (\<forall>r<P. progs' r = Ret (res r) \<and> Q r (memories w' r)))"
proof -
  obtain E0 where E0: "mock_rel P w E0 (\<lambda>r t. [])" "\<And>r. r < P \<Longrightarrow> ep_out (E0 r) = []"
    using idle unfolding idle_world_def by blast
  define E where "E r = (E0 r)\<lparr>ep_in := feed (concat (map (M (prev_rank P r)) ids)) (\<lambda>_. [])\<rparr>" for r
  have rel: "mock_rel P w E (\<lambda>r t. [])"
    unfolding E_def by (rule mock_rel_inputs [OF E0(1)])
  have "\<exists>x. ep_run (progs r) (E r) = Some (res r, fst x, snd x) \<and> ep_out (fst x) = [] \<and> Q r (ep_mem (fst x)) \<and>
      ep_in (fst x) = (\<lambda>_. []) \<and> comm (snd x) = rounds_trace M P ids r" if "r < P" for r
    using run [OF that, of "E r"] E0(2) [OF that] idle_memory [OF E0(1) that E0(2) [OF that]]
    by (auto simp: E_def)
  then obtain x where x: "\<And>r. r < P \<Longrightarrow> ep_run (progs r) (E r) = Some (res r, fst (x r), snd (x r)) \<and>
      ep_out (fst (x r)) = [] \<and> Q r (ep_mem (fst (x r))) \<and> ep_in (fst (x r)) = (\<lambda>_. []) \<and>
      comm (snd (x r)) = rounds_trace M P ids r"
    by metis
  let ?fin = "\<lambda>r. fst (x r)" and ?T = "\<lambda>r. snd (x r)"
  have "ep_in (E r) t = sent_with t (?T (prev_rank P r))" if "r < P" for r t
  proof -
    have "sent_with t (?T (prev_rank P r)) = sent_with t (comm (?T (prev_rank P r)))"
      by simp
    also have "\<dots> = sent_in M (prev_rank P r) t ids"
      using x [of "prev_rank P r"] that by simp
    also have "\<dots> = ep_in (E r) t"
      by (simp add: E_def sent_in_def) (induction ids, simp_all add: feed_def)
    finally show ?thesis by simp
  qed
  then have inv: "flow_inv P res ?fin M ids progs E (\<lambda>r t. []) ?T"
    using x unfolding flow_inv_def by (auto intro: exI [of _ "[]"])
  have "n \<le> work_left P ?T \<and> (n < work_left P ?T \<longrightarrow> (\<exists>s. sys_step mock_call P (w', progs') s)) \<and>
      (n = work_left P ?T \<longrightarrow> idle_world P w' \<and> (\<forall>r<P. progs' r = Ret (res r) \<and> Q r (memories w' r)))"
    if steps: "(sys_step mock_call P ^^ n) (w, progs) (w', progs')" for n w' progs'
  proof (intro conjI impI)
    note total = mock.schedule_total [OF rel inv steps]
    show "n \<le> work_left P ?T"
      by (rule total(1))
    show "\<exists>s. sys_step mock_call P (w', progs') s" if "n < work_left P ?T"
      by (rule total(2) [OF that])
    assume n: "n = work_left P ?T"
    obtain E' N' where final: "mock_rel P w' E' N'" "\<And>r. r < P \<Longrightarrow> E' r = ?fin r \<and> (\<forall>t. N' r t = [])"
      using total(4) [OF n] by blast
    have "mock_rel P w' ?fin (\<lambda>r t. [])"
      by (rule mock_rel_cong [OF final(1)]) (use final(2) in \<open>auto simp: fun_eq_iff\<close>)
    then show "idle_world P w'"
      using x unfolding idle_world_def by blast
    show "\<forall>r<P. progs' r = Ret (res r) \<and> Q r (memories w' r)"
      using total(3) [OF n] idle_memory [OF \<open>mock_rel P w' ?fin (\<lambda>r t. [])\<close>] x by auto
  qed
  then show ?thesis
    unfolding every_schedule_def by (intro exI [of _ "work_left P ?T"]) auto
qed

section \<open>All-Reduce\<close>

text \<open>Block \<open>b\<close> of a buffer, and the buffer every rank ends up with.\<close>

definition input_block :: "nat \<Rightarrow> nat \<Rightarrow> nat \<Rightarrow> bytes \<Rightarrow> nat \<Rightarrow> bytes" where
  "input_block P count sz data b = slice (block_offset count P b * sz) (block_count count P b * sz) data"

definition ring_result :: "nat \<Rightarrow> nat \<Rightarrow> nat \<Rightarrow> (bytes \<Rightarrow> bytes \<Rightarrow> bytes) \<Rightarrow> (nat \<Rightarrow> bytes) \<Rightarrow> bytes" where
  "ring_result P count sz g input =
     joined (reduced_block P (block_count count P) sz g (\<lambda>r. input_block P count sz (input r))) P"

lemma joined_input_blocks:
  assumes "0 < P" and "length data = count * sz"
  shows "joined (input_block P count sz data) P = data"
proof -
  have "joined (input_block P count sz data) n = take (block_start (block_count count P) n * sz) data" if "n \<le> P" for n
    using that
  proof (induction n)
    case (Suc n)
    then show ?case
      by (simp add: input_block_def block_offset_def slice_def take_add add_mult_distrib)
  qed simp
  with assms show ?thesis
    by (simp add: block_start_total)
qed

lemma length_input_block:
  assumes "0 < P" and "b < P" and "length data = count * sz"
  shows "length (input_block P count sz data b) = block_count count P b * sz"
proof -
  have "block_offset count P b * sz + block_count count P b * sz \<le> count * sz"
    using mult_le_mono1 [OF block_count_fits [OF assms(1,2), of count], of sz] by (simp add: add_mult_distrib)
  with assms show ?thesis by (simp add: input_block_def)
qed

text \<open>
  What a call of every rank needs: contexts of the same configuration and sequence number,
  and on each rank a receive buffer that is a whole memory block of its own and a send buffer
  that is the receive buffer itself or does not overlap it.
\<close>

definition buffers_ready :: "nat \<Rightarrow> nat \<Rightarrow> (nat \<Rightarrow> bytes) \<Rightarrow> nat \<Rightarrow> memory \<Rightarrow> ring_collective_context \<Rightarrow> pointer \<Rightarrow> nat \<Rightarrow> bool" where
  "buffers_ready count sz input r m ctx sendbuf rb =
     (load m sendbuf (count * sz) = Some (input r) \<and>
      (sendbuf = Ptr rb 0 \<or> region_disjoint (Ptr rb 0) (count * sz) sendbuf (count * sz)) \<and>
      rb \<noteq> temporary_buffer ctx \<and> m (temporary_buffer ctx) \<noteq> None \<and>
      (\<exists>R. m rb = Some R \<and> length R = count * sz))"

lemma buffers_ready_length: "buffers_ready count sz input r m ctx sendbuf rb \<Longrightarrow> length (input r) = count * sz"
  using length_load unfolding buffers_ready_def by blast

definition contexts_ready :: "nat \<Rightarrow> ring_collective_config \<Rightarrow> 32 word \<Rightarrow> (nat \<Rightarrow> ring_collective_context) \<Rightarrow> bool" where
  "contexts_ready P cfg sq ctx =
     (\<forall>r<P. rank (ctx r) = int r \<and> world_size (ctx r) = int P \<and> config (ctx r) = cfg \<and> sequence (ctx r) = sq)"

text \<open>The state of the memory and the context when the call has returned.\<close>

definition buffers_after :: "nat \<Rightarrow> memory \<Rightarrow> memory \<Rightarrow> bytes \<Rightarrow> nat \<Rightarrow> bool" where
  "buffers_after tb m m' result rb = (\<exists>T. m' = m(rb \<mapsto> result, tb \<mapsto> T))"

lemma all_reduce_contract:
  fixes P count :: nat and dt :: DATATYPE and g :: "bytes \<Rightarrow> bytes \<Rightarrow> bytes" and input :: "nat \<Rightarrow> bytes"
    and sq :: "32 word" and cfg :: ring_collective_config
  defines "sz \<equiv> datatype_size dt"
  defines "M \<equiv> all_reduce_messages P count sz g (\<lambda>r. input_block P count sz (input r)) sq cfg"
    and "ids \<equiv> all_reduce_rounds P (step_batches P count sz cfg)"
  assumes sizes: "ring_setup P count sz cfg" and ctx: "contexts_ready P cfg sq ctx" and r: "r < P"
    and op: "byte_op dt oper = Some g" and count: "0 < count"
    and bufs: "\<And>r. r < P \<Longrightarrow> buffers_ready count sz input r (m r) (ctx r) (sendbuf r) (rb r)"
    and ep: "ep_out ep = []" "ep_mem ep = m r"
      "ep_in ep = feed (concat (map (M (prev_rank P r)) ids)) rest"
  shows "\<exists>ep' evs. ep_run (ring_all_reduce (Some (ctx r)) (sendbuf r) (Ptr (rb r) 0) count dt oper) ep =
      Some ((PG_SUCCESS, Some ((with_layout count (ctx r))\<lparr>sequence := sq + 1\<rparr>)), ep', evs) \<and> ep_out ep' = [] \<and>
    buffers_after (temporary_buffer (ctx r)) (m r) (ep_mem ep') (ring_result P count sz g input) (rb r) \<and>
    ep_in ep' = rest \<and> comm evs = rounds_trace M P ids r"
proof -
  have P: "0 < P" using sizes by (simp add: ring_setup_def)
  have c: "rank (ctx r) = int r" "world_size (ctx r) = int P" "config (ctx r) = cfg" "sequence (ctx r) = sq"
    using ctx r by (simp_all add: contexts_ready_def)
  have len: "length (input q) = count * sz" if "q < P" for q
    using bufs [OF that] length_load by (auto simp: buffers_ready_def)
  have X: "length (input_block P count sz (input q) b) = block_count count P b * sz" if "q < P" "b < P" for q b
    by (rule length_input_block [OF P that(2) len [OF that(1)]])
  obtain R T where b: "m r (rb r) = Some R" "length R = count * sz" "m r (temporary_buffer (ctx r)) = Some T"
      "load (m r) (sendbuf r) (count * sz) = Some (joined (input_block P count sz (input r)) P)"
      "sendbuf r = Ptr (rb r) 0 \<or> region_disjoint (Ptr (rb r) 0) (count * sz) (sendbuf r) (count * sz)"
      "rb r \<noteq> temporary_buffer (ctx r)"
    using bufs [OF r] joined_input_blocks [OF P len [OF r]] by (auto simp: buffers_ready_def)
  from ring_all_reduce_run [where X = "\<lambda>r. input_block P count sz (input r)" and ctx = "ctx r" and r = r and P = P and
      count = count and dt = dt and oper = oper and g = g and ep = ep and rb = "rb r" and sendbuf = "sendbuf r" and rest = rest,
      folded sz_def, unfolded c ep(2), folded M_def ids_def, OF sizes refl refl r op X b(6) count b(1-5) ep(1,3)]
  show ?thesis
    unfolding buffers_after_def ring_result_def by blast
qed

section \<open>The two phases alone\<close>

text \<open>What All-Gather assembles: block \<open>b\<close> of the rank before \<open>b\<close>, its owner.\<close>

definition gather_result :: "nat \<Rightarrow> nat \<Rightarrow> nat \<Rightarrow> (nat \<Rightarrow> bytes) \<Rightarrow> bytes" where
  "gather_result P count sz buffers = joined (\<lambda>b. input_block P count sz (buffers (prev_rank P b)) b) P"

lemma input_block_joined:
  assumes b: "b < P" and B: "\<And>b. b < P \<Longrightarrow> length (B b) = block_count count P b * sz"
  shows "input_block P count sz (joined B P) b = B b"
proof -
  have "slice (block_start (\<lambda>b. block_count count P b * sz) b + 0) (block_count count P b * sz) (joined B P) =
      slice 0 (block_count count P b * sz) (B b)"
    by (rule slice_joined [OF b]) (use B b in auto)
  then show ?thesis
    using B [OF b] by (simp add: input_block_def block_start_scale block_offset_def)
qed

lemma length_joined_counts:
  assumes "0 < P" and "\<And>b. b < P \<Longrightarrow> length (B b) = block_count count P b * sz"
  shows "length (joined B P) = count * sz"
  using length_joined [of P B "\<lambda>b. block_count count P b * sz"] assms
  by (simp add: block_start_scale block_start_total)

text \<open>Reduce-Scatter and All-Gather work in place on a whole memory block.\<close>

definition workbuf_ready :: "nat \<Rightarrow> nat \<Rightarrow> (nat \<Rightarrow> bytes) \<Rightarrow> nat \<Rightarrow> memory \<Rightarrow> ring_collective_context \<Rightarrow> nat \<Rightarrow> bool" where
  "workbuf_ready count sz input r m ctx rb =
     (m rb = Some (input r) \<and> length (input r) = count * sz \<and>
      rb \<noteq> temporary_buffer ctx \<and> m (temporary_buffer ctx) \<noteq> None)"

text \<open>After Reduce-Scatter the block a rank owns is fully reduced.\<close>

definition owned_block_reduced :: "nat \<Rightarrow> nat \<Rightarrow> nat \<Rightarrow> nat \<Rightarrow> nat \<Rightarrow> memory \<Rightarrow> memory \<Rightarrow> bytes \<Rightarrow> nat \<Rightarrow> bool" where
  "owned_block_reduced P count sz tb r m m' result rb =
     (\<exists>buf T. m' = m(rb \<mapsto> buf, tb \<mapsto> T) \<and> length buf = count * sz \<and>
        input_block P count sz buf (next_rank P r) = input_block P count sz result (next_rank P r))"

lemma reduce_scatter_contract:
  fixes P count :: nat and dt :: DATATYPE and g :: "bytes \<Rightarrow> bytes \<Rightarrow> bytes" and input :: "nat \<Rightarrow> bytes"
    and sq :: "32 word" and cfg :: ring_collective_config
  defines "sz \<equiv> datatype_size dt"
  defines "M \<equiv> all_reduce_messages P count sz g (\<lambda>r. input_block P count sz (input r)) sq cfg"
    and "ids \<equiv> phase_rounds ReduceScatter P (step_batches P count sz cfg)"
  assumes sizes: "ring_setup P count sz cfg" and ctx: "contexts_ready P cfg sq ctx" and r: "r < P"
    and op: "byte_op dt oper = Some g"
    and bufs: "\<And>r. r < P \<Longrightarrow> workbuf_ready count sz input r (m r) (ctx r) (rb r)"
    and ep: "ep_out ep = []" "ep_mem ep = m r" "ep_in ep = feed (concat (map (M (prev_rank P r)) ids)) (\<lambda>_. [])"
  shows "\<exists>ep' evs. ep_run (ring_reduce_scatter_inplace (Some (ctx r)) (Ptr (rb r) 0) count dt oper (Some owned)) ep =
      Some ((PG_SUCCESS, Some (with_layout count (ctx r)), Some (int (next_rank P r))), ep', evs) \<and> ep_out ep' = [] \<and>
    owned_block_reduced P count sz (temporary_buffer (ctx r)) r (m r) (ep_mem ep') (ring_result P count sz g input) (rb r) \<and>
    ep_in ep' = (\<lambda>_. []) \<and> comm evs = rounds_trace M P ids r"
proof -
  let ?X = "\<lambda>r. input_block P count sz (input r)" and ?c = "block_count count P"
  have P: "0 < P" using sizes by (simp add: ring_setup_def)
  have c: "rank (ctx r) = int r" "world_size (ctx r) = int P" "config (ctx r) = cfg" "sequence (ctx r) = sq"
    using ctx r by (simp_all add: contexts_ready_def)
  have len: "length (g x y) = sz" for x y
    using byte_op_length [OF op] by (simp add: sz_def)
  have X: "length (?X q b) = ?c b * sz" if "q < P" "b < P" for q b
    by (rule length_input_block [OF P that(2)]) (use bufs [OF that(1)] in \<open>simp add: workbuf_ready_def\<close>)
  obtain T where b: "m r (rb r) = Some (joined (?X r) P)" "m r (temporary_buffer (ctx r)) = Some T" "rb r \<noteq> temporary_buffer (ctx r)"
    using bufs [OF r] joined_input_blocks [OF P] by (auto simp: workbuf_ready_def)
  have mem: "ep_mem ep = (m r)(rb r \<mapsto> joined (?X r) P, temporary_buffer (ctx r) \<mapsto> T)"
    using b ep(2) by (auto simp: fun_eq_iff)
  have sends: "(\<lambda>r s k. M r (ReduceScatter, s, k)) = rs_sends P count sz g ?X sq cfg"
    by (simp add: M_def fun_eq_iff)
  have ins: "ep_in ep = feed (phase_inputs (rs_sends P count sz g ?X sq cfg) P (step_batches P count sz cfg) r 0) (\<lambda>_. [])"
    unfolding ep(3) ids_def phase_inputs_rounds [symmetric] sends ..
  from ring_reduce_scatter_run [where X = ?X and ctx = "ctx r" and r = r and P = P and
      count = count and dt = dt and oper = oper and g = g and ep = ep and rb = "rb r" and owned = owned,
      folded sz_def, unfolded c, OF sizes refl refl r op X b(3) ep(1) mem ins]
  obtain ep' evs T' where run: "ep_run (ring_reduce_scatter_inplace (Some (ctx r)) (Ptr (rb r) 0) count dt oper (Some owned)) ep =
      Some ((PG_SUCCESS, Some (with_layout count (ctx r)), Some (int (next_rank P r))), ep', evs)"
    and o: "ep_out ep' = []" "ep_mem ep' = (m r)(rb r \<mapsto> joined (rs_blocks P ?c sz g ?X r (P - 1)) P, temporary_buffer (ctx r) \<mapsto> T')"
      "ep_in ep' = (\<lambda>_. [])"
    and evs: "comm evs = concat (map (step_trace (rs_sends P count sz g ?X sq cfg) P (step_batches P count sz cfg) r) [0..<P - 1])"
    by blast
  have R: "length (rs_blocks P ?c sz g ?X r (P - 1) b') = ?c b' * sz" if "b' < P" for b'
    using block_bytes_okD [OF rs_blocks_ok [where X = ?X and c = ?c, OF X len r] that] .
  have F: "length (reduced_block P ?c sz g ?X b') = ?c b' * sz" if "b' < P" for b'
    unfolding reduced_block_def by (rule length_partial_block) (use X len that in auto)
  have "input_block P count sz (joined (rs_blocks P ?c sz g ?X r (P - 1)) P) (next_rank P r) =
      input_block P count sz (ring_result P count sz g input) (next_rank P r)"
    unfolding ring_result_def
    using input_block_joined [where B = "rs_blocks P ?c sz g ?X r (P - 1)", OF next_rank_less [OF r] R]
      input_block_joined [where B = "reduced_block P ?c sz g ?X", OF next_rank_less [OF r] F] rs_blocks_last [OF P r]
    by simp
  then have "owned_block_reduced P count sz (temporary_buffer (ctx r)) r (m r) (ep_mem ep') (ring_result P count sz g input) (rb r)"
    unfolding owned_block_reduced_def o(2) using length_joined_counts [where B = "rs_blocks P ?c sz g ?X r (P - 1)", OF P R] by blast
  moreover have "comm evs = rounds_trace M P ids r"
    unfolding evs ids_def rounds_trace_phase sends ..
  ultimately show ?thesis
    using run o by blast
qed

lemma all_gather_contract:
  fixes P count :: nat and dt :: DATATYPE and buffers :: "nat \<Rightarrow> bytes" and sq :: "32 word" and cfg :: ring_collective_config
  defines "sz \<equiv> datatype_size dt"
  defines "M \<equiv> \<lambda>r (phase :: CollectivePhase, s, k). ag_sends P count sz (\<lambda>b. input_block P count sz (buffers (prev_rank P b)) b) sq cfg r s k"
    and "ids \<equiv> phase_rounds AllGather P (step_batches P count sz cfg)"
  assumes sizes: "ring_setup P count sz cfg" and ctx: "contexts_ready P cfg sq ctx" and r: "r < P"
    and bufs: "\<And>r. r < P \<Longrightarrow> workbuf_ready count sz buffers r (m r) (ctx r) (rb r)"
    and ep: "ep_out ep = []" "ep_mem ep = m r" "ep_in ep = feed (concat (map (M (prev_rank P r)) ids)) (\<lambda>_. [])"
  shows "\<exists>ep' evs. ep_run (ring_all_gather_inplace (Some (ctx r)) (Ptr (rb r) 0) count dt (int (next_rank P r))) ep =
      Some ((PG_SUCCESS, Some (with_layout count (ctx r))), ep', evs) \<and> ep_out ep' = [] \<and>
    ep_mem ep' = (m r)(rb r \<mapsto> gather_result P count sz buffers) \<and>
    ep_in ep' = (\<lambda>_. []) \<and> comm evs = rounds_trace M P ids r"
proof -
  let ?F = "\<lambda>b. input_block P count sz (buffers (prev_rank P b)) b" and ?B = "input_block P count sz (buffers r)"
  let ?sends = "ag_sends P count sz ?F sq cfg"
  have P: "0 < P" using sizes by (simp add: ring_setup_def)
  have c: "rank (ctx r) = int r" "world_size (ctx r) = int P" "config (ctx r) = cfg" "sequence (ctx r) = sq"
    using ctx r by (simp_all add: contexts_ready_def)
  have X: "length (input_block P count sz (buffers q) b) = block_count count P b * sz" if "q < P" "b < P" for q b
    by (rule length_input_block [OF P that(2)]) (use bufs [OF that(1)] in \<open>simp add: workbuf_ready_def\<close>)
  have mem: "ep_mem ep = (m r)(rb r \<mapsto> joined ?B P)"
    using bufs [OF r] joined_input_blocks [OF P] ep(2) by (auto simp: workbuf_ready_def fun_eq_iff)
  have F: "length (?F b) = block_count count P b * sz" if "b < P" for b
    by (rule X) (use that in simp_all)
  have ok: "block_bytes_ok P (block_count count P) sz ?B"
    using X r by (simp add: block_bytes_ok_def)
  have own: "?B (next_rank P r) = ?F (next_rank P r)"
    using r by simp
  have sends: "(\<lambda>r s k. M r (AllGather, s, k)) = ?sends"
    by (simp add: M_def fun_eq_iff)
  have ins: "ep_in ep = feed (phase_inputs ?sends P (step_batches P count sz cfg) r 0) (\<lambda>_. [])"
    unfolding ep(3) ids_def phase_inputs_rounds [symmetric] sends ..
  from ring_all_gather_run [where F = ?F and B = ?B and ctx = "ctx r" and r = r and P = P and count = count and dt = dt and ep = ep and rb = "rb r",
      folded sz_def, unfolded c, OF sizes refl refl r F ok own ep(1) mem ins]
  obtain ep' evs where run: "ep_run (ring_all_gather_inplace (Some (ctx r)) (Ptr (rb r) 0) count dt (int (next_rank P r))) ep =
      Some ((PG_SUCCESS, Some (with_layout count (ctx r))), ep', evs)"
    and o: "ep_out ep' = []" "ep_mem ep' = (m r)(rb r \<mapsto> joined ?F P)" "ep_in ep' = (\<lambda>_. [])"
    and evs: "comm evs = concat (map (step_trace ?sends P (step_batches P count sz cfg) r) [0..<P - 1])"
    by blast
  have "comm evs = rounds_trace M P ids r"
    unfolding evs ids_def rounds_trace_phase sends ..
  with run o show ?thesis
    unfolding gather_result_def by blast
qed

section \<open>Every element is the reduction over all ranks\<close>

definition element :: "nat \<Rightarrow> bytes \<Rightarrow> nat \<Rightarrow> bytes" where
  "element sz data e = slice (e * sz) sz data"

text \<open>Element \<open>i\<close> of block \<open>b\<close>.\<close>

lemma element_joined:
  assumes b: "b < P" and B: "\<And>b. b < P \<Longrightarrow> length (B b) = block_count count P b * sz" and i: "i < block_count count P b"
  shows "element sz (joined B P) (block_offset count P b + i) = element sz (B b) i"
proof -
  have "i * sz + sz \<le> block_count count P b * sz"
    using i by (metis add.commute mult_Suc mult_le_mono1 Suc_leI)
  then have "slice (block_start (\<lambda>b. block_count count P b * sz) b + i * sz) sz (joined B P) = slice (i * sz) sz (B b)"
    by (intro slice_joined [OF b]) (use B in auto)
  then show ?thesis
    by (simp add: element_def block_start_scale block_offset_def add_mult_distrib)
qed

lemma element_input_block:
  assumes "i < block_count count P b"
  shows "element sz (input_block P count sz data b) i = element sz data (block_offset count P b + i)"
proof -
  have "i * sz + sz \<le> block_count count P b * sz"
    using assms by (metis add.commute mult_Suc mult_le_mono1 Suc_leI)
  then show ?thesis
    by (simp add: element_def input_block_def slice_slice add_mult_distrib)
qed

lemma element_partial_block:
  assumes "\<And>x y. length (g x y) = sz" and "i < c b"
  shows "element sz (partial_block P c sz g X b s) i =
    fold g (map (\<lambda>k. element sz (X ((b + k) mod P) b) i) [1..<Suc s]) (element sz (X b b) i)"
proof (induction s)
  case (Suc s)
  have "element sz (partial_block P c sz g X b (Suc s)) i =
      g (element sz (X ((b + Suc s) mod P) b) i) (element sz (partial_block P c sz g X b s) i)"
    using slice_reduce_bytes_elem [OF assms] by (simp add: element_def)
  with Suc.IH show ?case by simp
qed simp

lemma ring_result_element:
  assumes P: "0 < P" and b: "b < P" and len: "\<And>x y. length (g x y) = sz"
    and input: "\<And>r. r < P \<Longrightarrow> length (input r) = count * sz"
    and e: "block_offset count P b \<le> e" "e < block_offset count P b + block_count count P b"
  shows "element sz (ring_result P count sz g input) e =
    combine g (around_ring P (\<lambda>r. element sz (input r) e) b)"
proof -
  let ?c = "block_count count P" and ?X = "\<lambda>r. input_block P count sz (input r)"
  obtain i where i: "e = block_offset count P b + i" "i < ?c b"
    using e by (metis le_add_diff_inverse nat_add_left_cancel_less)
  have "length (reduced_block P ?c sz g ?X b') = ?c b' * sz" if "b' < P" for b'
    unfolding reduced_block_def
    by (rule length_partial_block) (use len that length_input_block [OF P] input in auto)
  then have "element sz (ring_result P count sz g input) e = element sz (reduced_block P ?c sz g ?X b) i"
    unfolding ring_result_def i(1) using i(2) by (intro element_joined [OF b])
  also have "\<dots> = fold g (map (\<lambda>k. element sz (?X ((b + k) mod P) b) i) [1..<Suc (P - 1)]) (element sz (?X b b) i)"
    unfolding reduced_block_def by (rule element_partial_block) (use len i(2) in auto)
  also have "\<dots> = fold g (map (\<lambda>k. element sz (input ((b + k) mod P)) e) [1..<P]) (element sz (input b) e)"
    using P by (simp add: element_input_block [OF i(2)] i(1))
  also have "\<dots> = combine g (around_ring P (\<lambda>r. element sz (input r) e) b)"
    using P b by (simp add: combine_def around_ring_def upt_conv_Cons)
  finally show ?thesis .
qed

lemma decode_combine:
  assumes dec: "\<And>x. et_decode T (et_encode T x) = x" and "xs \<noteq> []"
  shows "et_decode T (combine (stored_op T f) xs) = combine f (map (et_decode T) xs)"
proof -
  have "et_decode T (fold (stored_op T f) ys a) = fold f (map (et_decode T) ys) (et_decode T a)" for ys a
    by (induction ys arbitrary: a) (simp_all add: stored_op_def dec)
  with assms(2) show ?thesis
    by (cases xs) (simp_all add: combine_def)
qed

context ring_reduction
begin

text \<open>The value of an element of the result, for any stored type.\<close>

lemma ring_result_value:
  assumes dec: "\<And>x. et_decode T (et_encode T x) = x" and enc: "\<And>x. length (et_encode T x) = et_size T"
    and P: "0 < P" and input: "\<And>r. r < P \<Longrightarrow> length (input r) = count * et_size T" and e: "e < count"
  shows "et_decode T (element (et_size T) (ring_result P count (et_size T) (stored_op T f) input) e) =
    combine f (map (\<lambda>r. et_decode T (element (et_size T) (input r) e)) [0..<P])"
proof -
  obtain b where b: "b < P" "block_offset count P b \<le> e" "e < block_offset count P b + block_count count P b"
    using block_covering [of e count P P] e block_start_total [OF P] by auto
  have len: "length (stored_op T f x y) = et_size T" for x y
    by (simp add: stored_op_def enc)
  have "et_decode T (element (et_size T) (ring_result P count (et_size T) (stored_op T f) input) e) =
      combine f (map (et_decode T) (around_ring P (\<lambda>r. element (et_size T) (input r) e) b))"
    using P by (simp add: ring_result_element [OF P b(1) len input b(2,3)] decode_combine [OF dec] around_ring_def)
  also have "map (et_decode T) (around_ring P (\<lambda>r. element (et_size T) (input r) e) b) =
      around_ring P (\<lambda>r. et_decode T (element (et_size T) (input r) e)) b"
    by (simp add: around_ring_def)
  finally show ?thesis
    by (simp add: around_ring_combine [OF b(1)])
qed

end

definition int32_at :: "bytes \<Rightarrow> nat \<Rightarrow> 32 word" where
  "int32_at data e = et_decode int32_type (element 4 data e)"

lemma int32_decode: "et_decode int32_type (et_encode int32_type x) = x"
proof -
  have "le_value (le_bytes 4 (unat x)) = unat x mod 256 ^ 4"
    by (rule le_value_le_bytes)
  also have "\<dots> = unat x"
  proof (rule mod_less)
    have "unat x < 2 ^ 32"
      using unsigned_less [of x, where ?'a = nat] by simp
    then show "unat x < 256 ^ 4" by simp
  qed
  finally show ?thesis
    by (simp add: int32_type_def)
qed

section \<open>All-Reduce under every schedule\<close>

lemma all_reduce_schedule:
  assumes "ring_setup P count (datatype_size dt) cfg" and "contexts_ready P cfg sq ctx"
    and "byte_op dt oper = Some g" and "0 < count" and "idle_world P w"
    and "\<And>r. r < P \<Longrightarrow> buffers_ready count (datatype_size dt) input r (memories w r) (ctx r) (sendbuf r) (rb r)"
  shows "every_schedule (sys_step mock_call P)
    (w, \<lambda>r. ring_all_reduce (Some (ctx r)) (sendbuf r) (Ptr (rb r) 0) count dt oper)
    (\<lambda>(w', progs'). idle_world P w' \<and>
      (\<forall>r<P. progs' r = Ret (PG_SUCCESS, Some ((with_layout count (ctx r))\<lparr>sequence := sq + 1\<rparr>)) \<and>
        buffers_after (temporary_buffer (ctx r)) (memories w r) (memories w' r)
          (ring_result P count (datatype_size dt) g input) (rb r)))"
  by (rule schedule_rounds [OF assms(5)], rule all_reduce_contract [OF assms(1,2) _ assms(3,4,6)])

text \<open>The same for what is in the receive buffers when every rank is done.\<close>

definition received_values :: "nat \<Rightarrow> nat \<Rightarrow> (nat \<Rightarrow> nat) \<Rightarrow> nat \<Rightarrow> (nat \<Rightarrow> bytes \<Rightarrow> bool) \<Rightarrow> mock_world \<Rightarrow> bool" where
  "received_values P count rb sz V w =
     (\<forall>r<P. \<exists>buf. memories w r (rb r) = Some buf \<and> length buf = count * sz \<and> (\<forall>e<count. V e buf))"

lemma length_ring_result:
  assumes "0 < P" and "\<And>r. r < P \<Longrightarrow> length (input r) = count * sz" and "\<And>x y. length (g x y) = sz"
  shows "length (ring_result P count sz g input) = count * sz"
  unfolding ring_result_def reduced_block_def
  by (rule length_joined_counts [OF assms(1)], rule length_partial_block) (use assms length_input_block in auto)

lemma all_reduce_done:
  assumes "ring_setup P count (datatype_size dt) cfg" and "contexts_ready P cfg sq ctx"
    and op: "byte_op dt oper = Some g" and "0 < count" and "idle_world P w"
    and bufs: "\<And>r. r < P \<Longrightarrow> buffers_ready count (datatype_size dt) input r (memories w r) (ctx r) (sendbuf r) (rb r)"
    and elements: "\<And>e. e < count \<Longrightarrow> V e (ring_result P count (datatype_size dt) g input)"
  shows "every_schedule (sys_step mock_call P)
    (w, \<lambda>r. ring_all_reduce (Some (ctx r)) (sendbuf r) (Ptr (rb r) 0) count dt oper)
    (\<lambda>(w', progs'). received_values P count rb (datatype_size dt) V w')"
proof (rule every_schedule_weaken [OF all_reduce_schedule [OF assms(1-6)]])
  let ?result = "ring_result P count (datatype_size dt) g input"
  have len: "length (input r) = count * datatype_size dt" if "r < P" for r
    using bufs [OF that] length_load unfolding buffers_ready_def by blast
  have "length ?result = count * datatype_size dt"
    by (rule length_ring_result) (use assms(1) len byte_op_length [OF op] in \<open>auto simp: ring_setup_def\<close>)
  moreover have "m' (rb r) = Some ?result"
    if "r < P" "buffers_after (temporary_buffer (ctx r)) (memories w r) m' ?result (rb r)" for r m'
    using that bufs [OF that(1)] by (auto simp: buffers_after_def buffers_ready_def)
  ultimately have done_rank: "\<exists>buf. m' (rb r) = Some buf \<and> length buf = count * datatype_size dt \<and> (\<forall>e<count. V e buf)"
    if "r < P" "buffers_after (temporary_buffer (ctx r)) (memories w r) m' ?result (rb r)" for r m'
    using that elements by blast
  fix s :: "mock_world \<times> (nat \<Rightarrow> (int \<times> ring_collective_context option) prog)"
  assume s: "case s of (w', progs') \<Rightarrow> idle_world P w' \<and>
      (\<forall>r<P. progs' r = Ret (PG_SUCCESS, Some ((with_layout count (ctx r))\<lparr>sequence := sq + 1\<rparr>)) \<and>
        buffers_after (temporary_buffer (ctx r)) (memories w r) (memories w' r) ?result (rb r))"
  obtain w' progs' where "s = (w', progs')"
    by (cases s)
  with s done_rank show "case s of (w', progs') \<Rightarrow> received_values P count rb (datatype_size dt) V w'"
    unfolding received_values_def by blast
qed

end
