(* ===== verification/Ring_Sequence.thy ===== *)
theory Ring_Sequence
  imports Ring_Correctness
begin

text \<open>
  Successive All-Reduces on the same contexts. There is no barrier between the calls: a rank
  may be collectives ahead of another one. Every job has its own count, datatype, operation and
  buffers, and may work on what an earlier one has left.
\<close>

section \<open>Jobs\<close>

record job =
  job_count :: nat
  job_datatype :: DATATYPE
  job_operation :: OPERATION
  job_send :: "nat \<Rightarrow> pointer"
  job_recv :: "nat \<Rightarrow> nat"

text \<open>Rank \<open>r\<close> calls \<open>ring_all_reduce\<close> for one job after the other and keeps every status.\<close>

fun all_reduces :: "job list \<Rightarrow> nat \<Rightarrow> ring_collective_context option \<Rightarrow> (int list \<times> ring_collective_context option) prog" where
  "all_reduces [] r ctx = Ret ([], ctx)"
| "all_reduces (j # js) r ctx =
     bind (ring_all_reduce ctx (job_send j r) (Ptr (job_recv j r) 0) (job_count j) (job_datatype j) (job_operation j))
       (\<lambda>(status, ctx'). bind (all_reduces js r ctx') (\<lambda>(ss, ctx''). Ret (status # ss, ctx'')))"

text \<open>
  What a job does to the memories \<open>S\<close> of all ranks, apart from the contexts' own vectors: every
  receive buffer gets the reduction of what is in the send buffers.
\<close>

definition job_size :: "job \<Rightarrow> nat" where
  "job_size j = datatype_size (job_datatype j)"

definition job_input :: "job \<Rightarrow> (nat \<Rightarrow> memory) \<Rightarrow> nat \<Rightarrow> bytes" where
  "job_input j S r = the (load (S r) (job_send j r) (job_count j * job_size j))"

definition job_function :: "job \<Rightarrow> bytes \<Rightarrow> bytes \<Rightarrow> bytes" where
  "job_function j = the (byte_op (job_datatype j) (job_operation j))"

definition job_after :: "nat \<Rightarrow> job \<Rightarrow> (nat \<Rightarrow> memory) \<Rightarrow> nat \<Rightarrow> memory" where
  "job_after P j S r = (S r)(job_recv j r \<mapsto> ring_result P (job_count j) (job_size j) (job_function j) (job_input j S))"

fun jobs_after :: "nat \<Rightarrow> job list \<Rightarrow> (nat \<Rightarrow> memory) \<Rightarrow> nat \<Rightarrow> memory" where
  "jobs_after P [] S = S"
| "jobs_after P (j # js) S = jobs_after P js (job_after P j S)"

text \<open>A job that can be run: its buffers are there, outside the vectors \<open>tb\<close>, and do not overlap.\<close>

definition job_ready :: "nat \<Rightarrow> ring_collective_config \<Rightarrow> (nat \<Rightarrow> nat) \<Rightarrow> job \<Rightarrow> (nat \<Rightarrow> memory) \<Rightarrow> bool" where
  "job_ready P cfg tb j S =
     (0 < job_count j \<and> ring_setup P (job_count j) (job_size j) cfg \<and> byte_op (job_datatype j) (job_operation j) \<noteq> None \<and>
      (\<forall>r<P. load (S r) (job_send j r) (job_count j * job_size j) \<noteq> None \<and>
         (job_send j r = Ptr (job_recv j r) 0 \<or>
          region_disjoint (Ptr (job_recv j r) 0) (job_count j * job_size j) (job_send j r) (job_count j * job_size j)) \<and>
         (\<forall>off. job_send j r \<noteq> Ptr (tb r) off) \<and> job_recv j r \<noteq> tb r \<and>
         (\<exists>R. S r (job_recv j r) = Some R \<and> length R = job_count j * job_size j)))"

fun jobs_ready :: "nat \<Rightarrow> ring_collective_config \<Rightarrow> (nat \<Rightarrow> nat) \<Rightarrow> job list \<Rightarrow> (nat \<Rightarrow> memory) \<Rightarrow> bool" where
  "jobs_ready P cfg tb [] S = True"
| "jobs_ready P cfg tb (j # js) S = (job_ready P cfg tb j S \<and> jobs_ready P cfg tb js (job_after P j S))"

section \<open>The rounds of all jobs\<close>

text \<open>A round is what each rank sends in it.\<close>

type_synonym sends = "nat \<Rightarrow> (pg_tag \<times> bytes) list"

definition job_rounds :: "nat \<Rightarrow> ring_collective_config \<Rightarrow> 32 word \<Rightarrow> job \<Rightarrow> (nat \<Rightarrow> memory) \<Rightarrow> sends list" where
  "job_rounds P cfg sq j S =
     map (\<lambda>i r. all_reduce_messages P (job_count j) (job_size j) (job_function j)
         (\<lambda>q. input_block P (job_count j) (job_size j) (job_input j S q)) sq cfg r i)
       (all_reduce_rounds P (step_batches P (job_count j) (job_size j) cfg))"

fun jobs_rounds :: "nat \<Rightarrow> ring_collective_config \<Rightarrow> 32 word \<Rightarrow> job list \<Rightarrow> (nat \<Rightarrow> memory) \<Rightarrow> sends list" where
  "jobs_rounds P cfg sq [] S = []"
| "jobs_rounds P cfg sq (j # js) S = job_rounds P cfg sq j S @ jobs_rounds P cfg (sq + 1) js (job_after P j S)"

definition sends_of :: "nat \<Rightarrow> sends \<Rightarrow> (pg_tag \<times> bytes) list" where
  "sends_of r i = i r"

lemma rounds_trace_append: "rounds_trace M P (xs @ ys) r = rounds_trace M P xs r @ rounds_trace M P ys r"
  by (simp add: rounds_trace_def)

lemma rounds_trace_sends: "rounds_trace sends_of P (map (\<lambda>i r. M r i) ids) r = rounds_trace M P ids r"
  by (induction ids) (simp_all add: rounds_trace_def round_events_def sends_of_def)

lemma map_sends: "map (sends_of r) (map (\<lambda>i r. M r i) ids) = map (M r) ids"
  by (simp add: sends_of_def)

section \<open>One rank on the contract\<close>

text \<open>The context between two jobs: everything but the layout is as it was made.\<close>

definition context_between :: "nat \<Rightarrow> ring_collective_config \<Rightarrow> nat \<Rightarrow> 32 word \<Rightarrow> nat \<Rightarrow> ring_collective_context \<Rightarrow> bool" where
  "context_between P cfg tb sq r ctx =
     (rank ctx = int r \<and> world_size ctx = int P \<and> config ctx = cfg \<and> sequence ctx = sq \<and> temporary_buffer ctx = tb)"

text \<open>What a job makes of the context of a rank.\<close>

definition job_context :: "job \<Rightarrow> ring_collective_context \<Rightarrow> ring_collective_context" where
  "job_context j ctx = (with_layout (job_count j) ctx)\<lparr>sequence := sequence ctx + 1\<rparr>"

fun jobs_context :: "job list \<Rightarrow> ring_collective_context \<Rightarrow> ring_collective_context" where
  "jobs_context [] ctx = ctx"
| "jobs_context (j # js) ctx = jobs_context js (job_context j ctx)"

lemma context_between_job: "context_between P cfg tb sq r ctx \<Longrightarrow> context_between P cfg tb (sq + 1) r (job_context j ctx)"
  by (simp add: context_between_def job_context_def)

lemma context_between_jobs:
  "context_between P cfg tb sq r ctx \<Longrightarrow> context_between P cfg tb (sq + of_nat (length js)) r (jobs_context js ctx)"
proof (induction js arbitrary: sq ctx)
  case (Cons j js)
  from Cons.IH [OF context_between_job [OF Cons.prems, of j]] show ?case
    by (simp add: algebra_simps)
qed simp

lemma load_other_block: "(\<And>off. p \<noteq> Ptr b off) \<Longrightarrow> load (m(b \<mapsto> T)) p n = load m p n"
  by (cases p) auto

lemma job_buffers:
  assumes "job_ready P cfg tb j S" and "q < P" and "temporary_buffer ctx = tb q"
  shows "buffers_ready (job_count j) (job_size j) (job_input j S) q ((S q)(tb q \<mapsto> T)) ctx (job_send j q) (job_recv j q)"
proof -
  let ?n = "job_count j * job_size j"
  have q: "load (S q) (job_send j q) ?n = Some (job_input j S q)" "job_recv j q \<noteq> tb q" "\<And>off. job_send j q \<noteq> Ptr (tb q) off"
      "job_send j q = Ptr (job_recv j q) 0 \<or> region_disjoint (Ptr (job_recv j q) 0) ?n (job_send j q) ?n"
      "\<exists>R. S q (job_recv j q) = Some R \<and> length R = ?n"
    using assms(1,2) by (auto simp: job_ready_def job_input_def)
  have "load ((S q)(tb q \<mapsto> T)) (job_send j q) ?n = Some (job_input j S q)"
    by (simp add: load_other_block [OF q(3)] q(1))
  with q assms(3) show ?thesis by (simp add: buffers_ready_def)
qed

lemma job_run:
  assumes ready: "job_ready P cfg tb j S" and r: "r < P" and ctx: "context_between P cfg (tb r) sq r ctx"
    and ep: "ep_out ep = []" "ep_mem ep = (S r)(tb r \<mapsto> T)"
      "ep_in ep = feed (concat (map (sends_of (prev_rank P r)) (job_rounds P cfg sq j S))) rest"
  shows "\<exists>ep' evs T'. ep_run (ring_all_reduce (Some ctx) (job_send j r) (Ptr (job_recv j r) 0) (job_count j) (job_datatype j) (job_operation j)) ep =
      Some ((PG_SUCCESS, Some (job_context j ctx)), ep', evs) \<and> ep_out ep' = [] \<and>
    ep_mem ep' = (job_after P j S r)(tb r \<mapsto> T') \<and> ep_in ep' = rest \<and>
    comm evs = rounds_trace sends_of P (job_rounds P cfg sq j S) r"
proof -
  let ?n = "job_count j" and ?sz = "job_size j" and ?g = "job_function j" and ?input = "job_input j S"
  let ?M = "all_reduce_messages P ?n ?sz ?g (\<lambda>q. input_block P ?n ?sz (?input q)) sq cfg"
  let ?ctx = "\<lambda>q. ctx\<lparr>rank := int q, temporary_buffer := tb q\<rparr>"
  have J: "0 < ?n" "ring_setup P ?n ?sz cfg" "byte_op (job_datatype j) (job_operation j) = Some ?g"
    using ready by (auto simp: job_ready_def job_function_def)
  have bufs: "buffers_ready ?n ?sz ?input q ((S q)(tb q \<mapsto> T)) (?ctx q) (job_send j q) (job_recv j q)" if "q < P" for q
    by (rule job_buffers [OF ready that]) simp
  have c: "?ctx r = ctx" "temporary_buffer ctx = tb r" "sequence ctx = sq"
    using ctx by (simp_all add: context_between_def)
  have ready': "contexts_ready P cfg sq ?ctx"
    using ctx by (simp add: contexts_ready_def context_between_def)
  have ins: "ep_in ep = feed (concat (map (?M (prev_rank P r)) (all_reduce_rounds P (step_batches P ?n ?sz cfg)))) rest"
    unfolding ep(3) job_rounds_def map_sends ..
  note contract = all_reduce_contract [where m = "\<lambda>q. (S q)(tb q \<mapsto> T)" and ctx = ?ctx and sendbuf = "job_send j" and rb = "job_recv j" and
        dt = "job_datatype j" and input = ?input and rest = rest and ep = ep,
        folded job_size_def, OF J(2) ready' r J(3,1) bufs ep(1,2) ins, unfolded c(1), unfolded c(2)]
  obtain ep' evs where run: "ep_run (ring_all_reduce (Some ctx) (job_send j r) (Ptr (job_recv j r) 0) ?n (job_datatype j) (job_operation j)) ep =
      Some ((PG_SUCCESS, Some (job_context j ctx)), ep', evs)" "ep_out ep' = []"
      "buffers_after (tb r) ((S r)(tb r \<mapsto> T)) (ep_mem ep') (ring_result P ?n ?sz ?g ?input) (job_recv j r)"
      "ep_in ep' = rest" "comm evs = rounds_trace ?M P (all_reduce_rounds P (step_batches P ?n ?sz cfg)) r"
    using contract unfolding job_context_def c(3) by blast
  obtain T' where "ep_mem ep' = (S r)(tb r \<mapsto> T, job_recv j r \<mapsto> ring_result P ?n ?sz ?g ?input, tb r \<mapsto> T')"
    using run(3) by (auto simp: buffers_after_def)
  then have "ep_mem ep' = (job_after P j S r)(tb r \<mapsto> T')"
    by (auto simp: job_after_def fun_eq_iff)
  moreover have "comm evs = rounds_trace sends_of P (job_rounds P cfg sq j S) r"
    unfolding run(5) job_rounds_def rounds_trace_sends ..
  ultimately show ?thesis
    using run(1,2,4) by blast
qed

lemma jobs_run:
  assumes "r < P"
  shows "jobs_ready P cfg tb js S \<Longrightarrow> context_between P cfg (tb r) sq r ctx \<Longrightarrow> ep_out ep = [] \<Longrightarrow>
    ep_mem ep = (S r)(tb r \<mapsto> T) \<Longrightarrow> ep_in ep = feed (concat (map (sends_of (prev_rank P r)) (jobs_rounds P cfg sq js S))) rest \<Longrightarrow>
    \<exists>ep' evs T'. ep_run (all_reduces js r (Some ctx)) ep = Some ((replicate (length js) PG_SUCCESS, Some (jobs_context js ctx)), ep', evs) \<and>
      ep_out ep' = [] \<and> ep_mem ep' = (jobs_after P js S r)(tb r \<mapsto> T') \<and> ep_in ep' = rest \<and>
      comm evs = rounds_trace sends_of P (jobs_rounds P cfg sq js S) r"
proof (induction js arbitrary: S sq ctx ep T)
  case Nil
  then show ?case by (auto simp: rounds_trace_def comm_def)
next
  case (Cons j js)
  let ?in = "feed (concat (map (sends_of (prev_rank P r)) (jobs_rounds P cfg (sq + 1) js (job_after P j S)))) rest"
  have now: "job_ready P cfg tb j S" and later: "jobs_ready P cfg tb js (job_after P j S)"
    using Cons.prems(1) by simp_all
  have ins: "ep_in ep = feed (concat (map (sends_of (prev_rank P r)) (job_rounds P cfg sq j S))) ?in"
    using Cons.prems(5) by (simp add: feed_append)
  obtain ep1 evs1 T1 where one: "ep_run (ring_all_reduce (Some ctx) (job_send j r) (Ptr (job_recv j r) 0) (job_count j) (job_datatype j) (job_operation j)) ep =
      Some ((PG_SUCCESS, Some (job_context j ctx)), ep1, evs1)" "ep_out ep1 = []"
      "ep_mem ep1 = (job_after P j S r)(tb r \<mapsto> T1)" "ep_in ep1 = ?in"
      "comm evs1 = rounds_trace sends_of P (job_rounds P cfg sq j S) r"
    using job_run [where tb = tb and S = S and j = j and rest = ?in, OF now assms Cons.prems(2-4) ins] by blast
  obtain ep2 evs2 T2 where
      "ep_run (all_reduces js r (Some (job_context j ctx))) ep1 =
        Some ((replicate (length js) PG_SUCCESS, Some (jobs_context js (job_context j ctx))), ep2, evs2)"
      "ep_out ep2 = []" "ep_mem ep2 = (jobs_after P js (job_after P j S) r)(tb r \<mapsto> T2)" "ep_in ep2 = rest"
      "comm evs2 = rounds_trace sends_of P (jobs_rounds P cfg (sq + 1) js (job_after P j S)) r"
    using Cons.IH [where S = "job_after P j S", OF later context_between_job [OF Cons.prems(2)] one(2-4)] by blast
  with one(1,5) show ?case
    by (intro exI [of _ ep2] exI [of _ "evs1 @ evs2"] exI [of _ T2]) (simp add: ep_run_bind rounds_trace_append comm_append)
qed

section \<open>All ranks\<close>

lemma jobs_schedule:
  assumes idle: "idle_world P w" and ready: "jobs_ready P cfg tb js S"
    and ctx: "\<And>r. r < P \<Longrightarrow> context_between P cfg (tb r) sq r (ctx r)"
    and mem: "\<And>r. r < P \<Longrightarrow> \<exists>T. memories w r = (S r)(tb r \<mapsto> T)"
  shows "every_schedule (sys_step mock_call P) (w, \<lambda>r. all_reduces js r (Some (ctx r)))
    (\<lambda>(w', progs'). idle_world P w' \<and>
      (\<forall>r<P. progs' r = Ret (replicate (length js) PG_SUCCESS, Some (jobs_context js (ctx r))) \<and>
         (\<exists>T. memories w' r = (jobs_after P js S r)(tb r \<mapsto> T))))"
proof (rule schedule_rounds [where M = sends_of and ids = "jobs_rounds P cfg sq js S", OF idle])
  fix r and ep :: endpoint
  assume r: "r < P" and ep: "ep_out ep = []" "ep_mem ep = memories w r"
    "ep_in ep = feed (concat (map (sends_of (prev_rank P r)) (jobs_rounds P cfg sq js S))) (\<lambda>_. [])"
  obtain T where T: "memories w r = (S r)(tb r \<mapsto> T)"
    using mem [OF r] by blast
  show "\<exists>ep' evs. ep_run (all_reduces js r (Some (ctx r))) ep =
      Some ((replicate (length js) PG_SUCCESS, Some (jobs_context js (ctx r))), ep', evs) \<and> ep_out ep' = [] \<and>
      (\<exists>T. ep_mem ep' = (jobs_after P js S r)(tb r \<mapsto> T)) \<and> ep_in ep' = (\<lambda>_. []) \<and>
      comm evs = rounds_trace sends_of P (jobs_rounds P cfg sq js S) r"
    using jobs_run [where tb = tb and S = S, OF r ready ctx [OF r] ep(1) trans [OF ep(2) T] ep(3)] by blast
qed

end
