(* ===== verification/Ring_Inflight.thy ===== *)
theory Ring_Inflight
  imports Ring_Collectives
begin

text \<open>
  What the collectives do whatever the transport answers: how many requests they have in
  flight at any time, what is in flight when they return, and which results they can have.
  The statements quantify over every answer of every call, failures included.
\<close>

section \<open>Programs against arbitrary answers\<close>

text \<open>
  The number of requests in flight after a call: a post that succeeds adds one, a wait
  consumes one (\<open>pg_transport_wait\<close> takes the request back whatever its status is).
\<close>

definition in_flight_after :: "call \<Rightarrow> resp \<Rightarrow> nat \<Rightarrow> nat" where
  "in_flight_after c x n =
     (case c of
        Post_send_next _ _ _ _ _ \<Rightarrow> if fst x = 0 then Suc n else n
      | Post_recv_prev _ _ _ _ _ \<Rightarrow> if fst x = 0 then Suc n else n
      | Wait _ \<Rightarrow> n - 1
      | _ \<Rightarrow> n)"

text \<open>Never more than \<open>b\<close> requests in flight, and \<open>Q\<close> of the result and what is in flight then.\<close>

primrec in_flight_within :: "nat \<Rightarrow> ('a \<Rightarrow> nat \<Rightarrow> bool) \<Rightarrow> 'a prog \<Rightarrow> nat \<Rightarrow> bool" where
  "in_flight_within b Q (Ret a) n = Q a n"
| "in_flight_within b Q (Call c k) n =
     (\<forall>x. in_flight_after c x n \<le> b \<and> in_flight_within b Q (k x) (in_flight_after c x n))"

lemma in_flight_bind:
  "in_flight_within b (\<lambda>a. in_flight_within b Q (f a)) p n \<Longrightarrow> in_flight_within b Q (bind p f) n"
  by (induction p arbitrary: n) auto

lemma in_flight_weaken:
  "in_flight_within b Q p n \<Longrightarrow> (\<And>a m. Q a m \<Longrightarrow> Q' a m) \<Longrightarrow> in_flight_within b Q' p n"
  by (induction p arbitrary: n) auto

lemma in_flight_bindE:
  assumes "in_flight_within b (case_sum (\<lambda>e m. Q (Inl e) m) (\<lambda>a m. in_flight_within b Q (f a) m)) p n"
  shows "in_flight_within b Q (bindE p f) n"
  unfolding bindE_def
  by (rule in_flight_bind, rule in_flight_weaken [OF assms]) (auto split: sum.splits)

text \<open>
  A result of a part of a routine: an early return never has the status of success, and what
  goes on leaves \<open>m\<close> requests in flight.
\<close>

definition leaves :: "nat \<Rightarrow> int + 'a \<Rightarrow> nat \<Rightarrow> bool" where
  "leaves m r n = (case r of Inl status \<Rightarrow> status \<noteq> PG_SUCCESS | Inr _ \<Rightarrow> n = m)"

lemma leaves_simps [simp]: "leaves m (Inl status) n = (status \<noteq> PG_SUCCESS)" "leaves m (Inr a) n = (n = m)"
  by (simp_all add: leaves_def)

lemma in_flight_seq:
  assumes "in_flight_within b (leaves m) p n" and "\<And>a. in_flight_within b (leaves m') (f a) m"
  shows "in_flight_within b (leaves m') (bindE p f) n"
  by (rule in_flight_bindE, rule in_flight_weaken [OF assms(1)])
     (use assms(2) in \<open>auto simp: leaves_def split: sum.splits\<close>)

section \<open>The loops\<close>

lemma in_flight_post:
  assumes "n < b" and "post = pg_transport_post_send_next buf len tag mode rq \<or> post = pg_transport_post_recv_prev buf len tag mode rq"
  shows "in_flight_within b (leaves (Suc n)) (record_posted j off el post) n"
  using assms
  by (auto simp: record_posted_def pg_transport_post_send_next_def pg_transport_post_recv_prev_def in_flight_after_def leaves_def)

lemma in_flight_for_pieces:
  assumes post: "\<And>j m. m < b \<Longrightarrow> in_flight_within b (leaves (Suc m)) (post j) m" and "n + (e - i) \<le> b"
  shows "in_flight_within b (case_sum (\<lambda>status _. status \<noteq> PG_SUCCESS) (\<lambda>rs m. m + length acc = n + length rs \<and> m \<le> n + (e - i)))
    (for_pieces post i e acc) n"
  using assms(2)
proof (induction "e - i" arbitrary: i acc n)
  case 0
  then show ?case by (simp add: for_pieces.simps)
next
  case (Suc k)
  then have i: "i < e" by simp
  have "in_flight_within b (leaves (Suc n)) (post i) n"
    using Suc.prems i by (intro post) simp
  moreover have "in_flight_within b (case_sum (\<lambda>status _. status \<noteq> PG_SUCCESS) (\<lambda>rs m. m + length acc = n + length rs \<and> m \<le> n + (e - i)))
      (for_pieces post (Suc i) e (acc @ [x])) (Suc n)" for x
    by (rule in_flight_weaken, rule Suc.hyps(1)) (use Suc.hyps(2) Suc.prems i in \<open>auto split: sum.splits\<close>)
  ultimately show ?case
    by (subst for_pieces.simps) (auto simp: i leaves_def intro!: in_flight_bindE elim!: in_flight_weaken split: sum.splits)
qed

lemma in_flight_wait_requests:
  "length rs \<le> n \<Longrightarrow> n \<le> b \<Longrightarrow> in_flight_within b (leaves (n - length rs)) (wait_requests rs) n"
proof (induction rs arbitrary: n)
  case (Cons x rs)
  have "in_flight_within b (leaves (n - 1 - length rs)) (wait_requests rs) (n - 1)"
    by (rule Cons.IH) (use Cons.prems in auto)
  with Cons.prems show ?case
    by (auto simp: pg_transport_wait_def in_flight_after_def)
qed (simp add: leaves_def)

lemma in_flight_rs_wait_recvs:
  "length rs \<le> n \<Longrightarrow> n \<le> b \<Longrightarrow>
   in_flight_within b (leaves (n - length rs)) (rs_wait_recvs ctx workbuf sz blk dt oper rs) n"
proof (induction rs arbitrary: n)
  case (Cons x rs)
  have "in_flight_within b (leaves (n - 1 - length rs)) (rs_wait_recvs ctx workbuf sz blk dt oper rs) (n - 1)"
    by (rule Cons.IH) (use Cons.prems in auto)
  with Cons.prems show ?case
    by (auto simp: pg_transport_wait_def call_reduce_in_place_def in_flight_after_def Let_def)
qed (simp add: leaves_def)

lemma in_flight_for_batches:
  assumes "\<And>k. in_flight_within b (leaves 0) (body k) 0"
  shows "in_flight_within b (leaves 0) (for_batches body i n) 0"
proof (induction "n - i" arbitrary: i)
  case 0
  then show ?case by (simp add: for_batches.simps leaves_def)
next
  case (Suc k)
  then show ?case
    by (subst for_batches.simps) (auto intro!: in_flight_seq assms)
qed

lemma in_flight_for_steps:
  assumes "\<And>k. in_flight_within b (leaves 0) (body k) 0"
  shows "in_flight_within b (leaves 0) (for_steps body i n) 0"
proof (induction "nat (n - i)" arbitrary: i)
  case 0
  then show ?case by (simp add: for_steps.simps leaves_def)
next
  case (Suc k)
  then have "i < n" "k = nat (n - (i + 1))" by simp_all
  with Suc.hyps(1) show ?case
    by (subst for_steps.simps) (auto intro!: in_flight_seq assms)
qed

section \<open>Batches\<close>

text \<open>A batch posts at most \<open>cap\<close> receives and at most \<open>cap\<close> sends, even if \<open>begin + cap\<close> wraps.\<close>

lemma batch_width: "min (size_add begin cap) np - begin \<le> cap"
proof -
  have "size_add begin cap \<le> begin + cap"
    by (simp add: size_add_def)
  then show ?thesis by linarith
qed

lemma in_flight_batch:
  assumes rpost: "\<And>j m. m < 2 * cap \<Longrightarrow> in_flight_within (2 * cap) (leaves (Suc m)) (rpost j) m"
    and spost: "\<And>j m. m < 2 * cap \<Longrightarrow> in_flight_within (2 * cap) (leaves (Suc m)) (spost j) m"
    and wait: "\<And>rs n. length rs \<le> n \<Longrightarrow> n \<le> 2 * cap \<Longrightarrow> in_flight_within (2 * cap) (leaves (n - length rs)) (wait rs) n"
  shows "in_flight_within (2 * cap) (leaves 0)
    (bindE (for_pieces rpost i (min (size_add i cap) rp) []) (\<lambda>rr.
     bindE (for_pieces spost i (min (size_add i cap) sp) []) (\<lambda>sr.
     bindE (wait rr) (\<lambda>_. wait_requests sr)))) 0"
proof -
  let ?re = "min (size_add i cap) rp" and ?se = "min (size_add i cap) sp"
  have waits: "in_flight_within (2 * cap) (leaves 0) (bindE (wait rr) (\<lambda>_. wait_requests sr)) (length rr + length sr)"
    if "length rr + length sr \<le> 2 * cap" for rr sr
  proof (rule in_flight_seq)
    show "in_flight_within (2 * cap) (leaves (length sr)) (wait rr) (length rr + length sr)"
      using wait [of rr "length rr + length sr"] that by simp
    show "in_flight_within (2 * cap) (leaves 0) (wait_requests sr) (length sr)"
      using in_flight_wait_requests [of sr "length sr" "2 * cap"] that by simp
  qed
  have sends: "in_flight_within (2 * cap) (leaves 0) (bindE (for_pieces spost i ?se []) (\<lambda>sr.
      bindE (wait rr) (\<lambda>_. wait_requests sr))) (length rr)" if "length rr \<le> cap" for rr
  proof (rule in_flight_bindE, rule in_flight_weaken)
    show "in_flight_within (2 * cap) (case_sum (\<lambda>status _. status \<noteq> PG_SUCCESS)
        (\<lambda>rs m. m + length ([] :: PostedRequest list) = length rr + length rs \<and> m \<le> length rr + (?se - i))) (for_pieces spost i ?se []) (length rr)"
      by (rule in_flight_for_pieces [OF spost]) (assumption, insert that batch_width [of i cap sp], linarith)
    show "case_sum (\<lambda>e. leaves 0 (Inl e)) (\<lambda>sr. in_flight_within (2 * cap) (leaves 0) (bindE (wait rr) (\<lambda>_. wait_requests sr))) a m"
      if "case_sum (\<lambda>status _. status \<noteq> PG_SUCCESS) (\<lambda>rs m. m + length ([] :: PostedRequest list) = length rr + length rs \<and> m \<le> length rr + (?se - i)) a m" for a m
      using that \<open>length rr \<le> cap\<close> batch_width [of i cap sp] waits [of rr]
      by (cases a) (auto simp: leaves_def)
  qed
  show ?thesis
  proof (rule in_flight_bindE, rule in_flight_weaken)
    show "in_flight_within (2 * cap) (case_sum (\<lambda>status _. status \<noteq> PG_SUCCESS)
        (\<lambda>rs m. m + length ([] :: PostedRequest list) = 0 + length rs \<and> m \<le> 0 + (?re - i))) (for_pieces rpost i ?re []) 0"
      by (rule in_flight_for_pieces [OF rpost]) (assumption, insert batch_width [of i cap rp], linarith)
    show "case_sum (\<lambda>e. leaves 0 (Inl e)) (\<lambda>rr. in_flight_within (2 * cap) (leaves 0) (bindE (for_pieces spost i ?se []) (\<lambda>sr.
        bindE (wait rr) (\<lambda>_. wait_requests sr)))) a m"
      if "case_sum (\<lambda>status _. status \<noteq> PG_SUCCESS) (\<lambda>rs m. m + length ([] :: PostedRequest list) = 0 + length rs \<and> m \<le> 0 + (?re - i)) a m" for a m
      using that batch_width [of i cap rp] sends by (cases a) (auto simp: leaves_def)
  qed
qed

lemma in_flight_posts:
  assumes "m < b"
  shows "in_flight_within b (leaves (Suc m)) (rs_post_recv ctx sz pe rc step j) m"
    and "in_flight_within b (leaves (Suc m)) (rs_post_send ctx workbuf sz pe blk sc step j) m"
    and "in_flight_within b (leaves (Suc m)) (ag_post_recv ctx workbuf sz pe blk rc step j) m"
    and "in_flight_within b (leaves (Suc m)) (ag_post_send ctx workbuf sz pe blk sc step j) m"
proof -
  have recv: "in_flight_within b (leaves (Suc m)) (record_posted j off el (pg_transport_post_recv_prev buf len tag mode rq)) m"
    and send: "in_flight_within b (leaves (Suc m)) (record_posted j off el (pg_transport_post_send_next buf len tag mode rq)) m"
    for off el buf len tag mode rq
    by (rule in_flight_post [OF assms], blast)+
  show "in_flight_within b (leaves (Suc m)) (rs_post_recv ctx sz pe rc step j) m"
    and "in_flight_within b (leaves (Suc m)) (rs_post_send ctx workbuf sz pe blk sc step j) m"
    and "in_flight_within b (leaves (Suc m)) (ag_post_recv ctx workbuf sz pe blk rc step j) m"
    and "in_flight_within b (leaves (Suc m)) (ag_post_send ctx workbuf sz pe blk sc step j) m"
    unfolding rs_post_recv_def rs_post_send_def ag_post_recv_def ag_post_send_def Let_def
    by (auto simp: recv send make_tag_def split: sum.split)
qed

lemma in_flight_rs_batch:
  "in_flight_within (2 * max_inflight (config ctx)) (leaves 0)
     (rs_batch ctx workbuf sz pe dt oper step sb rb k) 0"
  unfolding rs_batch_def Let_def
  by (intro in_flight_batch in_flight_posts in_flight_rs_wait_recvs)

lemma in_flight_ag_batch:
  "in_flight_within (2 * max_inflight (config ctx)) (leaves 0) (ag_batch ctx workbuf sz pe step sb rb k) 0"
  unfolding ag_batch_def Let_def
  by (intro in_flight_batch in_flight_posts in_flight_wait_requests)

section \<open>The routines\<close>

lemma in_flight_silent:
  assumes "n \<le> b"
  shows "(\<And>x. in_flight_within b Q (f x) n) \<Longrightarrow> in_flight_within b Q (bind (call_resize blk len) f) n"
    and "(\<And>x. in_flight_within b Q (f x) n) \<Longrightarrow> in_flight_within b Q (bind (call_memcpy dst src len) f) n"
  using assms by (simp_all add: call_resize_def call_memcpy_def in_flight_after_def)

text \<open>The end of a routine: a status for an early return, another result otherwise.\<close>

lemma in_flight_finish:
  assumes "in_flight_within b (leaves m) p n" and "\<And>a. Q (ok a) m" and "\<And>status k. status \<noteq> PG_SUCCESS \<Longrightarrow> Q (err status) k"
  shows "in_flight_within b Q (bind p (case_sum (\<lambda>status. Ret (err status)) (\<lambda>a. Ret (ok a)))) n"
  by (rule in_flight_bind, rule in_flight_weaken [OF assms(1)]) (use assms(2,3) in \<open>auto split: sum.splits\<close>)

lemma in_flight_reduce_scatter:
  "in_flight_within (2 * max_inflight (config ctx))
     (\<lambda>(status, c, owned) n. (\<exists>l. c = Some (ctx\<lparr>layout := l\<rparr>)) \<and>
        (status = PG_SUCCESS \<longrightarrow> n = 0 \<and> owned = Some (positive_mod (rank ctx + 1) (world_size ctx))) \<and>
        (status \<noteq> PG_SUCCESS \<longrightarrow> owned = owned_block))
     (ring_reduce_scatter_inplace (Some ctx) workbuf count dt oper owned_block) 0"
proof -
  have same: "\<exists>l. ctx = ctx\<lparr>layout := l\<rparr>"
    by (rule exI [of _ "layout ctx"]) simp
  have steps: "in_flight_within (2 * max_inflight (config ctx)) (leaves 0)
      (for_steps (rs_step (ctx\<lparr>layout := l\<rparr>) workbuf sz pe dt oper) 0 m) 0" for l sz pe m
    unfolding rs_step_def Let_def
    by (intro in_flight_for_steps in_flight_for_batches) (rule in_flight_rs_batch [of "ctx\<lparr>layout := l\<rparr>", simplified])
  show ?thesis
    by (auto simp: ring_reduce_scatter_inplace_def Let_def same split: prod.split
        intro!: in_flight_silent in_flight_finish [OF steps])
qed

lemma in_flight_all_gather:
  "in_flight_within (2 * max_inflight (config ctx))
     (\<lambda>(status, c) n. (\<exists>l. c = Some (ctx\<lparr>layout := l\<rparr>)) \<and> (status = PG_SUCCESS \<longrightarrow> n = 0))
     (ring_all_gather_inplace (Some ctx) workbuf count dt owned) 0"
proof -
  have same: "\<exists>l. ctx = ctx\<lparr>layout := l\<rparr>"
    by (rule exI [of _ "layout ctx"]) simp
  have steps: "in_flight_within (2 * max_inflight (config ctx)) (leaves 0)
      (for_steps (ag_step (ctx\<lparr>layout := l\<rparr>) workbuf sz pe) 0 m) 0" for l sz pe m
    unfolding ag_step_def Let_def
    by (intro in_flight_for_steps in_flight_for_batches) (rule in_flight_ag_batch [of "ctx\<lparr>layout := l\<rparr>", simplified])
  show ?thesis
    by (auto simp: ring_all_gather_inplace_def Let_def same split: prod.split
        intro!: in_flight_finish [OF steps])
qed

text \<open>
  The result of an All-Reduce: the context keeps its rank, size, configuration and buffer; its
  sequence number moves on exactly when the status is success.
\<close>

definition all_reduce_outcome :: "ring_collective_context \<Rightarrow> int \<times> ring_collective_context option \<Rightarrow> nat \<Rightarrow> bool" where
  "all_reduce_outcome ctx = (\<lambda>(status, c) n.
     (\<exists>l. c = Some (ctx\<lparr>layout := l, sequence := (if status = PG_SUCCESS then sequence ctx + 1 else sequence ctx)\<rparr>)) \<and>
     (status = PG_SUCCESS \<longrightarrow> n = 0))"

lemma in_flight_all_reduce:
  "in_flight_within (2 * max_inflight (config ctx)) (all_reduce_outcome ctx)
     (ring_all_reduce (Some ctx) sendbuf recvbuf count dt oper) 0"
proof -
  let ?b = "2 * max_inflight (config ctx)" and ?Q = "all_reduce_outcome ctx"
  have failed: "?Q (status, Some (ctx\<lparr>layout := l\<rparr>)) n" if "status \<noteq> PG_SUCCESS" for status l n
    using that by (auto simp: all_reduce_outcome_def intro: exI [of _ l])
  have unchanged: "?Q (status, Some ctx) n" if "status \<noteq> PG_SUCCESS" for status n
    using failed [OF that, of "layout ctx" n] by simp
  have gather: "in_flight_within ?b ?Q (bind (ring_all_gather_inplace (Some (ctx\<lparr>layout := l\<rparr>)) recvbuf count dt owned)
      (\<lambda>(status, c). if status = PG_SUCCESS then Ret (status, map_option (\<lambda>c. c\<lparr>sequence := sequence c + 1\<rparr>) c)
        else Ret (status, c))) 0" for l owned
    by (rule in_flight_bind, rule in_flight_weaken [OF in_flight_all_gather [of "ctx\<lparr>layout := l\<rparr>", simplified]])
       (auto simp: all_reduce_outcome_def)
  have scatter: "in_flight_within ?b ?Q (bind (ring_reduce_scatter_inplace (Some ctx) recvbuf count dt oper (Some (-1)))
      (\<lambda>(status, c, owned). if status \<noteq> PG_SUCCESS then Ret (status, c)
        else bind (ring_all_gather_inplace c recvbuf count dt (the owned))
          (\<lambda>(status, c). if status = PG_SUCCESS then Ret (status, map_option (\<lambda>c. c\<lparr>sequence := sequence c + 1\<rparr>) c)
            else Ret (status, c)))) 0"
    by (rule in_flight_bind, rule in_flight_weaken [OF in_flight_reduce_scatter])
       (auto simp: gather [unfolded PG_SUCCESS_def] failed split: if_splits)
  show ?thesis
    using scatter
    by (auto simp: ring_all_reduce_def Let_def unchanged intro!: in_flight_silent(2))
qed

end
