(* ===== verification/Mock_Properties.thy ===== *)
theory Mock_Properties
  imports Mock_Interpretation
begin

text \<open>
  What the mock transport guarantees its users: waits consume their requests, receives match by
  tag and in order, the counter of outstanding requests counts them, and every operation
  refines the contract of \<open>pg_transport.h\<close>.
\<close>

section \<open>What a wait and a post do to the requests\<close>

lemma finish_wait_simps:
  assumes "endpoints w r = Some e"
  shows "finish_wait r a st w =
    (w\<lparr>endpoints := (endpoints w)(r := Some (e\<lparr>stats := record_completion (stats e)\<rparr>)),
       requests := (requests w)(r := (requests w r)(a := None))\<rparr>, st, null_request)"
  using assms by (simp add: finish_wait_def update_endpoint_def Let_def)

text \<open>A wait that returns has dropped its request; it touches no other rank's.\<close>

lemma mock_wait_returns:
  assumes "mock_wait (Some r) rq w = Some (w', x)" and "internal rq = Some a"
  obtains e st where "requests w r a \<noteq> None" and "endpoints w r = Some e" and "x = (st, null_request)"
    and "requests w' = (requests w)(r := (requests w r)(a := None))" and "next_addr w' = next_addr w"
    and "endpoints w' = (endpoints w)(r := Some (e\<lparr>stats := record_completion (stats e)\<rparr>))"
  using assms by (auto simp: mock_wait_def finish_wait_simps split: option.splits if_splits bool.splits prod.splits)

text \<open>Two ranks with four bytes each, for the witnesses.\<close>

definition demo_memory :: "nat \<Rightarrow> memory" where
  "demo_memory r = [0 \<mapsto> [word_of_nat r, 2, 3, 4]]"

definition demo_world :: mock_world where
  "demo_world = fst (the (snd (mock_transport_group_create 2 False demo_memory False)))"

definition demo_posted :: mock_world where
  "demo_posted = fst (the (mock_call 0 (Post_send_next (Ptr 0 0) 4 7 PG_TRANSFER_AUTO null_request) demo_world))"

lemma demo_created: "mock_transport_group_create 2 False demo_memory False = (0, Some (demo_world, map mock_transport [0..<2]))"
  by (simp add: demo_world_def mock_transport_group_create_def)

lemma demo_post: "mock_call 0 (Post_send_next (Ptr 0 0) 4 7 PG_TRANSFER_AUTO null_request) demo_world =
    Some (demo_posted, 0, \<lparr>id = 1, internal = Some 0\<rparr>)"
  by (simp add: demo_posted_def demo_world_def mock_transport_group_create_def mock_post_send_next_def null_request_def
      endpoint_of_def mock_endpoint_def demo_memory_def register_request_def update_endpoint_def Let_def)

lemma demo_posted_state:
  "requests demo_posted 0 = [0 \<mapsto> \<lparr>kind = Send, receive_buffer = NullPtr, req_bytes = 0, req_tag = 0, completed = True, status = 0\<rparr>]"
  "next_addr demo_posted 0 = 1" "endpoints demo_posted 0 = Some (mock_endpoint 2 0\<lparr>next_request_id := 2,
     stats := record_post Send 4 PG_TRANSFER_AUTO zero_stats\<rparr>)"
  by (simp_all add: demo_posted_def demo_world_def mock_transport_group_create_def mock_post_send_next_def null_request_def
      endpoint_of_def mock_endpoint_def demo_memory_def register_request_def update_endpoint_def Let_def)

text \<open>
  C21. A wait on the mock transport that returns consumes the request: the handle is null and
  the request state gone, all other requests stay, and a second wait with the returned handle
  fails with -1 and changes nothing.
\<close>

theorem mock_wait_consumes:
  assumes "mock_wait (Some r) rq w = Some (w', code, rq')" and "internal rq \<noteq> None"
  shows "rq' = null_request \<and> requests w r (the (internal rq)) \<noteq> None \<and> requests w' r (the (internal rq)) = None \<and>
    (\<forall>q a. (q, a) \<noteq> (r, the (internal rq)) \<longrightarrow> requests w' q a = requests w q a) \<and>
    mock_wait (Some r) rq' w' = Some (w', -1, rq')"
proof -
  obtain a where a: "internal rq = Some a" using assms(2) by blast
  obtain e st where "requests w r a \<noteq> None" and x: "rq' = null_request"
      and "requests w' = (requests w)(r := (requests w r)(a := None))"
    by (rule mock_wait_returns [OF assms(1) a]) auto
  then have "requests w' q b = requests w q b" if "(q, b) \<noteq> (r, a)" for q b
    using that by auto
  then show ?thesis
    using \<open>requests w r a \<noteq> None\<close> \<open>requests w' = _\<close> by (simp add: a x mock_wait_def null_request_def)
qed

theorem mock_wait_consumes_witness:
  "\<exists>w'. mock_wait (Some 0) \<lparr>id = 1, internal = Some 0\<rparr> demo_posted = Some (w', 0, null_request) \<and>
     requests w' 0 0 = None \<and> mock_wait (Some 0) null_request w' = Some (w', -1, null_request)"
proof -
  obtain w' where w: "mock_wait (Some 0) \<lparr>id = 1, internal = Some 0\<rparr> demo_posted = Some (w', 0, null_request)"
    by (auto simp: mock_wait_def demo_posted_state finish_wait_simps [OF demo_posted_state(3)])
  with mock_wait_consumes [OF w] show ?thesis by auto
qed

text \<open>
  C22. Receives match by tag and in order: the first queued message with the tag is taken and
  the rest of the queue keeps its order. A payload of the posted length is copied into the
  buffer with status 0, any other length gives status -1 and leaves the buffer alone; without a
  message of that tag nothing changes.
\<close>

theorem receive_first_match:
  "if \<forall>msg \<in> set queue. msg_tag msg \<noteq> req_tag st
   then try_complete_receive_locked st m queue = Some (st, m, queue, False)
   else \<exists>pre msg post. queue = pre @ msg # post \<and> msg_tag msg = req_tag st \<and> (\<forall>msg' \<in> set pre. msg_tag msg' \<noteq> req_tag st) \<and>
     (if length (payload msg) \<noteq> req_bytes st
      then try_complete_receive_locked st m queue = Some (st\<lparr>status := -1, completed := True\<rparr>, m, pre @ post, True)
      else \<forall>m'. (if req_bytes st > 0 then store m (receive_buffer st) (payload msg) else Some m) = Some m' \<longrightarrow>
        try_complete_receive_locked st m queue = Some (st\<lparr>status := 0, completed := True\<rparr>, m', pre @ post, True))"
proof (cases "\<forall>msg \<in> set queue. msg_tag msg \<noteq> req_tag st")
  case True
  then show ?thesis by (induction queue) auto
next
  case False
  then obtain pre msg post where q: "queue = pre @ msg # post" "msg_tag msg = req_tag st"
      "\<forall>msg' \<in> set pre. msg_tag msg' \<noteq> req_tag st"
    using split_list_first_prop [of queue "\<lambda>msg. msg_tag msg = req_tag st"] by blast
  have skip: "try_complete_receive_locked st m (pre @ rest) =
      map_option (\<lambda>(st', m', queue', found). (st', m', pre @ queue', found)) (try_complete_receive_locked st m rest)" for rest
    using q(3) by (induction pre) (auto split: option.splits simp: option.map_id case_prod_beta)
  show ?thesis
    unfolding if_not_P [OF False]
    by (rule exI [of _ pre], rule exI [of _ msg], rule exI [of _ post])
       (use q skip [of "msg # post"] in \<open>auto split: if_splits\<close>)
qed

theorem receive_first_match_witness:
  "try_complete_receive_locked \<lparr>kind = Receive, receive_buffer = Ptr 0 0, req_bytes = 1, req_tag = 7, completed = False, status = 0\<rparr>
     [0 \<mapsto> [0]] [\<lparr>msg_tag = 5, payload = [1]\<rparr>, \<lparr>msg_tag = 7, payload = [2]\<rparr>, \<lparr>msg_tag = 7, payload = [3]\<rparr>] =
   Some (\<lparr>kind = Receive, receive_buffer = Ptr 0 0, req_bytes = 1, req_tag = 7, completed = True, status = 0\<rparr>,
     [0 \<mapsto> [2]], [\<lparr>msg_tag = 5, payload = [1]\<rparr>, \<lparr>msg_tag = 7, payload = [3]\<rparr>], True)"
  using receive_first_match [of "[\<lparr>msg_tag = 5, payload = [1]\<rparr>, \<lparr>msg_tag = 7, payload = [2]\<rparr>, \<lparr>msg_tag = 7, payload = [3]\<rparr>]"
      "\<lparr>kind = Receive, receive_buffer = Ptr 0 0, req_bytes = 1, req_tag = 7, completed = False, status = 0\<rparr>" "[0 \<mapsto> [0]]"]
  by (auto simp: blit_def fun_eq_iff)

section \<open>The outstanding counter\<close>

text \<open>Everything a program or a test can do to the world, from a new group on.\<close>

inductive mock_reachable :: "int \<Rightarrow> mock_world \<Rightarrow> bool" for n :: int where
  created: "mock_transport_group_create n False mems False = (0, Some (w, ts)) \<Longrightarrow> mock_reachable n w"
| called: "mock_reachable n w \<Longrightarrow> mock_call r c w = Some (w', x) \<Longrightarrow> mock_reachable n w'"
| tested: "mock_reachable n w \<Longrightarrow> mock_test (Some r) rq out w = Some (w', code, out') \<Longrightarrow> mock_reachable n w'"
| reset: "mock_reachable n w \<Longrightarrow> mock_transport_reset_stats (Some r) w = (w', code) \<Longrightarrow> mock_reachable n w'"

definition counter_ok :: "mock_world \<Rightarrow> nat \<Rightarrow> bool" where
  "counter_ok w r =
     (dom (requests w r) \<subseteq> {..<next_addr w r} \<and>
      (\<forall>e. endpoints w r = Some e \<and> next_addr w r < 2 ^ 64 \<longrightarrow>
         unat (current_outstanding_requests (stats e)) = card (dom (requests w r)) \<and>
         current_outstanding_requests (stats e) \<le> maximum_outstanding_requests (stats e)))"

lemma counter_ok_cong:
  assumes "dom (requests w' r) = dom (requests w r)" and "endpoints w' r = endpoints w r" and "next_addr w' r = next_addr w r"
  shows "counter_ok w' r = counter_ok w r"
  using assms by (simp add: counter_ok_def)

lemma record_post_outstanding:
  "current_outstanding_requests (record_post k n mode s) = current_outstanding_requests s + 1"
  "maximum_outstanding_requests (record_post k n mode s) = max (maximum_outstanding_requests s) (current_outstanding_requests s + 1)"
  by (cases mode; simp add: record_post_def record_mode_def Let_def)+

lemma counter_ok_register:
  assumes ok: "counter_ok w r" and e: "endpoints w r = Some e"
    and w': "requests w' r = (requests w r)(next_addr w r \<mapsto> st)" "next_addr w' r = Suc (next_addr w r)"
      "endpoints w' r = Some (e\<lparr>stats := record_post k n mode (stats e), next_request_id := i\<rparr>)"
  shows "counter_ok w' r"
proof -
  have sub: "dom (requests w r) \<subseteq> {..<next_addr w r}"
    using ok by (simp add: counter_ok_def)
  then have fin: "finite (dom (requests w r))" and new: "next_addr w r \<notin> dom (requests w r)"
    by (auto intro: finite_subset)
  have "unat (current_outstanding_requests (stats e) + 1) = Suc (card (dom (requests w r)))"
    if "Suc (next_addr w r) < 2 ^ 64"
  proof -
    have "card (dom (requests w r)) \<le> next_addr w r"
      using card_mono [OF _ sub] by simp
    moreover have "unat (current_outstanding_requests (stats e)) = card (dom (requests w r))"
      using ok e that by (simp add: counter_ok_def)
    ultimately show ?thesis
      using that by (subst unat_add_lem [THEN iffD1]) simp_all
  qed
  then show ?thesis
    using sub fin new by (auto simp: counter_ok_def w' record_post_outstanding less_SucI)
qed

lemma counter_ok_wait:
  assumes ok: "counter_ok w r" and e: "endpoints w r = Some e" and a: "requests w r a \<noteq> None"
    and w': "requests w' r = (requests w r)(a := None)" "next_addr w' r = next_addr w r"
      "endpoints w' r = Some (e\<lparr>stats := record_completion (stats e)\<rparr>)"
  shows "counter_ok w' r"
proof -
  let ?n = "current_outstanding_requests (stats e)"
  have sub: "dom (requests w r) \<subseteq> {..<next_addr w r}"
    using ok by (simp add: counter_ok_def)
  then have fin: "finite (dom (requests w r))"
    by (auto intro: finite_subset)
  have card: "card (dom (requests w r)) = Suc (card (dom (requests w r) - {a}))"
    using fin a by (intro card.remove) auto
  have "unat (?n - 1) = card (dom (requests w r) - {a}) \<and> 0 < ?n \<and> ?n - 1 \<le> maximum_outstanding_requests (stats e)"
    if "next_addr w r < 2 ^ 64"
  proof -
    have n: "unat ?n = Suc (card (dom (requests w r) - {a}))" "?n \<le> maximum_outstanding_requests (stats e)"
      using ok e that card by (auto simp: counter_ok_def)
    then have "0 < ?n"
      by (metis unsigned_0 nat.distinct(1) word_neq_0_conv)
    moreover from this have "unat (?n - 1) = unat ?n - 1" and "?n - 1 \<le> ?n"
      by (simp_all add: unat_minus_one word_le_nat_alt)
    ultimately show ?thesis
      using n by auto
  qed
  then show ?thesis
    using sub fin by (auto simp: counter_ok_def w' record_completion_def)
qed

definition registers :: "nat \<Rightarrow> mock_world \<Rightarrow> mock_world \<Rightarrow> bool" where
  "registers r w w' =
     (\<exists>e st k n mode i. endpoints w r = Some e \<and>
        requests w' = (requests w)(r := (requests w r)(next_addr w r \<mapsto> st)) \<and>
        next_addr w' = (next_addr w)(r := Suc (next_addr w r)) \<and>
        endpoints w' = (endpoints w)(r := Some (e\<lparr>stats := record_post k n mode (stats e), next_request_id := i\<rparr>)))"

lemma registersI:
  assumes "register_request r st k n mode e w1 = (w', x)" and "endpoints w r = Some e"
    and "endpoints w1 = endpoints w" "requests w1 = requests w" "next_addr w1 = next_addr w"
  shows "registers r w w'"
proof -
  have "w' = fst (register_request r st k n mode e w1)"
    using assms(1) by simp
  moreover have "endpoints w1 r = Some e"
    using assms by simp
  ultimately show ?thesis
    using assms(2-) unfolding registers_def by (auto simp: register_request_simps(1))
qed

lemma post_send_registers:
  assumes "mock_post_send_next (Some r) p n t mode rq w = Some (w', x)"
  shows "w' = w \<or> registers r w w'"
  using assms
  by (auto simp: mock_post_send_next_def endpoint_of_def Let_def split: if_splits option.splits intro: registersI)

lemma post_recv_registers:
  assumes "mock_post_recv_prev (Some r) p n t mode rq w = Some (w', x)"
  shows "w' = w \<or> registers r w w'"
proof (cases "w' = w")
  case False
  with assms obtain e where e: "endpoints w r = Some e"
    by (auto simp: mock_post_recv_prev_def endpoint_of_def split: if_splits option.splits)
  let ?st = "\<lparr>kind = Receive, receive_buffer = p, req_bytes = n, req_tag = t, completed = False, status = 0\<rparr>"
  obtain st m q found where "try_complete_receive_locked ?st (memories w r) (incoming w ! nat (me_rank e)) = Some (st, m, q, found)"
    using assms False e
    by (cases "try_complete_receive_locked ?st (memories w r) (incoming w ! nat (me_rank e))")
       (auto simp: mock_post_recv_prev_def endpoint_of_def Let_def split: if_splits)
  with assms False e have "register_request r st Receive n mode e
      (w\<lparr>incoming := (incoming w)[nat (me_rank e) := q], memories := (memories w)(r := m)\<rparr>) = (w', x)"
    by (simp add: mock_post_recv_prev_def endpoint_of_def Let_def split: if_splits)
  from registersI [OF this e] show ?thesis by simp
qed simp

text \<open>Every call registers one request, drops one, or keeps all of them.\<close>

lemma mock_call_requests:
  assumes "mock_call r c w = Some (w', x)"
  shows "(requests w' = requests w \<and> endpoints w' = endpoints w \<and> next_addr w' = next_addr w) \<or> registers r w w' \<or>
    (\<exists>e a. endpoints w r = Some e \<and> requests w r a \<noteq> None \<and>
      requests w' = (requests w)(r := (requests w r)(a := None)) \<and> next_addr w' = next_addr w \<and>
      endpoints w' = (endpoints w)(r := Some (e\<lparr>stats := record_completion (stats e)\<rparr>)))"
proof (cases c)
  case (Post_send_next p n t mode rq)
  with assms have "mock_post_send_next (Some r) p n t mode rq w = Some (w', x)" by simp
  from post_send_registers [OF this] show ?thesis by (elim disjE) simp_all
next
  case (Post_recv_prev p n t mode rq)
  with assms have "mock_post_recv_prev (Some r) p n t mode rq w = Some (w', x)" by simp
  from post_recv_registers [OF this] show ?thesis by (elim disjE) simp_all
next
  case (Wait rq)
  show ?thesis
  proof (cases "internal rq")
    case None
    with Wait assms show ?thesis by (auto simp: mock_wait_def)
  next
    case (Some a)
    from Wait assms have "mock_wait (Some r) rq w = Some (w', x)" by simp
    from mock_wait_returns [OF this Some] show ?thesis by metis
  qed
qed (use assms in \<open>auto simp: mock_call_def exec_call_def mock_transport_def kMockOperations_def split: option.splits\<close>)

lemma counter_ok_call:
  assumes ok: "counter_ok w q" and "mock_call r c w = Some (w', x)"
  shows "counter_ok w' q"
  using mock_call_requests [OF assms(2)]
proof (elim disjE exE conjE)
  assume "requests w' = requests w" "endpoints w' = endpoints w" "next_addr w' = next_addr w"
  then show ?thesis
    using ok counter_ok_cong [of w' q w] by simp
next
  assume reg: "registers r w w'"
  show ?thesis
  proof (cases "q = r")
    case True
    with ok have "counter_ok w r" by simp
    from counter_ok_register [OF this] reg True show ?thesis
      unfolding registers_def by auto
  next
    case False
    with reg ok show ?thesis
      using counter_ok_cong [of w' q w] by (auto simp: registers_def)
  qed
next
  fix e a
  assume w': "endpoints w r = Some e" "requests w r a \<noteq> None"
      "requests w' = (requests w)(r := (requests w r)(a := None))" "next_addr w' = next_addr w"
      "endpoints w' = (endpoints w)(r := Some (e\<lparr>stats := record_completion (stats e)\<rparr>))"
  show ?thesis
  proof (cases "q = r")
    case True
    with ok have "counter_ok w r" by simp
    from counter_ok_wait [OF this w'(1,2)] w' True show ?thesis by simp
  next
    case False
    with w' ok show ?thesis
      using counter_ok_cong [of w' q w] by simp
  qed
qed

lemma counter_ok_test:
  assumes "counter_ok w q" and "mock_test (Some r) rq out w = Some (w', code, out')"
  shows "counter_ok w' q"
proof -
  have "dom (requests w' q) = dom (requests w q) \<and> endpoints w' q = endpoints w q \<and> next_addr w' q = next_addr w q"
    using assms(2) by (auto simp: mock_test_def split: option.splits if_splits prod.splits)
  with assms(1) show ?thesis
    using counter_ok_cong by blast
qed

lemma counter_ok_reset:
  assumes ok: "counter_ok w q" and "mock_transport_reset_stats (Some r) w = (w', code)"
  shows "counter_ok w' q"
proof (cases "w' = w")
  case False
  then obtain e where e: "endpoints w r = Some e" "current_outstanding_requests (stats e) = 0"
      and w': "w' = w\<lparr>endpoints := (endpoints w)(r := Some (e\<lparr>stats := zero_stats\<rparr>))\<rparr>"
    using assms(2)
    by (auto simp: mock_transport_reset_stats_def endpoint_of_def update_endpoint_def split: option.splits if_splits)
  show ?thesis
  proof (cases "q = r")
    case True
    with ok e w' show ?thesis
      by (auto simp: counter_ok_def zero_stats_def)
  next
    case False
    with ok w' show ?thesis
      using counter_ok_cong [of w' q w] by simp
  qed
qed (use ok in simp)

text \<open>
  C23. In every world that can be reached from a new group, a rank's counter of outstanding
  requests is the number of its requests posted and not yet waited for, and is at most the
  recorded maximum, as long as fewer than 2^64 requests have been posted. So
  \<open>mock_transport_reset_stats\<close> resets exactly when none is outstanding.
\<close>

theorem outstanding_counter:
  assumes "mock_reachable n w" and "endpoints w r = Some e" and "next_addr w r < 2 ^ 64"
  shows "unat (current_outstanding_requests (stats e)) = card (dom (requests w r)) \<and>
    current_outstanding_requests (stats e) \<le> maximum_outstanding_requests (stats e) \<and>
    (snd (mock_transport_reset_stats (Some r) w) = 0 \<longleftrightarrow> dom (requests w r) = {})"
proof -
  have "counter_ok w r"
    using assms(1)
  proof (induction rule: mock_reachable.induct)
    case created
    then show ?case
      by (auto simp: counter_ok_def mock_transport_group_create_def mock_endpoint_def zero_stats_def split: if_splits)
  qed (auto intro: counter_ok_call counter_ok_test counter_ok_reset)
  moreover from this have "finite (dom (requests w r))"
    by (auto simp: counter_ok_def intro: finite_subset)
  ultimately show ?thesis
    using assms(2,3)
    by (auto simp: counter_ok_def mock_transport_reset_stats_def endpoint_of_def card_eq_0_iff
        simp flip: unat_eq_0)
qed

theorem outstanding_counter_witness:
  "unat (current_outstanding_requests (stats (the (endpoints demo_posted 0)))) = 1 \<and>
   snd (mock_transport_reset_stats (Some 0) demo_posted) \<noteq> 0"
proof -
  have "mock_reachable 2 demo_posted"
    by (rule mock_reachable.called [OF mock_reachable.created [OF demo_created] demo_post])
  from outstanding_counter [OF this demo_posted_state(3)] show ?thesis
    by (simp add: demo_posted_state)
qed

section \<open>Refinement\<close>

text \<open>
  C14. The mock transport refines the contract of \<open>pg_transport.h\<close>: from related states, a call
  the contract endpoint of a rank allows is answered the same way and leads to related states;
  a send appends its payload to what is under way to the next rank, a wait for a receive takes
  the first payload of its tag, and blocks exactly when none is under way.
\<close>

theorem mock_refines_contract:
  assumes "mock_rel P w E N" and "r < P" and "ep_call c (E r) = Some (e, x, ev)"
  shows "case ev of
      Silent \<Rightarrow> \<exists>w'. mock_call r c w = Some (w', x) \<and> mock_rel P w' (E(r := e)) N
    | Sent t d \<Rightarrow> \<exists>w'. mock_call r c w = Some (w', x) \<and>
        mock_rel P w' (E(r := e)) (N(next_rank P r := (N (next_rank P r))(t := N (next_rank P r) t @ [d])))
    | Received t \<Rightarrow> (case N r t of
        [] \<Rightarrow> mock_call r c w = None
      | d # ns \<Rightarrow> hd (ep_in (E r) t) = d \<longrightarrow>
          (\<exists>w'. mock_call r c w = Some (w', x) \<and> mock_rel P w' (E(r := e)) (N(r := (N r)(t := ns)))))"
proof (cases ev)
  case (Received t)
  obtain d ds where d: "ep_in (E r) t = d # ds"
    using ep_call_Received [OF assms(3) [unfolded Received]] by blast
  show ?thesis
    using mock.receive_law [OF assms(1,2) assms(3) [unfolded Received] d] mock.block_law [OF assms(1,2) assms(3) [unfolded Received]]
    by (auto simp: Received d split: list.split)
qed (use mock.silent_law [OF assms(1,2)] mock.send_law [OF assms(1,2)] assms(3) in auto)

theorem mock_refines_contract_witness:
  "\<exists>w'. mock_call 0 (Post_send_next (Ptr 0 0) 4 7 PG_TRANSFER_AUTO null_request) demo_world =
      Some (w', 0, \<lparr>id = 1, internal = Some 0\<rparr>) \<and>
    mock_rel 2 w' ((\<lambda>r. fresh_endpoint (demo_memory r) (\<lambda>t. []))(0 := ep_add \<lparr>out_kind = Send, out_buffer = Ptr 0 0, out_bytes = 4, out_tag = 7\<rparr>
       (fresh_endpoint (demo_memory 0) (\<lambda>t. []))))
     ((\<lambda>r t. [])(1 := (\<lambda>t. [])(7 := [[0, 2, 3, 4]])))"
proof -
  have "mock_transport_group_create (int 2) False demo_memory False = (0, Some (demo_world, map mock_transport [0..<2]))"
    using demo_created by simp
  from mock_group_fresh [OF this, of "\<lambda>r t. []"]
  have rel: "mock_rel 2 demo_world (\<lambda>r. fresh_endpoint (demo_memory r) (\<lambda>t. [])) (\<lambda>r t. [])" .
  have call: "ep_call (Post_send_next (Ptr 0 0) 4 7 PG_TRANSFER_AUTO null_request) (fresh_endpoint (demo_memory 0) (\<lambda>t. [])) =
      Some (ep_add \<lparr>out_kind = Send, out_buffer = Ptr 0 0, out_bytes = 4, out_tag = 7\<rparr> (fresh_endpoint (demo_memory 0) (\<lambda>t. [])),
        (0, \<lparr>id = 1, internal = Some 0\<rparr>), Sent 7 [0, 2, 3, 4])"
    by (simp add: fresh_endpoint_def null_request_def may_read_def demo_memory_def slice_def ep_new_request_def)
  have "next_rank 2 0 = 1"
    by (simp add: next_rank_def)
  with mock_refines_contract [OF rel _ call] show ?thesis
    by simp
qed

end
