(* ===== verification/Verbs_Library.thy ===== *)
theory Verbs_Library
  imports Transport_Contract
begin

text \<open>
  What \<open>src/verbs_transport.cpp\<close> uses of the outside: the verbs library, the sockets and the
  allocator are not part of the repository. They are the fields of \<open>'e verbs_env\<close>, functions
  on a state \<open>'e\<close> of everything outside the process, and every routine takes them as its first
  argument. \<open>verbs_laws\<close> states what the manual pages promise about the resources these
  functions create and release.
\<close>

section \<open>Work requests and completions\<close>

datatype ibv_wc_opcode =
  IBV_WC_SEND | IBV_WC_RDMA_WRITE | IBV_WC_RECV | IBV_WC_RECV_RDMA_WITH_IMM | Other_wc_opcode int

text \<open>\<open>wc_wr_id\<close> is the address that was given as \<open>wr_id\<close>, 0 the null pointer.\<close>

record ibv_wc =
  wc_wr_id :: nat
  wc_success :: bool
  wc_opcode :: ibv_wc_opcode
  wc_with_imm :: bool
  wc_imm_data :: "32 word"

record ibv_sge =
  sge_addr :: "64 word"
  sge_length :: "32 word"
  sge_lkey :: "32 word"

datatype ibv_send_opcode = IBV_WR_SEND_WITH_IMM | IBV_WR_RDMA_WRITE_WITH_IMM "64 word" "32 word"

record ibv_recv_wr =
  rwr_id :: nat
  rwr_sg_list :: "ibv_sge list"

record ibv_send_wr =
  swr_id :: nat
  swr_sg_list :: "ibv_sge list"
  swr_signaled :: bool
  swr_imm_data :: "32 word"
  swr_opcode :: ibv_send_opcode

text \<open>
  Handles are numbers; a creating function answers None for the null pointer. A read or write
  answers None when it never returns, \<open>Inl True\<close> when it was interrupted (\<open>EINTR\<close>),
  \<open>Inl False\<close> for any other error, else what it moved. A poll answers None for a negative
  count, else the completions it took from the queue.
\<close>

record 'e verbs_env =
  address_of :: "pointer \<Rightarrow> 64 word"
  ibv_create_cq :: "nat \<Rightarrow> nat \<Rightarrow> 'e \<Rightarrow> 'e \<times> nat option"
  ibv_destroy_cq :: "nat \<Rightarrow> 'e \<Rightarrow> 'e"
  ibv_destroy_qp :: "nat \<Rightarrow> 'e \<Rightarrow> 'e"
  ibv_dealloc_pd :: "nat \<Rightarrow> 'e \<Rightarrow> 'e"
  ibv_close_device :: "nat \<Rightarrow> 'e \<Rightarrow> 'e"
  ibv_reg_mr :: "nat \<Rightarrow> pointer \<Rightarrow> nat \<Rightarrow> bool \<Rightarrow> bool \<Rightarrow> 'e \<Rightarrow> 'e \<times> nat option"
  mr_lkey :: "nat \<Rightarrow> 32 word"
  mr_rkey :: "nat \<Rightarrow> 32 word"
  ibv_dereg_mr :: "nat \<Rightarrow> 'e \<Rightarrow> 'e"
  ibv_post_recv :: "nat \<Rightarrow> ibv_recv_wr \<Rightarrow> 'e \<Rightarrow> 'e \<times> int"
  ibv_post_send :: "nat \<Rightarrow> ibv_send_wr \<Rightarrow> 'e \<Rightarrow> 'e \<times> int"
  ibv_poll_cq :: "nat \<Rightarrow> nat \<Rightarrow> 'e \<Rightarrow> 'e \<times> ibv_wc list option"
  sys_write :: "int \<Rightarrow> bytes \<Rightarrow> 'e \<Rightarrow> ('e \<times> (bool + nat)) option"
  sys_read :: "int \<Rightarrow> nat \<Rightarrow> 'e \<Rightarrow> ('e \<times> (bool + bytes)) option"
  sys_close :: "int \<Rightarrow> 'e \<Rightarrow> 'e"
  new_state :: "'e \<Rightarrow> 'e \<times> nat option"
  delete_state :: "nat \<Rightarrow> 'e \<Rightarrow> 'e"
  new_transport :: "'e \<Rightarrow> 'e \<times> nat option"
  delete_transport :: "nat \<Rightarrow> 'e \<Rightarrow> 'e"

section \<open>Byte order\<close>

text \<open>\<open>htonl\<close> and \<open>ntohl\<close> on a little-endian machine.\<close>

definition htonl :: "32 word \<Rightarrow> 32 word" where
  "htonl x = word_of_nat (le_value (rev (le_bytes 4 (unat x))))"

definition ntohl :: "32 word \<Rightarrow> 32 word" where
  "ntohl x = word_of_nat (le_value (rev (le_bytes 4 (unat x))))"

lemma bytes_of_bits: "8 dvd n \<Longrightarrow> (256 :: nat) ^ (n div 8) = 2 ^ n"
  by (auto elim!: dvdE simp: power_mult)

lemma le_bytes_word:
  "length bs = LENGTH('a::len) div 8 \<Longrightarrow> 8 dvd LENGTH('a) \<Longrightarrow>
   le_bytes (LENGTH('a) div 8) (unat (word_of_nat (le_value bs) :: 'a word)) = bs"
proof -
  assume len: "length bs = LENGTH('a) div 8" and dvd: "8 dvd LENGTH('a)"
  have "(256 :: nat) ^ length bs = 2 ^ LENGTH('a)"
    using len bytes_of_bits [OF dvd] by simp
  then have "unat (word_of_nat (le_value bs) :: 'a word) = le_value bs"
    using le_value_bound [of bs] by (simp add: unat_of_nat)
  then show ?thesis
    using le_bytes_le_value [of bs] len by simp
qed

lemma word_le_bytes:
  "8 dvd LENGTH('a::len) \<Longrightarrow> word_of_nat (le_value (le_bytes (LENGTH('a) div 8) (unat (x :: 'a word)))) = x"
proof -
  assume dvd: "8 dvd LENGTH('a)"
  then have "(256 :: nat) ^ (LENGTH('a) div 8) = 2 ^ LENGTH('a)"
    by (rule bytes_of_bits)
  then have "le_value (le_bytes (LENGTH('a) div 8) (unat x)) = unat x"
    using unsigned_less [of x, where ?'a = nat] by (simp add: le_value_le_bytes)
  then show ?thesis by simp
qed

lemma ntohl_htonl: "ntohl (htonl x) = x"
proof -
  have "le_bytes 4 (unat (htonl x)) = rev (le_bytes 4 (unat x))"
    using le_bytes_word [where ?'a = 32, of "rev (le_bytes 4 (unat x))"] by (simp add: htonl_def del: le_bytes_numeral)
  then show ?thesis
    using word_le_bytes [of x] by (simp add: ntohl_def del: le_bytes_numeral)
qed

end
