(* ===== verification/Verbs_Transport.thy ===== *)
theory Verbs_Transport
  imports Verbs_Library "HOL-Library.AList"
begin

text \<open>
  \<open>src/verbs_transport.cpp\<close>: the transport over RDMA verbs. A method of the class is a function
  of the object and the outside; an exception is a value of \<open>verbs_exception\<close>; a loop that may
  retry or poll forever is a \<open>partial_function\<close> whose value is then None. The set of pending
  requests and the objects it points to are one association list, because a state object is
  created just before it is inserted and deleted just after it is erased.
\<close>

section \<open>Data\<close>

definition kEagerThresholdBytes :: nat where "kEagerThresholdBytes = 4 * 1024"
definition kControlMagic :: "32 word" where "kControlMagic = 0x52444d41"

record ControlMessage =
  magic :: "32 word"
  ctl_tag :: "32 word"
  remote_address :: "64 word"
  remote_key :: "32 word"
  ctl_bytes :: "32 word"
  ctl_mode :: "32 word"
  reserved :: "32 word"

datatype verbs_exception =
  Invalid_constructor_arguments | Create_cq_failed | Null_ring_qp | Invalid_control_socket
| Unsupported_transfer_mode | Empty_buffer | Reg_mr_failed | Bad_alloc
| Invalid_receive_request | Receive_too_large | Post_recv_failed int | Descriptor_not_sent
| Invalid_send_request | Send_too_large | Descriptor_not_received | Descriptor_mismatch | Post_send_failed int
| Unknown_wr_id | Poll_cq_failed

record VerbsRequestState =
  vr_kind :: RequestKind
  vr_id :: "64 word"
  vr_tag :: pg_tag
  vr_mode :: pg_transfer_mode
  vr_memory_region :: "nat option"
  vr_completed :: bool
  vr_status :: int

text \<open>
  A constructed object: its device context, protection domain and completion queue are not
  null; the queue pairs are null and the sockets -1 until they are set.
\<close>

record VerbsTransport =
  vt_rank :: int
  vt_world_size :: int
  vt_context :: nat
  vt_pd :: nat
  vt_cq :: nat
  qp_next :: "nat option"
  qp_prev :: "nat option"
  next_socket :: int
  previous_socket :: int
  vt_next_request_id :: "64 word"
  pending_requests :: "(nat \<times> VerbsRequestState) list"

section \<open>Sockets and descriptors\<close>

text \<open>The object as the 32 bytes that are written and read: no padding, little-endian.\<close>

definition control_to_bytes :: "ControlMessage \<Rightarrow> bytes" where
  "control_to_bytes c =
     le_bytes 4 (unat (magic c)) @ le_bytes 4 (unat (ctl_tag c)) @ le_bytes 8 (unat (remote_address c)) @
     le_bytes 4 (unat (remote_key c)) @ le_bytes 4 (unat (ctl_bytes c)) @ le_bytes 4 (unat (ctl_mode c)) @
     le_bytes 4 (unat (reserved c))"

definition word_at :: "nat \<Rightarrow> nat \<Rightarrow> bytes \<Rightarrow> 'a::len word" where
  "word_at off n bs = word_of_nat (le_value (slice off n bs))"

definition control_from_bytes :: "bytes \<Rightarrow> ControlMessage" where
  "control_from_bytes bs =
     \<lparr>magic = word_at 0 4 bs, ctl_tag = word_at 4 4 bs, remote_address = word_at 8 8 bs,
      remote_key = word_at 16 4 bs, ctl_bytes = word_at 20 4 bs, ctl_mode = word_at 24 4 bs,
      reserved = word_at 28 4 bs\<rparr>"

definition control_size :: nat where "control_size = 32"

text \<open>A write that moves more than it was given, and a read that does, are excluded by POSIX.\<close>

partial_function (option) write_all :: "'e verbs_env \<Rightarrow> int \<Rightarrow> bytes \<Rightarrow> 'e \<Rightarrow> ('e \<times> bool) option" where
  "write_all env socket_fd source e =
     (if source = [] then Some (e, True)
      else
        case sys_write env socket_fd source e of
          None \<Rightarrow> None
        | Some (e', r) \<Rightarrow>
            (case r of
               Inl interrupted \<Rightarrow> if interrupted then write_all env socket_fd source e' else Some (e', False)
             | Inr written \<Rightarrow>
                 if written = 0 then Some (e', False)
                 else write_all env socket_fd (drop written source) e'))"

partial_function (option) read_all :: "'e verbs_env \<Rightarrow> int \<Rightarrow> nat \<Rightarrow> bytes \<Rightarrow> 'e \<Rightarrow> ('e \<times> bytes \<times> bool) option" where
  "read_all env socket_fd n got e =
     (if n = 0 then Some (e, got, True)
      else
        case sys_read env socket_fd n e of
          None \<Rightarrow> None
        | Some (e', r) \<Rightarrow>
            (case r of
               Inl interrupted \<Rightarrow> if interrupted then read_all env socket_fd n got e' else Some (e', got, False)
             | Inr received \<Rightarrow>
                 if received = [] then Some (e', got, False)
                 else read_all env socket_fd (n - length received) (got @ received) e'))"

section \<open>Construction and destruction\<close>

definition construct_verbs_transport :: "'e verbs_env \<Rightarrow> int \<Rightarrow> int \<Rightarrow> nat option \<Rightarrow> nat option \<Rightarrow> 'e \<Rightarrow>
    'e \<times> (verbs_exception + VerbsTransport)" where
  "construct_verbs_transport env rank world_size context pd e =
     (if rank < 0 \<or> world_size \<le> 0 \<or> rank \<ge> world_size \<or> context = None \<or> pd = None then
        (e, Inl Invalid_constructor_arguments)
      else
        case ibv_create_cq env (the context) 2048 e of
          (e', None) \<Rightarrow> (e', Inl Create_cq_failed)
        | (e', Some cq) \<Rightarrow>
            (e', Inr \<lparr>vt_rank = rank, vt_world_size = world_size, vt_context = the context, vt_pd = the pd,
                     vt_cq = cq, qp_next = None, qp_prev = None, next_socket = -1, previous_socket = -1,
                     vt_next_request_id = 1, pending_requests = []\<rparr>))"

definition close_if_open :: "'e verbs_env \<Rightarrow> int \<Rightarrow> 'e \<Rightarrow> 'e" where
  "close_if_open env socket_fd e = (if socket_fd \<ge> 0 then sys_close env socket_fd e else e)"

definition destroy_qp_if :: "'e verbs_env \<Rightarrow> nat option \<Rightarrow> 'e \<Rightarrow> 'e" where
  "destroy_qp_if env qp e = (case qp of None \<Rightarrow> e | Some q \<Rightarrow> ibv_destroy_qp env q e)"

definition release_request :: "'e verbs_env \<Rightarrow> nat \<times> VerbsRequestState \<Rightarrow> 'e \<Rightarrow> 'e" where
  "release_request env p e =
     delete_state env (fst p)
       (case vr_memory_region (snd p) of None \<Rightarrow> e | Some mr \<Rightarrow> ibv_dereg_mr env mr e)"

definition destroy_verbs_transport :: "'e verbs_env \<Rightarrow> VerbsTransport \<Rightarrow> 'e \<Rightarrow> 'e" where
  "destroy_verbs_transport env vt e =
     (let e1 = close_if_open env (next_socket vt) e;
          e2 = close_if_open env (previous_socket vt) e1;
          e3 = destroy_qp_if env (qp_next vt) e2;
          e4 = destroy_qp_if env (qp_prev vt) e3;
          e5 = fold (release_request env) (pending_requests vt) e4;
          e6 = ibv_destroy_cq env (vt_cq vt) e5;
          e7 = ibv_dealloc_pd env (vt_pd vt) e6
      in ibv_close_device env (vt_context vt) e7)"

text \<open>
  \<open>new VerbsTransport(...)\<close> and \<open>delete\<close>: the memory of the object is at \<open>a\<close>; when the
  constructor throws, C++ frees it again.
\<close>

definition new_verbs_transport :: "'e verbs_env \<Rightarrow> int \<Rightarrow> int \<Rightarrow> nat option \<Rightarrow> nat option \<Rightarrow> 'e \<Rightarrow>
    'e \<times> (verbs_exception + nat \<times> VerbsTransport)" where
  "new_verbs_transport env rank world_size context pd e =
     (case new_transport env e of
        (e1, None) \<Rightarrow> (e1, Inl Bad_alloc)
      | (e1, Some a) \<Rightarrow>
          (case construct_verbs_transport env rank world_size context pd e1 of
             (e2, Inl x) \<Rightarrow> (delete_transport env a e2, Inl x)
           | (e2, Inr vt) \<Rightarrow> (e2, Inr (a, vt))))"

definition delete_verbs_transport :: "'e verbs_env \<Rightarrow> nat \<Rightarrow> VerbsTransport \<Rightarrow> 'e \<Rightarrow> 'e" where
  "delete_verbs_transport env a vt e = delete_transport env a (destroy_verbs_transport env vt e)"

definition set_ring_qps :: "nat option \<Rightarrow> nat option \<Rightarrow> VerbsTransport \<Rightarrow> VerbsTransport \<times> (verbs_exception + unit)" where
  "set_ring_qps next prev vt =
     (if next = None \<or> prev = None then (vt, Inl Null_ring_qp)
      else (vt\<lparr>qp_next := next, qp_prev := prev\<rparr>, Inr ()))"

definition set_control_sockets :: "int \<Rightarrow> int \<Rightarrow> VerbsTransport \<Rightarrow> VerbsTransport \<times> (verbs_exception + unit)" where
  "set_control_sockets next prev vt =
     (if next < 0 \<or> prev < 0 then (vt, Inl Invalid_control_socket)
      else (vt\<lparr>next_socket := next, previous_socket := prev\<rparr>, Inr ()))"

section \<open>Posting\<close>

fun mode_value :: "pg_transfer_mode \<Rightarrow> 32 word" where
  "mode_value PG_TRANSFER_AUTO = 0"
| "mode_value PG_TRANSFER_EAGER = 1"
| "mode_value PG_TRANSFER_RENDEZVOUS = 2"
| "mode_value (Bad_mode m) = word_of_int m"

definition choose_mode :: "pg_transfer_mode \<Rightarrow> nat \<Rightarrow> verbs_exception + pg_transfer_mode" where
  "choose_mode requested_mode n =
     (if requested_mode = PG_TRANSFER_EAGER \<or> requested_mode = PG_TRANSFER_RENDEZVOUS then Inr requested_mode
      else if requested_mode \<noteq> PG_TRANSFER_AUTO then Inl Unsupported_transfer_mode
      else Inr (if n \<le> kEagerThresholdBytes then PG_TRANSFER_EAGER else PG_TRANSFER_RENDEZVOUS))"

text \<open>The access flags are two booleans: local write, remote write.\<close>

definition register_memory :: "'e verbs_env \<Rightarrow> VerbsTransport \<Rightarrow> pointer \<Rightarrow> nat \<Rightarrow> bool \<Rightarrow> bool \<Rightarrow> 'e \<Rightarrow>
    'e \<times> (verbs_exception + nat)" where
  "register_memory env vt address n local_write remote_write e =
     (if address = NullPtr \<or> n = 0 then (e, Inl Empty_buffer)
      else
        case ibv_reg_mr env (vt_pd vt) address n local_write remote_write e of
          (e', None) \<Rightarrow> (e', Inl Reg_mr_failed)
        | (e', Some mr) \<Rightarrow> (e', Inr mr))"

text \<open>The new state object of a request, inserted into the pending requests; \<open>new\<close> may throw.\<close>

definition add_request :: "'e verbs_env \<Rightarrow> RequestKind \<Rightarrow> pg_tag \<Rightarrow> pg_transfer_mode \<Rightarrow> nat \<Rightarrow> VerbsTransport \<Rightarrow> 'e \<Rightarrow>
    'e \<times> VerbsTransport \<times> (verbs_exception + nat)" where
  "add_request env k tag mode mr vt e =
     (case new_state env e of
        (e', None) \<Rightarrow> (e', vt, Inl Bad_alloc)
      | (e', Some a) \<Rightarrow>
          (e', vt\<lparr>vt_next_request_id := vt_next_request_id vt + 1,
                 pending_requests := AList.update a
                   \<lparr>vr_kind = k, vr_id = vt_next_request_id vt, vr_tag = tag, vr_mode = mode,
                    vr_memory_region = Some mr, vr_completed = False, vr_status = 0\<rparr>
                   (pending_requests vt)\<rparr>, Inr a))"

text \<open>Taking a request back when its post failed.\<close>

definition drop_request :: "'e verbs_env \<Rightarrow> nat \<Rightarrow> nat \<Rightarrow> VerbsTransport \<Rightarrow> 'e \<Rightarrow> 'e \<times> VerbsTransport" where
  "drop_request env a mr vt e =
     (delete_state env a (ibv_dereg_mr env mr e),
      vt\<lparr>pending_requests := AList.delete a (pending_requests vt)\<rparr>)"

type_synonym ('e, 'a) posted = "'e \<times> VerbsTransport \<times> pg_request option \<times> (verbs_exception + 'a)"

definition receive_descriptor :: "'e verbs_env \<Rightarrow> pointer \<Rightarrow> nat \<Rightarrow> pg_tag \<Rightarrow> pg_transfer_mode \<Rightarrow> nat \<Rightarrow> ControlMessage" where
  "receive_descriptor env buffer n tag mode mr =
     \<lparr>magic = kControlMagic, ctl_tag = tag, remote_address = address_of env buffer, remote_key = mr_rkey env mr,
      ctl_bytes = word_of_nat n, ctl_mode = mode_value mode, reserved = 0\<rparr>"

definition post_receive_previous :: "'e verbs_env \<Rightarrow> pointer \<Rightarrow> nat \<Rightarrow> pg_tag \<Rightarrow> pg_transfer_mode \<Rightarrow>
    pg_request option \<Rightarrow> VerbsTransport \<Rightarrow> 'e \<Rightarrow> ('e, unit) posted option" where
  "post_receive_previous env buffer n tag requested_mode rq vt e =
     (if qp_prev vt = None \<or> previous_socket vt < 0 \<or> buffer = NullPtr \<or> n = 0 \<or>
         rq = None \<or> internal (the rq) \<noteq> None then Some (e, vt, rq, Inl Invalid_receive_request)
      else if n > 2 ^ 32 - 1 then Some (e, vt, rq, Inl Receive_too_large)
      else
        case choose_mode requested_mode n of
          Inl x \<Rightarrow> Some (e, vt, rq, Inl x)
        | Inr mode \<Rightarrow>
            (case register_memory env vt buffer n True (mode = PG_TRANSFER_RENDEZVOUS) e of
               (e1, Inl x) \<Rightarrow> Some (e1, vt, rq, Inl x)
             | (e1, Inr mr) \<Rightarrow>
                 (case add_request env Receive tag mode mr vt e1 of
                    (e2, vt2, Inl x) \<Rightarrow> Some (e2, vt2, rq, Inl x)
                  | (e2, vt2, Inr a) \<Rightarrow>
                      let work_request =
                        \<lparr>rwr_id = a,
                         rwr_sg_list =
                           (if mode = PG_TRANSFER_EAGER
                            then [\<lparr>sge_addr = address_of env buffer, sge_length = word_of_nat n, sge_lkey = mr_lkey env mr\<rparr>]
                            else [])\<rparr>
                      in (case ibv_post_recv env (the (qp_prev vt)) work_request e2 of
                            (e3, post_status) \<Rightarrow>
                              if post_status \<noteq> 0 then
                                (case drop_request env a mr vt2 e3 of
                                   (e4, vt4) \<Rightarrow> Some (e4, vt4, rq, Inl (Post_recv_failed post_status)))
                              else
                                (case write_all env (previous_socket vt)
                                        (control_to_bytes (receive_descriptor env buffer n tag mode mr)) e3 of
                                   None \<Rightarrow> None
                                 | Some (e4, sent) \<Rightarrow>
                                     Some (e4, vt2, Some \<lparr>id = vt_next_request_id vt, internal = Some a\<rparr>,
                                       if sent then Inr () else Inl Descriptor_not_sent))))))"

definition descriptor_matches :: "ControlMessage \<Rightarrow> pg_tag \<Rightarrow> nat \<Rightarrow> pg_transfer_mode \<Rightarrow> bool" where
  "descriptor_matches control tag n mode =
     (magic control = kControlMagic \<and> ctl_tag control = tag \<and> unat (ctl_bytes control) = n \<and>
      ctl_mode control = mode_value mode)"

definition post_send_next :: "'e verbs_env \<Rightarrow> pointer \<Rightarrow> nat \<Rightarrow> pg_tag \<Rightarrow> pg_transfer_mode \<Rightarrow>
    pg_request option \<Rightarrow> VerbsTransport \<Rightarrow> 'e \<Rightarrow> ('e, unit) posted option" where
  "post_send_next env buffer n tag requested_mode rq vt e =
     (if qp_next vt = None \<or> next_socket vt < 0 \<or> buffer = NullPtr \<or> n = 0 \<or>
         rq = None \<or> internal (the rq) \<noteq> None then Some (e, vt, rq, Inl Invalid_send_request)
      else if n > 2 ^ 32 - 1 then Some (e, vt, rq, Inl Send_too_large)
      else
        case choose_mode requested_mode n of
          Inl x \<Rightarrow> Some (e, vt, rq, Inl x)
        | Inr mode \<Rightarrow>
            (case read_all env (next_socket vt) control_size [] e of
               None \<Rightarrow> None
             | Some (e1, data, received) \<Rightarrow>
                 if \<not> received then Some (e1, vt, rq, Inl Descriptor_not_received)
                 else
                   let control = control_from_bytes data in
                   if \<not> descriptor_matches control tag n mode then Some (e1, vt, rq, Inl Descriptor_mismatch)
                   else
                     (case register_memory env vt buffer n False False e1 of
                        (e2, Inl x) \<Rightarrow> Some (e2, vt, rq, Inl x)
                      | (e2, Inr mr) \<Rightarrow>
                          (case add_request env Send tag mode mr vt e2 of
                             (e3, vt3, Inl x) \<Rightarrow> Some (e3, vt3, rq, Inl x)
                           | (e3, vt3, Inr a) \<Rightarrow>
                               let work_request =
                                 \<lparr>swr_id = a,
                                  swr_sg_list = [\<lparr>sge_addr = address_of env buffer, sge_length = word_of_nat n,
                                                  sge_lkey = mr_lkey env mr\<rparr>],
                                  swr_signaled = True, swr_imm_data = htonl tag,
                                  swr_opcode =
                                    (if mode = PG_TRANSFER_EAGER then IBV_WR_SEND_WITH_IMM
                                     else IBV_WR_RDMA_WRITE_WITH_IMM (remote_address control) (remote_key control))\<rparr>
                               in (case ibv_post_send env (the (qp_next vt)) work_request e3 of
                                     (e4, post_status) \<Rightarrow>
                                       if post_status \<noteq> 0 then
                                         (case drop_request env a mr vt3 e4 of
                                            (e5, vt5) \<Rightarrow> Some (e5, vt5, rq, Inl (Post_send_failed post_status)))
                                       else
                                         Some (e4, vt3, Some \<lparr>id = vt_next_request_id vt, internal = Some a\<rparr>, Inr ()))))))"

section \<open>Completions\<close>

definition valid_completion :: "VerbsRequestState \<Rightarrow> ibv_wc \<Rightarrow> bool" where
  "valid_completion st completion =
     (if vr_kind st = Send then
        vr_mode st = PG_TRANSFER_EAGER \<and> wc_opcode completion = IBV_WC_SEND \<or>
        vr_mode st = PG_TRANSFER_RENDEZVOUS \<and> wc_opcode completion = IBV_WC_RDMA_WRITE
      else
        (vr_mode st = PG_TRANSFER_EAGER \<and> wc_opcode completion = IBV_WC_RECV \<or>
         vr_mode st = PG_TRANSFER_RENDEZVOUS \<and> wc_opcode completion = IBV_WC_RECV_RDMA_WITH_IMM) \<and>
        wc_with_imm completion \<and> ntohl (wc_imm_data completion) = vr_tag st)"

definition handle_completion :: "ibv_wc \<Rightarrow> VerbsTransport \<Rightarrow> VerbsTransport \<times> (verbs_exception + unit)" where
  "handle_completion completion vt =
     (let a = wc_wr_id completion in
      if a = 0 then (vt, Inl Unknown_wr_id)
      else
        case map_of (pending_requests vt) a of
          None \<Rightarrow> (vt, Inl Unknown_wr_id)
        | Some st \<Rightarrow>
            let st' =
              (if \<not> wc_success completion then st\<lparr>vr_status := -1, vr_completed := True\<rparr>
               else if \<not> valid_completion st completion then st\<lparr>vr_status := -1, vr_completed := True\<rparr>
               else st\<lparr>vr_completed := True\<rparr>)
            in (vt\<lparr>pending_requests := AList.update a st' (pending_requests vt)\<rparr>, Inr ()))"

partial_function (option) poll_one_blocking :: "'e verbs_env \<Rightarrow> VerbsTransport \<Rightarrow> 'e \<Rightarrow>
    ('e \<times> VerbsTransport \<times> (verbs_exception + unit)) option" where
  "poll_one_blocking env vt e =
     (case ibv_poll_cq env (vt_cq vt) 1 e of
        (e', r) \<Rightarrow>
          (case r of
             None \<Rightarrow> Some (e', vt, Inl Poll_cq_failed)
           | Some completions \<Rightarrow>
               if length completions = 1 then Some (e', handle_completion (hd completions) vt)
               else poll_one_blocking env vt e'))"

text \<open>\<open>for (index = 0; index < count; ++index)\<close>; an exception leaves the rest unhandled.\<close>

fun handle_completions :: "ibv_wc list \<Rightarrow> VerbsTransport \<Rightarrow> VerbsTransport \<times> (verbs_exception + unit)" where
  "handle_completions [] vt = (vt, Inr ())"
| "handle_completions (c # cs) vt =
     (case handle_completion c vt of
        (vt', Inl x) \<Rightarrow> (vt', Inl x)
      | (vt', Inr _) \<Rightarrow> handle_completions cs vt')"

partial_function (option) poll_available :: "'e verbs_env \<Rightarrow> int \<Rightarrow> VerbsTransport \<Rightarrow> 'e \<Rightarrow>
    ('e \<times> VerbsTransport \<times> (verbs_exception + int)) option" where
  "poll_available env processed vt e =
     (case ibv_poll_cq env (vt_cq vt) 16 e of
        (e', r) \<Rightarrow>
          (case r of
             None \<Rightarrow> Some (e', vt, Inl Poll_cq_failed)
           | Some completions \<Rightarrow>
               if completions = [] then Some (e', vt, Inr processed)
               else
                 (case handle_completions completions vt of
                    (vt', x) \<Rightarrow>
                      (case x of
                         Inl ex \<Rightarrow> Some (e', vt', Inl ex)
                       | Inr _ \<Rightarrow> poll_available env (processed + int (length completions)) vt' e'))))"

definition consume_request :: "'e verbs_env \<Rightarrow> nat \<Rightarrow> VerbsTransport \<Rightarrow> 'e \<Rightarrow> 'e \<times> VerbsTransport \<times> pg_request" where
  "consume_request env a vt e =
     (release_request env (a, the (map_of (pending_requests vt) a)) e,
      vt\<lparr>pending_requests := AList.delete a (pending_requests vt)\<rparr>, null_request)"

text \<open>\<open>completed\<close> is None for a null pointer, else the value it points to.\<close>

definition test_request :: "'e verbs_env \<Rightarrow> pg_request option \<Rightarrow> int option \<Rightarrow> VerbsTransport \<Rightarrow> 'e \<Rightarrow>
    ('e \<times> VerbsTransport \<times> int option \<times> (verbs_exception + int)) option" where
  "test_request env rq completed vt e =
     (if rq = None \<or> internal (the rq) = None \<or> completed = None then Some (e, vt, completed, Inr (-1))
      else
        let a = the (internal (the rq)) in
        case map_of (pending_requests vt) a of
          None \<Rightarrow> Some (e, vt, completed, Inr (-1))
        | Some st \<Rightarrow>
            (case (if vr_completed st then Some (e, vt, Inr 0) else poll_available env 0 vt e) of
               None \<Rightarrow> None
             | Some (e', vt', Inl x) \<Rightarrow> Some (e', vt', completed, Inl x)
             | Some (e', vt', Inr _) \<Rightarrow>
                 Some (e', vt', Some (if vr_completed (the (map_of (pending_requests vt') a)) then 1 else 0), Inr 0)))"

text \<open>\<open>while (!state->completed) poll_one_blocking();\<close>\<close>

partial_function (option) wait_completed :: "'e verbs_env \<Rightarrow> nat \<Rightarrow> VerbsTransport \<Rightarrow> 'e \<Rightarrow>
    ('e \<times> VerbsTransport \<times> (verbs_exception + unit)) option" where
  "wait_completed env a vt e =
     (if vr_completed (the (map_of (pending_requests vt) a)) then Some (e, vt, Inr ())
      else
        case poll_one_blocking env vt e of
          None \<Rightarrow> None
        | Some (e', vt', x) \<Rightarrow>
            (case x of
               Inl ex \<Rightarrow> Some (e', vt', Inl ex)
             | Inr _ \<Rightarrow> wait_completed env a vt' e'))"

definition wait_request :: "'e verbs_env \<Rightarrow> pg_request option \<Rightarrow> VerbsTransport \<Rightarrow> 'e \<Rightarrow>
    ('e \<times> VerbsTransport \<times> pg_request option \<times> (verbs_exception + int)) option" where
  "wait_request env rq vt e =
     (if rq = None \<or> internal (the rq) = None then Some (e, vt, rq, Inr (-1))
      else
        let a = the (internal (the rq)) in
        if map_of (pending_requests vt) a = None then Some (e, vt, rq, Inr (-1))
        else
          case wait_completed env a vt e of
            None \<Rightarrow> None
          | Some (e1, vt1, Inl x) \<Rightarrow> Some (e1, vt1, rq, Inl x)
          | Some (e1, vt1, Inr _) \<Rightarrow>
              (case consume_request env a vt1 e1 of
                 (e2, vt2, rq2) \<Rightarrow>
                   Some (e2, vt2, Some rq2, Inr (vr_status (the (map_of (pending_requests vt1) a))))))"

definition progress_transport :: "'e verbs_env \<Rightarrow> VerbsTransport \<Rightarrow> 'e \<Rightarrow>
    ('e \<times> VerbsTransport \<times> (verbs_exception + int)) option" where
  "progress_transport env vt e =
     (case poll_available env 0 vt e of
        None \<Rightarrow> None
      | Some (e', vt', Inl x) \<Rightarrow> Some (e', vt', Inl x)
      | Some (e', vt', Inr _) \<Rightarrow> Some (e', vt', Inr 0))"

section \<open>The table of operations\<close>

text \<open>
  The world of one process: the outside and its transport object (None when it is destroyed).
  A wrapper catches every exception and answers -1.
\<close>

type_synonym 'e verbs_world = "'e \<times> VerbsTransport option"

definition verbs_implementation_of :: "nat option \<Rightarrow> 'e verbs_world \<Rightarrow> VerbsTransport option" where
  "verbs_implementation_of impl w = (case impl of None \<Rightarrow> None | Some _ \<Rightarrow> snd w)"

definition verbs_rank :: "nat option \<Rightarrow> 'e verbs_world \<Rightarrow> int" where
  "verbs_rank impl w = (case verbs_implementation_of impl w of None \<Rightarrow> -1 | Some vt \<Rightarrow> vt_rank vt)"

definition verbs_size :: "nat option \<Rightarrow> 'e verbs_world \<Rightarrow> int" where
  "verbs_size impl w = (case verbs_implementation_of impl w of None \<Rightarrow> -1 | Some vt \<Rightarrow> vt_world_size vt)"

definition verbs_post_send_next :: "'e verbs_env \<Rightarrow> nat option \<Rightarrow> pointer \<Rightarrow> nat \<Rightarrow> pg_tag \<Rightarrow> pg_transfer_mode \<Rightarrow>
    pg_request \<Rightarrow> 'e verbs_world \<Rightarrow> ('e verbs_world \<times> resp) option" where
  "verbs_post_send_next env impl buffer n tag mode rq w =
     (case verbs_implementation_of impl w of
        None \<Rightarrow> Some (w, -1, rq)
      | Some vt \<Rightarrow>
          map_option (\<lambda>(e, vt', rq', x). ((e, Some vt'), case x of Inl _ \<Rightarrow> -1 | Inr _ \<Rightarrow> 0, the rq'))
            (post_send_next env buffer n tag mode (Some rq) vt (fst w)))"

definition verbs_post_recv_prev :: "'e verbs_env \<Rightarrow> nat option \<Rightarrow> pointer \<Rightarrow> nat \<Rightarrow> pg_tag \<Rightarrow> pg_transfer_mode \<Rightarrow>
    pg_request \<Rightarrow> 'e verbs_world \<Rightarrow> ('e verbs_world \<times> resp) option" where
  "verbs_post_recv_prev env impl buffer n tag mode rq w =
     (case verbs_implementation_of impl w of
        None \<Rightarrow> Some (w, -1, rq)
      | Some vt \<Rightarrow>
          map_option (\<lambda>(e, vt', rq', x). ((e, Some vt'), case x of Inl _ \<Rightarrow> -1 | Inr _ \<Rightarrow> 0, the rq'))
            (post_receive_previous env buffer n tag mode (Some rq) vt (fst w)))"

definition verbs_test :: "'e verbs_env \<Rightarrow> nat option \<Rightarrow> pg_request option \<Rightarrow> int option \<Rightarrow> 'e verbs_world \<Rightarrow>
    ('e verbs_world \<times> int \<times> int option) option" where
  "verbs_test env impl rq completed w =
     (case verbs_implementation_of impl w of
        None \<Rightarrow> Some (w, -1, completed)
      | Some vt \<Rightarrow>
          map_option (\<lambda>(e, vt', completed', x). ((e, Some vt'), case x of Inl _ \<Rightarrow> -1 | Inr s \<Rightarrow> s, completed'))
            (test_request env rq completed vt (fst w)))"

definition verbs_wait :: "'e verbs_env \<Rightarrow> nat option \<Rightarrow> pg_request \<Rightarrow> 'e verbs_world \<Rightarrow> ('e verbs_world \<times> resp) option" where
  "verbs_wait env impl rq w =
     (case verbs_implementation_of impl w of
        None \<Rightarrow> Some (w, -1, rq)
      | Some vt \<Rightarrow>
          map_option (\<lambda>(e, vt', rq', x). ((e, Some vt'), case x of Inl _ \<Rightarrow> -1 | Inr s \<Rightarrow> s, the rq'))
            (wait_request env (Some rq) vt (fst w)))"

definition verbs_progress :: "'e verbs_env \<Rightarrow> nat option \<Rightarrow> 'e verbs_world \<Rightarrow> ('e verbs_world \<times> int) option" where
  "verbs_progress env impl w =
     (case verbs_implementation_of impl w of
        None \<Rightarrow> Some (w, -1)
      | Some vt \<Rightarrow>
          map_option (\<lambda>(e, vt', x). ((e, Some vt'), case x of Inl _ \<Rightarrow> -1 | Inr s \<Rightarrow> s))
            (progress_transport env vt (fst w)))"

definition verbs_destroy :: "'e verbs_env \<Rightarrow> nat option \<Rightarrow> 'e verbs_world \<Rightarrow> 'e verbs_world" where
  "verbs_destroy env impl w =
     (case verbs_implementation_of impl w of
        None \<Rightarrow> w
      | Some vt \<Rightarrow> (delete_verbs_transport env (the impl) vt (fst w), None))"

definition verbs_operations :: "'e verbs_env \<Rightarrow> 'e verbs_world pg_transport_ops" where
  "verbs_operations env =
     \<lparr>op_rank = verbs_rank, op_size = verbs_size, op_post_send_next = verbs_post_send_next env,
      op_post_recv_prev = verbs_post_recv_prev env, op_test = verbs_test env, op_wait = verbs_wait env,
      op_progress = verbs_progress env, op_destroy = Some (verbs_destroy env)\<rparr>"

text \<open>The table of the object at \<open>a\<close>, as its constructor sets it up.\<close>

definition get_c_transport :: "'e verbs_env \<Rightarrow> nat \<Rightarrow> nat \<times> 'e verbs_world pg_transport" where
  "get_c_transport env a = (a, \<lparr>implementation = Some a, operations = Some (verbs_operations env)\<rparr>)"

end
