(* ===== verification/Verbs_Loops.thy ===== *)
theory Verbs_Loops
  imports Verbs_Transport
begin

text \<open>
  The loops of \<open>src/verbs_transport.cpp\<close> that may not end: one invariant rule each, from which
  the theories about resources and requests take what they need, and when the socket loops end.
\<close>

section \<open>Sockets\<close>

lemma write_all_invariant:
  assumes step: "\<And>bs e e' r. I e \<Longrightarrow> sys_write env fd bs e = Some (e', r) \<Longrightarrow> I e'"
    and start: "I e" and ret: "write_all env fd bs e = Some (e', ok)"
  shows "I e'"
proof -
  have "env = env \<and> fd = fd \<and> I e \<longrightarrow> I (fst r)" if "write_all env fd bs e = Some r" for r
  proof (rule write_all.raw_induct [where P = "\<lambda>env' fd' bs e r. env' = env \<and> fd' = fd \<and> I e \<longrightarrow> I (fst r)", OF _ that])
    fix f :: "'a verbs_env \<Rightarrow> int \<Rightarrow> bytes \<Rightarrow> 'a \<Rightarrow> ('a \<times> bool) option" and env' fd' bs e r
    assume IH: "\<And>env' fd' bs e r. f env' fd' bs e = Some r \<Longrightarrow> env' = env \<and> fd' = fd \<and> I e \<longrightarrow> I (fst r)"
      and eq: "(if bs = [] then Some (e, True)
        else case sys_write env' fd' bs e of None \<Rightarrow> None
          | Some (e', r) \<Rightarrow> (case r of Inl interrupted \<Rightarrow> if interrupted then f env' fd' bs e' else Some (e', False)
             | Inr written \<Rightarrow> if written = 0 then Some (e', False) else f env' fd' (drop written bs) e')) = Some r"
    show "env' = env \<and> fd' = fd \<and> I e \<longrightarrow> I (fst r)"
    proof (intro impI, elim conjE)
      assume a: "env' = env" "fd' = fd" "I e"
      then have next_inv: "I e1" if "sys_write env' fd' bs e = Some (e1, y)" for e1 y
        using step that by blast
      show "I (fst r)"
        using eq a IH next_inv by (cases r) (auto split: if_splits option.splits prod.splits sum.splits)
    qed
  qed
  with ret start show ?thesis by fastforce
qed

lemma read_all_invariant:
  assumes step: "\<And>n e e' r. I e \<Longrightarrow> sys_read env fd n e = Some (e', r) \<Longrightarrow> I e'"
    and start: "I e" and ret: "read_all env fd n got e = Some (e', data, ok)"
  shows "I e'"
proof -
  have "env = env \<and> fd = fd \<and> I e \<longrightarrow> I (fst r)" if "read_all env fd n got e = Some r" for r
  proof (rule read_all.raw_induct [where P = "\<lambda>env' fd' n got e r. env' = env \<and> fd' = fd \<and> I e \<longrightarrow> I (fst r)", OF _ that])
    fix f :: "'a verbs_env \<Rightarrow> int \<Rightarrow> nat \<Rightarrow> bytes \<Rightarrow> 'a \<Rightarrow> ('a \<times> bytes \<times> bool) option" and env' fd' n got e r
    assume IH: "\<And>env' fd' n got e r. f env' fd' n got e = Some r \<Longrightarrow> env' = env \<and> fd' = fd \<and> I e \<longrightarrow> I (fst r)"
      and eq: "(if n = 0 then Some (e, got, True)
        else case sys_read env' fd' n e of None \<Rightarrow> None
          | Some (e', r) \<Rightarrow> (case r of Inl interrupted \<Rightarrow> if interrupted then f env' fd' n got e' else Some (e', got, False)
             | Inr received \<Rightarrow> if received = [] then Some (e', got, False)
                 else f env' fd' (n - length received) (got @ received) e')) = Some r"
    show "env' = env \<and> fd' = fd \<and> I e \<longrightarrow> I (fst r)"
    proof (intro impI, elim conjE)
      assume a: "env' = env" "fd' = fd" "I e"
      then have next_inv: "I e1" if "sys_read env' fd' n e = Some (e1, y)" for e1 y
        using step that by blast
      show "I (fst r)"
        using eq a IH next_inv by (cases r) (auto split: if_splits option.splits prod.splits sum.splits)
    qed
  qed
  with ret start show ?thesis by fastforce
qed

section \<open>Completion queues\<close>

text \<open>An invariant that every poll of the queue and every completion keeps.\<close>

definition poll_invariant :: "'e verbs_env \<Rightarrow> (VerbsTransport \<Rightarrow> 'e \<Rightarrow> bool) \<Rightarrow> bool" where
  "poll_invariant env I =
     ((\<forall>vt e n e' cs. I vt e \<longrightarrow> ibv_poll_cq env (vt_cq vt) n e = (e', cs) \<longrightarrow> I vt e') \<and>
      (\<forall>vt e c vt' x. I vt e \<longrightarrow> handle_completion c vt = (vt', x) \<longrightarrow> I vt' e))"

lemma poll_invariantD:
  assumes "poll_invariant env I" and "I vt e"
  shows "ibv_poll_cq env (vt_cq vt) n e = (e', cs) \<Longrightarrow> I vt e'"
    and "handle_completion c vt = (vt', x) \<Longrightarrow> I vt' e"
  using assms unfolding poll_invariant_def by blast+

lemma poll_invariant_conj:
  "poll_invariant env I \<Longrightarrow> poll_invariant env J \<Longrightarrow> poll_invariant env (\<lambda>vt e. I vt e \<and> J vt e)"
  unfolding poll_invariant_def by meson

lemma poll_one_invariant:
  assumes inv: "poll_invariant env I" and start: "I vt e" and ret: "poll_one_blocking env vt e = Some (e', vt', x)"
  shows "I vt' e'"
proof -
  have "env = env \<and> I vt e \<longrightarrow> I (fst (snd r)) (fst r)" if "poll_one_blocking env vt e = Some r" for r
  proof (rule poll_one_blocking.raw_induct [where P = "\<lambda>env' vt e r. env' = env \<and> I vt e \<longrightarrow> I (fst (snd r)) (fst r)", OF _ that])
    fix f :: "'a verbs_env \<Rightarrow> VerbsTransport \<Rightarrow> 'a \<Rightarrow> ('a \<times> VerbsTransport \<times> (verbs_exception + unit)) option" and env' vt e r
    assume IH: "\<And>env' vt e r. f env' vt e = Some r \<Longrightarrow> env' = env \<and> I vt e \<longrightarrow> I (fst (snd r)) (fst r)"
      and eq: "(case ibv_poll_cq env' (vt_cq vt) 1 e of (e', r) \<Rightarrow>
          (case r of None \<Rightarrow> Some (e', vt, Inl Poll_cq_failed)
           | Some completions \<Rightarrow>
               if length completions = 1 then Some (e', handle_completion (hd completions) vt) else f env' vt e')) = Some r"
    obtain e1 cs where poll: "ibv_poll_cq env' (vt_cq vt) 1 e = (e1, cs)" by fastforce
    obtain vt1 y where h: "handle_completion (hd (the cs)) vt = (vt1, y)" by fastforce
    show "env' = env \<and> I vt e \<longrightarrow> I (fst (snd r)) (fst r)"
    proof (intro impI, elim conjE)
      assume "env' = env" "I vt e"
      with poll have I1: "I vt e1" using poll_invariantD(1) [OF inv] by blast
      with h have "I vt1 e1" using poll_invariantD(2) [OF inv] by blast
      with I1 show "I (fst (snd r)) (fst r)"
        using eq [unfolded poll] IH h \<open>env' = env\<close> by (cases r) (auto split: if_splits option.splits)
    qed
  qed
  with ret start show ?thesis by fastforce
qed

lemma handle_completions_invariant:
  assumes "poll_invariant env I" and "I vt e" and "handle_completions cs vt = (vt', x)"
  shows "I vt' e"
  using assms(2,3)
proof (induction cs vt rule: handle_completions.induct)
  case (2 c cs vt)
  obtain vt1 y where h: "handle_completion c vt = (vt1, y)" by fastforce
  with 2 have "I vt1 e" using poll_invariantD(2) [OF assms(1)] by blast
  with 2 h show ?case by (auto split: sum.splits)
qed simp

lemma poll_available_invariant:
  assumes inv: "poll_invariant env I" and start: "I vt e" and ret: "poll_available env k vt e = Some (e', vt', x)"
  shows "I vt' e'"
proof -
  have "env = env \<and> I vt e \<longrightarrow> I (fst (snd r)) (fst r)" if "poll_available env k vt e = Some r" for r
  proof (rule poll_available.raw_induct [where P = "\<lambda>env' k vt e r. env' = env \<and> I vt e \<longrightarrow> I (fst (snd r)) (fst r)", OF _ that])
    fix f :: "'a verbs_env \<Rightarrow> int \<Rightarrow> VerbsTransport \<Rightarrow> 'a \<Rightarrow> ('a \<times> VerbsTransport \<times> (verbs_exception + int)) option" and env' k vt e r
    assume IH: "\<And>env' k vt e r. f env' k vt e = Some r \<Longrightarrow> env' = env \<and> I vt e \<longrightarrow> I (fst (snd r)) (fst r)"
      and eq: "(case ibv_poll_cq env' (vt_cq vt) 16 e of (e', r) \<Rightarrow>
          (case r of None \<Rightarrow> Some (e', vt, Inl Poll_cq_failed)
           | Some completions \<Rightarrow>
               if completions = [] then Some (e', vt, Inr k)
               else (case handle_completions completions vt of (vt', x) \<Rightarrow>
                  (case x of Inl ex \<Rightarrow> Some (e', vt', Inl ex)
                   | Inr _ \<Rightarrow> f env' (k + int (length completions)) vt' e')))) = Some r"
    obtain e1 cs where poll: "ibv_poll_cq env' (vt_cq vt) 16 e = (e1, cs)" by fastforce
    obtain vt1 y where h: "handle_completions (the cs) vt = (vt1, y)" by fastforce
    show "env' = env \<and> I vt e \<longrightarrow> I (fst (snd r)) (fst r)"
    proof (intro impI, elim conjE)
      assume "env' = env" "I vt e"
      with poll have I1: "I vt e1" using poll_invariantD(1) [OF inv] by blast
      with h have "I vt1 e1" using handle_completions_invariant [OF inv] by blast
      with I1 show "I (fst (snd r)) (fst r)"
        using eq [unfolded poll] IH h \<open>env' = env\<close> by (cases r) (auto split: if_splits option.splits sum.splits)
    qed
  qed
  with ret start show ?thesis by fastforce
qed

text \<open>A wait that ends without an exception ends with its request completed.\<close>

lemma wait_completed_invariant:
  assumes inv: "poll_invariant env I" and start: "I vt e" and ret: "wait_completed env a vt e = Some (e', vt', x)"
  shows "I vt' e' \<and> (x = Inr () \<longrightarrow> vr_completed (the (map_of (pending_requests vt') a)))"
proof -
  let ?Q = "\<lambda>a r. I (fst (snd r)) (fst r) \<and>
    (snd (snd r) = Inr () \<longrightarrow> vr_completed (the (map_of (pending_requests (fst (snd r))) a)))"
  have "env = env \<and> I vt e \<longrightarrow> ?Q a r" if "wait_completed env a vt e = Some r" for r
  proof (rule wait_completed.raw_induct [where P = "\<lambda>env' a vt e r. env' = env \<and> I vt e \<longrightarrow> ?Q a r", OF _ that])
    fix f :: "'a verbs_env \<Rightarrow> nat \<Rightarrow> VerbsTransport \<Rightarrow> 'a \<Rightarrow> ('a \<times> VerbsTransport \<times> (verbs_exception + unit)) option" and env' a vt e r
    assume IH: "\<And>env' a vt e r. f env' a vt e = Some r \<Longrightarrow> env' = env \<and> I vt e \<longrightarrow> ?Q a r"
      and eq: "(if vr_completed (the (map_of (pending_requests vt) a)) then Some (e, vt, Inr ())
        else case poll_one_blocking env' vt e of None \<Rightarrow> None
          | Some (e', vt', x) \<Rightarrow> (case x of Inl ex \<Rightarrow> Some (e', vt', Inl ex) | Inr _ \<Rightarrow> f env' a vt' e')) = Some r"
    show "env' = env \<and> I vt e \<longrightarrow> ?Q a r"
    proof (intro impI, elim conjE)
      assume a: "env' = env" "I vt e"
      then have next_inv: "I vt1 e1" if "poll_one_blocking env' vt e = Some (e1, vt1, y)" for e1 vt1 y
        using poll_one_invariant [OF inv] that by blast
      show "?Q a r"
        using eq a IH next_inv by (cases r) (auto split: if_splits option.splits prod.splits sum.splits)
    qed
  qed
  from this [OF ret] start show ?thesis by simp
qed

end
