(* ===== verification/Verbs_Resources.thy ===== *)
theory Verbs_Resources
  imports Verbs_Loops
begin

text \<open>
  Resources of the verbs transport: the memory regions and request objects that exist are the
  ones of the pending requests. \<open>verbs_laws\<close> is what the manual pages of the verbs library and
  of POSIX promise about creation and release; the transport's operations keep the invariant,
  and its destructor releases everything the object owns.
\<close>

section \<open>Documented behaviour of the library\<close>

datatype resource =
  Mr nat | Qp nat | Cq nat | Pd nat | Device nat | Socket int | Request_object nat
| Transport_object nat | Handle_object nat | Context_object nat | Device_list nat | Address_list nat

definition creates :: "('e \<Rightarrow> resource set) \<Rightarrow> ('a \<Rightarrow> resource) \<Rightarrow> 'e \<Rightarrow> 'e \<times> 'a option \<Rightarrow> bool" where
  "creates live mk e r =
     (case snd r of
        None \<Rightarrow> live (fst r) = live e
      | Some h \<Rightarrow> mk h \<notin> live e \<and> live (fst r) = insert (mk h) (live e))"

definition verbs_laws :: "'e verbs_env \<Rightarrow> ('e \<Rightarrow> resource set) \<Rightarrow> bool" where
  "verbs_laws env live =
     ((\<forall>c n e. creates live Cq e (ibv_create_cq env c n e)) \<and>
      (\<forall>pd p n lw rw e. creates live Mr e (ibv_reg_mr env pd p n lw rw e)) \<and>
      (\<forall>e. creates live Request_object e (new_state env e) \<and> snd (new_state env e) \<noteq> Some 0) \<and>
      (\<forall>q e. live (ibv_destroy_cq env q e) = live e - {Cq q}) \<and>
      (\<forall>q e. live (ibv_destroy_qp env q e) = live e - {Qp q}) \<and>
      (\<forall>pd e. live (ibv_dealloc_pd env pd e) = live e - {Pd pd}) \<and>
      (\<forall>c e. live (ibv_close_device env c e) = live e - {Device c}) \<and>
      (\<forall>mr e. live (ibv_dereg_mr env mr e) = live e - {Mr mr}) \<and>
      (\<forall>fd e. live (sys_close env fd e) = live e - {Socket fd}) \<and>
      (\<forall>a e. live (delete_state env a e) = live e - {Request_object a}) \<and>
      (\<forall>q wr e. live (fst (ibv_post_recv env q wr e)) = live e) \<and>
      (\<forall>q wr e. live (fst (ibv_post_send env q wr e)) = live e) \<and>
      (\<forall>q n e. live (fst (ibv_poll_cq env q n e)) = live e) \<and>
      (\<forall>fd bs e e' r. sys_write env fd bs e = Some (e', r) \<longrightarrow> live e' = live e) \<and>
      (\<forall>fd n e e' r. sys_read env fd n e = Some (e', r) \<longrightarrow> live e' = live e))"

lemma verbs_laws_release:
  assumes "verbs_laws env live"
  shows "live (ibv_destroy_cq env q e) = live e - {Cq q}" "live (ibv_destroy_qp env q e) = live e - {Qp q}"
    "live (ibv_dealloc_pd env q e) = live e - {Pd q}" "live (ibv_close_device env q e) = live e - {Device q}"
    "live (ibv_dereg_mr env q e) = live e - {Mr q}" "live (sys_close env fd e) = live e - {Socket fd}"
    "live (delete_state env q e) = live e - {Request_object q}"
  using assms by (simp_all add: verbs_laws_def)

lemma verbs_laws_keep:
  assumes "verbs_laws env live"
  shows "ibv_post_recv env q rwr e = (e', s) \<Longrightarrow> live e' = live e"
    "ibv_post_send env q swr e = (e', s) \<Longrightarrow> live e' = live e"
    "ibv_poll_cq env q n e = (e', cs) \<Longrightarrow> live e' = live e"
    "sys_write env fd bs e = Some (e', wr) \<Longrightarrow> live e' = live e"
    "sys_read env fd n e = Some (e', rd) \<Longrightarrow> live e' = live e"
  using assms unfolding verbs_laws_def by (metis fst_conv)+

section \<open>The invariant\<close>

definition pend :: "VerbsTransport \<Rightarrow> nat \<Rightarrow> VerbsRequestState option" where
  "pend vt = map_of (pending_requests vt)"

definition region_of :: "VerbsTransport \<Rightarrow> nat \<Rightarrow> nat option" where
  "region_of vt a = (case pend vt a of None \<Rightarrow> None | Some st \<Rightarrow> vr_memory_region st)"

definition request_resources :: "VerbsTransport \<Rightarrow> resource set" where
  "request_resources vt = Request_object ` dom (pend vt) \<union> Mr ` ran (region_of vt)"

text \<open>
  The object keeps its handles \<open>H\<close>, every pending request has a memory region of its own, and apart from the resources \<open>B\<close> the
  live ones are exactly those of the pending requests.
\<close>

definition handles :: "VerbsTransport \<Rightarrow> nat \<times> nat \<times> nat \<times> int \<times> int" where
  "handles vt = (vt_context vt, vt_pd vt, vt_cq vt, vt_rank vt, vt_world_size vt)"

definition resources_inv :: "('e \<Rightarrow> resource set) \<Rightarrow> resource set \<Rightarrow> nat \<times> nat \<times> nat \<times> int \<times> int \<Rightarrow> VerbsTransport \<Rightarrow> 'e \<Rightarrow> bool" where
  "resources_inv live B H vt e =
     (handles vt = H \<and> distinct (map fst (pending_requests vt)) \<and> 0 \<notin> dom (pend vt) \<and>
      dom (region_of vt) = dom (pend vt) \<and> inj_on (region_of vt) (dom (pend vt)) \<and>
      B \<inter> request_resources vt = {} \<and> live e = B \<union> request_resources vt)"

lemma resources_inv_env: "live e' = live e \<Longrightarrow> resources_inv live B H vt e' = resources_inv live B H vt e"
  by (simp add: resources_inv_def)

lemma pend_update [simp]: "pend (vt\<lparr>pending_requests := AList.update a st (pending_requests vt)\<rparr>) = (pend vt)(a \<mapsto> st)"
  by (simp add: pend_def update_conv')

lemma pend_delete [simp]: "pend (vt\<lparr>pending_requests := AList.delete a (pending_requests vt)\<rparr>) = (pend vt)(a := None)"
  by (simp add: pend_def delete_conv')

lemma pend_other [simp]: "pend (vt\<lparr>vt_next_request_id := i\<rparr>) = pend vt"
  by (simp add: pend_def)

text \<open>Completing a request touches neither its region nor its object.\<close>

lemma resources_inv_same_regions:
  assumes inv: "resources_inv live B H vt e" and "dom (pend vt') = dom (pend vt)" and "region_of vt' = region_of vt"
    and "distinct (map fst (pending_requests vt'))" and "handles vt' = handles vt"
  shows "resources_inv live B H vt' e"
  using assms by (simp add: resources_inv_def request_resources_def)

text \<open>A new request with a new region.\<close>

lemma resources_inv_add:
  assumes inv: "resources_inv live B H vt e" and new: "Request_object a \<notin> live e" "Mr mr \<notin> live e" "a \<noteq> 0"
    and live: "live e' = insert (Request_object a) (insert (Mr mr) (live e))"
    and st: "vr_memory_region st = Some mr"
    and vt': "pending_requests vt' = AList.update a st (pending_requests vt)" "handles vt' = handles vt"
  shows "resources_inv live B H vt' e'"
proof -
  have p: "pend vt' = (pend vt)(a \<mapsto> st)"
    by (simp add: pend_def vt' update_conv')
  have fresh: "a \<notin> dom (pend vt)" "mr \<notin> ran (region_of vt)"
    using inv new by (auto simp: resources_inv_def request_resources_def)
  have r: "region_of vt' = (region_of vt)(a \<mapsto> mr)"
    using st by (auto simp: region_of_def p fun_eq_iff)
  have none: "region_of vt a = None"
    using fresh(1) by (auto simp: region_of_def dom_def)
  have res: "request_resources vt' = insert (Request_object a) (insert (Mr mr) (request_resources vt))"
    using none by (auto simp: request_resources_def p r ran_map_upd)
  have "inj_on ((region_of vt)(a \<mapsto> mr)) (insert a (dom (pend vt)))"
    using inv fresh by (auto simp: resources_inv_def inj_on_def ran_def)
  moreover have "dom (region_of vt') = dom (pend vt')"
    using inv by (simp add: resources_inv_def p r)
  moreover have "B \<inter> request_resources vt' = {}"
    using inv new by (auto simp: resources_inv_def res)
  moreover have "live e' = B \<union> request_resources vt'"
    using inv by (auto simp: resources_inv_def res live)
  ultimately show ?thesis
    using inv new(3) by (simp add: resources_inv_def p r vt' distinct_update)
qed

text \<open>A request taken out, with its object and its region.\<close>

lemma resources_inv_remove:
  assumes inv: "resources_inv live B H vt e" and st: "pend vt a = Some st" "vr_memory_region st = Some mr"
    and live: "live e' = live e - {Request_object a, Mr mr}"
    and vt': "pending_requests vt' = AList.delete a (pending_requests vt)" "handles vt' = handles vt"
  shows "resources_inv live B H vt' e'"
proof -
  have p: "pend vt' = (pend vt)(a := None)"
    by (simp add: pend_def vt' delete_conv')
  have r: "region_of vt' = (region_of vt)(a := None)"
    by (auto simp: region_of_def p fun_eq_iff)
  have a: "region_of vt a = Some mr"
    using st by (simp add: region_of_def)
  have "mr \<notin> ran ((region_of vt)(a := None))"
    using inv a st(1) unfolding resources_inv_def inj_on_def ran_def by (auto split: if_splits) (metis domI)
  then have "ran ((region_of vt)(a := None)) = ran (region_of vt) - {mr}"
    using a by (auto simp: ran_def split: if_splits) (metis option.inject)
  then have res: "request_resources vt' = request_resources vt - {Request_object a, Mr mr}"
    by (auto simp: request_resources_def p r)
  have "Request_object a \<in> request_resources vt" "Mr mr \<in> request_resources vt"
    using st a by (auto simp: request_resources_def dom_def ran_def)
  then have "live e' = B \<union> request_resources vt'"
    using inv by (auto simp: resources_inv_def res live)
  moreover have "inj_on ((region_of vt)(a := None)) (dom (pend vt) - {a})"
    using inv by (auto simp: resources_inv_def inj_on_def)
  moreover have "dom ((region_of vt)(a := None)) = dom (pend vt) - {a}"
    using inv by (auto simp: resources_inv_def)
  ultimately show ?thesis
    using inv by (auto simp: resources_inv_def p r vt' res distinct_delete)
qed

section \<open>Every operation keeps it\<close>

text \<open>A completion changes the status of its request only, never the resources.\<close>

lemma handle_completion_pend:
  assumes "handle_completion c vt = (vt', x)"
  shows "dom (pend vt') = dom (pend vt) \<and> region_of vt' = region_of vt \<and>
    (distinct (map fst (pending_requests vt)) \<longrightarrow> distinct (map fst (pending_requests vt'))) \<and> handles vt' = handles vt"
  using assms
  by (auto simp: handle_completion_def Let_def region_of_def distinct_update fun_eq_iff handles_def pend_def [symmetric]
      split: if_splits option.splits)

lemma resources_inv_completion:
  "resources_inv live B H vt e \<Longrightarrow> handle_completion c vt = (vt', x) \<Longrightarrow> resources_inv live B H vt' e"
  using handle_completion_pend [of c vt vt' x] resources_inv_same_regions [of live B H vt e vt']
  by (simp add: resources_inv_def)

text \<open>So polling and waiting keep the invariant.\<close>

lemma resources_poll_invariant: "verbs_laws env live \<Longrightarrow> poll_invariant env (resources_inv live B H)"
  unfolding poll_invariant_def
  by (meson resources_inv_completion resources_inv_env verbs_laws_keep(3))

lemma pending_poll_invariant: "poll_invariant env (\<lambda>vt e. dom (pend vt) = D)"
  using handle_completion_pend unfolding poll_invariant_def by blast

lemma write_all_live:
  assumes "verbs_laws env live" and "write_all env fd bs e = Some (e', ok)"
  shows "live e' = live e"
  by (rule write_all_invariant [where I = "\<lambda>e'. live e' = live e", OF _ _ assms(2)])
     (simp_all add: verbs_laws_keep(4) [OF assms(1)])

lemma read_all_live:
  assumes "verbs_laws env live" and "read_all env fd n got e = Some (e', data, ok)"
  shows "live e' = live e"
  by (rule read_all_invariant [where I = "\<lambda>e'. live e' = live e", OF _ _ assms(2)])
     (simp_all add: verbs_laws_keep(5) [OF assms(1)])

text \<open>Registration, a new request, and taking it back.\<close>

lemma register_memory_live:
  assumes "verbs_laws env live" and "register_memory env vt p n lw rw e = (e1, r)"
  shows "case r of Inl x \<Rightarrow> live e1 = live e \<and> x \<noteq> Bad_alloc | Inr mr \<Rightarrow> Mr mr \<notin> live e \<and> live e1 = insert (Mr mr) (live e)"
proof -
  have "creates live Mr e (ibv_reg_mr env (vt_pd vt) p n lw rw e)"
    using assms(1) by (simp add: verbs_laws_def)
  with assms(2) show ?thesis
    by (auto simp: register_memory_def creates_def split: if_splits prod.splits option.splits)
qed

lemma add_request_cases:
  assumes "verbs_laws env live" and "add_request env k tag mode mr vt e = (e1, vt1, r)"
  obtains (failed) "r = Inl Bad_alloc" "vt1 = vt" "live e1 = live e"
  | (added) a where "r = Inr a" "Request_object a \<notin> live e" "a \<noteq> 0" "live e1 = insert (Request_object a) (live e)"
      "vt1 = vt\<lparr>vt_next_request_id := vt_next_request_id vt + 1,
         pending_requests := AList.update a
           \<lparr>vr_kind = k, vr_id = vt_next_request_id vt, vr_tag = tag, vr_mode = mode,
            vr_memory_region = Some mr, vr_completed = False, vr_status = 0\<rparr> (pending_requests vt)\<rparr>"
proof -
  obtain a where a: "new_state env e = (e1, a)"
    using assms(2) by (auto simp: add_request_def split: prod.splits option.splits)
  have c: "creates live Request_object e (e1, a)" "a \<noteq> Some 0"
    using assms(1) a unfolding verbs_laws_def by (metis snd_conv)+
  show thesis
  proof (cases a)
    case None
    with a c assms(2) show thesis
      by (intro failed) (simp_all add: add_request_def creates_def)
  next
    case (Some a')
    with a c assms(2) show thesis
      by (intro added [of a']) (auto simp: add_request_def creates_def)
  qed
qed

lemma request_added:
  assumes laws: "verbs_laws env live" and inv: "resources_inv live B H vt e"
    and reg: "register_memory env vt p n lw rw e = (e1, Inr mr)"
    and add: "add_request env k tag mode mr vt e1 = (e2, vt2, Inr a)"
  shows "resources_inv live B H vt2 e2"
    and "\<exists>st. pend vt2 a = Some st \<and> vr_memory_region st = Some mr"
proof -
  have mr: "Mr mr \<notin> live e" "live e1 = insert (Mr mr) (live e)"
    using register_memory_live [OF laws reg] by simp_all
  have "resources_inv live B H vt2 e2 \<and> (\<exists>st. pend vt2 a = Some st \<and> vr_memory_region st = Some mr)"
    using laws add
  proof (cases rule: add_request_cases)
    case (added a')
    then have "resources_inv live B H vt2 e2"
      by (intro resources_inv_add [OF inv _ mr(1)]) (auto simp: mr(2) handles_def)
    with added show ?thesis
      by (simp add: pend_def update_conv')
  qed simp
  then show "resources_inv live B H vt2 e2" and "\<exists>st. pend vt2 a = Some st \<and> vr_memory_region st = Some mr"
    by blast+
qed

lemma request_released:
  assumes laws: "verbs_laws env live" and inv: "resources_inv live B H vt e"
    and st: "pend vt a = Some st" "vr_memory_region st = Some mr"
    and "pending_requests vt' = AList.delete a (pending_requests vt)" "handles vt' = handles vt"
  shows "resources_inv live B H vt' (delete_state env a (ibv_dereg_mr env mr e))"
  by (rule resources_inv_remove [OF inv st _ assms(5,6)]) (auto simp: verbs_laws_release [OF laws])

lemma request_dropped:
  assumes laws: "verbs_laws env live" and inv: "resources_inv live B H vt e"
    and st: "\<exists>st. pend vt a = Some st \<and> vr_memory_region st = Some mr"
    and drop: "drop_request env a mr vt e = (e', vt')"
  shows "resources_inv live B H vt' e'"
  using request_released [OF laws inv, of a _ mr vt'] st drop by (auto simp: drop_request_def handles_def)

lemma resources_inv_live: "resources_inv live B H vt e \<Longrightarrow> live e' = live e \<Longrightarrow> resources_inv live B H vt e'"
  by (simp add: resources_inv_def)

lemma resources_inv_post_receive:
  assumes laws: "verbs_laws env live" and inv: "resources_inv live B H vt e"
    and ret: "post_receive_previous env buffer n tag mode rq vt e = Some (e', vt', rq', x)" and "x \<noteq> Inl Bad_alloc"
  shows "resources_inv live B H vt' e'"
proof (cases "\<exists>m. choose_mode mode n = Inr m \<and>
    \<not> (qp_prev vt = None \<or> previous_socket vt < 0 \<or> buffer = NullPtr \<or> n = 0 \<or> rq = None \<or> internal (the rq) \<noteq> None) \<and> \<not> n > 2 ^ 32 - 1")
  case False
  then have "\<exists>y. post_receive_previous env buffer n tag mode rq vt e = Some (e, vt, rq, Inl y)"
    by (cases "choose_mode mode n") (auto simp: post_receive_previous_def)
  with ret inv show ?thesis by auto
next
  case True
  then obtain m where m: "choose_mode mode n = Inr m" by blast
  obtain e1 r1 where reg: "register_memory env vt buffer n True (m = PG_TRANSFER_RENDEZVOUS) e = (e1, r1)" by fastforce
  show ?thesis
  proof (cases r1)
    case (Inl y)
    with ret True m reg have "e' = e1" "vt' = vt"
      by (auto simp: post_receive_previous_def)
    with Inl register_memory_live [OF laws reg] show ?thesis
      using resources_inv_live [OF inv] by simp
  next
    case (Inr mr)
    obtain e2 vt2 r2 where add: "add_request env Receive tag m mr vt e1 = (e2, vt2, r2)" by (cases "add_request env Receive tag m mr vt e1")
    show ?thesis
    proof (cases r2)
      case Inl
      then have "r2 = Inl Bad_alloc"
        using add_request_cases [OF laws add] by blast
      with ret True m reg Inr add assms(4) show ?thesis
        by (auto simp: post_receive_previous_def)
    next
      case r2: (Inr a)
      note added = request_added [OF laws inv reg [unfolded Inr] add [unfolded r2]]
      let ?wr = "\<lparr>rwr_id = a, rwr_sg_list = (if m = PG_TRANSFER_EAGER
        then [\<lparr>sge_addr = address_of env buffer, sge_length = word_of_nat n, sge_lkey = mr_lkey env mr\<rparr>] else [])\<rparr>"
      obtain e3 s where post: "ibv_post_recv env (the (qp_prev vt)) ?wr e2 = (e3, s)" by fastforce
      have inv3: "resources_inv live B H vt2 e3"
        by (rule resources_inv_live [OF added(1) verbs_laws_keep(1) [OF laws post]])
      show ?thesis
      proof (cases "s = 0")
        case False
        with ret True m reg Inr add r2 post request_dropped [OF laws inv3 added(2)] show ?thesis
          by (auto simp: post_receive_previous_def Let_def split: prod.splits)
      next
        case s: True
        with ret True m reg Inr add r2 post obtain ok where
          w: "write_all env (previous_socket vt) (control_to_bytes (receive_descriptor env buffer n tag m mr)) e3 = Some (e', ok)" and "vt' = vt2"
          by (auto simp: post_receive_previous_def Let_def split: option.splits)
        show ?thesis
          unfolding \<open>vt' = vt2\<close> by (rule resources_inv_live [OF inv3 write_all_live [OF laws w]])
      qed
    qed
  qed
qed

lemma resources_inv_post_send:
  assumes laws: "verbs_laws env live" and inv: "resources_inv live B H vt e"
    and ret: "post_send_next env buffer n tag mode rq vt e = Some (e', vt', rq', x)" and "x \<noteq> Inl Bad_alloc"
  shows "resources_inv live B H vt' e'"
proof (cases "\<exists>m. choose_mode mode n = Inr m \<and>
    \<not> (qp_next vt = None \<or> next_socket vt < 0 \<or> buffer = NullPtr \<or> n = 0 \<or> rq = None \<or> internal (the rq) \<noteq> None) \<and> \<not> n > 2 ^ 32 - 1")
  case False
  then have "\<exists>y. post_send_next env buffer n tag mode rq vt e = Some (e, vt, rq, Inl y)"
    by (cases "choose_mode mode n") (auto simp: post_send_next_def)
  with ret inv show ?thesis by auto
next
  case True
  then obtain m where m: "choose_mode mode n = Inr m" by blast
  have "read_all env (next_socket vt) control_size [] e \<noteq> None"
  proof
    assume "read_all env (next_socket vt) control_size [] e = None"
    with True m have "post_send_next env buffer n tag mode rq vt e = None"
      by (auto simp: post_send_next_def)
    with ret show False by simp
  qed
  then obtain e0 data ok where read: "read_all env (next_socket vt) control_size [] e = Some (e0, data, ok)"
    by fastforce
  have inv0: "resources_inv live B H vt e0"
    by (rule resources_inv_live [OF inv read_all_live [OF laws read]])
  show ?thesis
  proof (cases "ok \<and> descriptor_matches (control_from_bytes data) tag n m")
    case False
    then have "\<exists>y. post_send_next env buffer n tag mode rq vt e = Some (e0, vt, rq, Inl y)"
      using True m read by (cases ok) (auto simp: post_send_next_def Let_def)
    with ret have "e' = e0" "vt' = vt" by auto
    with inv0 show ?thesis by simp
  next
    case match: True
    obtain e1 r1 where reg: "register_memory env vt buffer n False False e0 = (e1, r1)" by fastforce
    show ?thesis
    proof (cases r1)
      case (Inl y)
      with ret True m read match reg have "e' = e1" "vt' = vt"
        by (auto simp: post_send_next_def Let_def)
      with Inl register_memory_live [OF laws reg] show ?thesis
        using resources_inv_live [OF inv0] by simp
    next
      case (Inr mr)
      obtain e2 vt2 r2 where add: "add_request env Send tag m mr vt e1 = (e2, vt2, r2)" by (cases "add_request env Send tag m mr vt e1")
      show ?thesis
      proof (cases r2)
        case Inl
        then have "r2 = Inl Bad_alloc"
          using add_request_cases [OF laws add] by blast
        with ret True m read match reg Inr add assms(4) show ?thesis
          by (auto simp: post_send_next_def Let_def)
      next
        case r2: (Inr a)
        note added = request_added [OF laws inv0 reg [unfolded Inr] add [unfolded r2]]
        let ?wr = "\<lparr>swr_id = a, swr_sg_list = [\<lparr>sge_addr = address_of env buffer, sge_length = word_of_nat n, sge_lkey = mr_lkey env mr\<rparr>],
          swr_signaled = True, swr_imm_data = htonl tag,
          swr_opcode = (if m = PG_TRANSFER_EAGER then IBV_WR_SEND_WITH_IMM
            else IBV_WR_RDMA_WRITE_WITH_IMM (remote_address (control_from_bytes data)) (remote_key (control_from_bytes data)))\<rparr>"
        obtain e3 s where post: "ibv_post_send env (the (qp_next vt)) ?wr e2 = (e3, s)" by fastforce
        have inv3: "resources_inv live B H vt2 e3"
          by (rule resources_inv_live [OF added(1) verbs_laws_keep(2) [OF laws post]])
        obtain e4 vt4 where drop: "drop_request env a mr vt2 e3 = (e4, vt4)" by fastforce
        show ?thesis
        proof (cases "s = 0")
          case False
          with ret True m read match reg Inr add r2 post drop have "e' = e4" "vt' = vt4"
            by (auto simp: post_send_next_def Let_def)
          with request_dropped [OF laws inv3 added(2) drop] show ?thesis by simp
        next
          case s: True
          with ret True m read match reg Inr add r2 post have "e' = e3" "vt' = vt2"
            by (auto simp: post_send_next_def Let_def)
          with inv3 show ?thesis by simp
        qed
      qed
    qed
  qed
qed

text \<open>Waiting, testing and progress.\<close>

lemma resources_inv_wait:
  assumes laws: "verbs_laws env live" and inv: "resources_inv live B H vt e"
    and ret: "wait_request env rq vt e = Some (e', vt', rq', x)"
  shows "resources_inv live B H vt' e'"
proof (cases "rq = None \<or> internal (the rq) = None \<or> map_of (pending_requests vt) (the (internal (the rq))) = None")
  case True
  with ret inv show ?thesis by (auto simp: wait_request_def Let_def split: if_splits)
next
  case False
  let ?a = "the (internal (the rq))"
  note polls = poll_invariant_conj [OF resources_poll_invariant [OF laws, of B H] pending_poll_invariant [of env "dom (pend vt)"]]
  from ret False obtain e1 vt1 y where w: "wait_completed env ?a vt e = Some (e1, vt1, y)"
    by (auto simp: wait_request_def Let_def split: option.splits)
  with wait_completed_invariant [OF polls _ w] inv
  have inv1: "resources_inv live B H vt1 e1" and "dom (pend vt1) = dom (pend vt)"
    by auto
  then obtain st where st: "pend vt1 ?a = Some st"
    using False by (auto simp: pend_def dom_def set_eq_iff)
  then obtain mr where mr: "vr_memory_region st = Some mr"
  proof -
    have "?a \<in> dom (region_of vt1)"
      using inv1 st by (auto simp: resources_inv_def)
    with st that show ?thesis by (auto simp: region_of_def)
  qed
  show ?thesis
  proof (cases y)
    case Inl
    with ret False w inv1 show ?thesis
      by (auto simp: wait_request_def Let_def)
  next
    case Inr
    have "resources_inv live B H (vt1\<lparr>pending_requests := AList.delete ?a (pending_requests vt1)\<rparr>)
        (delete_state env ?a (ibv_dereg_mr env mr e1))"
      by (rule request_released [OF laws inv1 st mr]) (simp_all add: handles_def)
    with ret False w Inr st mr show ?thesis
      by (auto simp: wait_request_def Let_def consume_request_def release_request_def pend_def)
  qed
qed

lemma resources_inv_test:
  assumes laws: "verbs_laws env live" and inv: "resources_inv live B H vt e"
    and ret: "test_request env rq out vt e = Some (e', vt', out', x)"
  shows "resources_inv live B H vt' e'"
  using ret inv poll_available_invariant [OF resources_poll_invariant [OF laws, of B H] inv]
  by (auto simp: test_request_def Let_def split: if_splits option.splits sum.splits prod.splits)

lemma resources_inv_progress:
  assumes laws: "verbs_laws env live" and inv: "resources_inv live B H vt e"
    and ret: "progress_transport env vt e = Some (e', vt', x)"
  shows "resources_inv live B H vt' e'"
  using ret poll_available_invariant [OF resources_poll_invariant [OF laws, of B H] inv]
  by (auto simp: progress_transport_def split: option.splits sum.splits prod.splits)

end
