(* ===== verification/Verbs_Properties.thy ===== *)
theory Verbs_Properties
  imports Verbs_Resources
begin

text \<open>
  What the verbs transport guarantees: its resources are those of its pending requests and are
  all released by the destructor, a wait consumes its request, a send goes out only against the
  descriptor of a matching receive, and completions are attributed to the request they name.
\<close>

section \<open>A concrete outside\<close>

text \<open>
  For the witnesses: the live resources as a list, the bytes waiting on every socket, and the
  completions waiting in the queue. A new handle is larger than every live one.
\<close>

record outside =
  o_live :: "resource list"
  o_input :: bytes
  o_completions :: "ibv_wc list"

fun handle_number :: "resource \<Rightarrow> nat" where
  "handle_number (Mr n) = n"
| "handle_number (Qp n) = n"
| "handle_number (Cq n) = n"
| "handle_number (Pd n) = n"
| "handle_number (Device n) = n"
| "handle_number (Socket n) = nat n"
| "handle_number (Request_object n) = n"
| "handle_number (Transport_object n) = n"
| "handle_number (Handle_object n) = n"
| "handle_number (Context_object n) = n"
| "handle_number (Device_list n) = n"
| "handle_number (Address_list n) = n"

definition fresh_handle :: "outside \<Rightarrow> nat" where
  "fresh_handle e = Suc (sum_list (map handle_number (o_live e)))"

definition grow :: "(nat \<Rightarrow> resource) \<Rightarrow> outside \<Rightarrow> outside \<times> nat option" where
  "grow mk e = (e\<lparr>o_live := mk (fresh_handle e) # o_live e\<rparr>, Some (fresh_handle e))"

definition shrink :: "resource \<Rightarrow> outside \<Rightarrow> outside" where
  "shrink r e = e\<lparr>o_live := filter (\<lambda>q. q \<noteq> r) (o_live e)\<rparr>"

definition demo_env :: "outside verbs_env" where
  "demo_env = \<lparr>address_of = (\<lambda>p. case p of NullPtr \<Rightarrow> 0 | Ptr b off \<Rightarrow> word_of_nat (4096 * Suc b + off)),
     ibv_create_cq = (\<lambda>c n e. grow Cq e), ibv_destroy_cq = (\<lambda>q. shrink (Cq q)),
     ibv_destroy_qp = (\<lambda>q. shrink (Qp q)), ibv_dealloc_pd = (\<lambda>q. shrink (Pd q)),
     ibv_close_device = (\<lambda>q. shrink (Device q)), ibv_reg_mr = (\<lambda>pd p n lw rw e. grow Mr e),
     mr_lkey = (\<lambda>mr. word_of_nat mr), mr_rkey = (\<lambda>mr. word_of_nat (mr + 1)),
     ibv_dereg_mr = (\<lambda>mr. shrink (Mr mr)), ibv_post_recv = (\<lambda>q wr e. (e, 0)), ibv_post_send = (\<lambda>q wr e. (e, 0)),
     ibv_poll_cq = (\<lambda>q n e. (e\<lparr>o_completions := drop n (o_completions e)\<rparr>, Some (take n (o_completions e)))),
     sys_write = (\<lambda>fd bs e. Some (e, Inr (length bs))),
     sys_read = (\<lambda>fd n e. Some (e\<lparr>o_input := drop n (o_input e)\<rparr>, Inr (take n (o_input e)))),
     sys_close = (\<lambda>fd. shrink (Socket fd)), new_state = (\<lambda>e. grow Request_object e),
     delete_state = (\<lambda>a. shrink (Request_object a)),
     new_transport = (\<lambda>e. grow Transport_object e), delete_transport = (\<lambda>a. shrink (Transport_object a))\<rparr>"

definition demo_live :: "outside \<Rightarrow> resource set" where
  "demo_live e = set (o_live e)"

lemma handle_number_fresh: "r \<in> set (o_live e) \<Longrightarrow> handle_number r < fresh_handle e"
  using member_le_sum_list [of "handle_number r" "map handle_number (o_live e)"] by (simp add: fresh_handle_def)

lemma grow_creates:
  assumes "\<And>n. handle_number (mk n) = n"
  shows "creates demo_live mk e (grow mk e)"
  using handle_number_fresh [of "mk (fresh_handle e)" e] assms
  by (auto simp: creates_def grow_def demo_live_def)

lemma demo_laws: "verbs_laws demo_env demo_live"
  by (simp add: verbs_laws_def demo_env_def grow_creates)
     (auto simp: demo_live_def shrink_def grow_def fresh_handle_def)

section \<open>Descriptors\<close>

lemma control_from_to: "control_from_bytes (control_to_bytes c) = c"
proof -
  have w: "word_of_nat (le_value (le_bytes 4 (unat x))) = x" for x :: "32 word"
    using word_le_bytes [of x] by (simp del: le_bytes_numeral)
  have q: "word_of_nat (le_value (le_bytes 8 (unat x))) = x" for x :: "64 word"
    using word_le_bytes [of x] by (simp del: le_bytes_numeral)
  show ?thesis
    by (simp add: control_from_bytes_def control_to_bytes_def word_at_def slice_def w q del: le_bytes_numeral)
qed


text \<open>
  C26. The descriptor a receive writes is accepted by a send exactly when tag, number of bytes
  and transfer mode are those of the receive.
\<close>

theorem descriptor_agreement:
  assumes "n < 2 ^ 32" and "m \<in> {PG_TRANSFER_EAGER, PG_TRANSFER_RENDEZVOUS}" and "m' \<in> {PG_TRANSFER_EAGER, PG_TRANSFER_RENDEZVOUS}"
  shows "descriptor_matches (control_from_bytes (control_to_bytes (receive_descriptor env buffer n tag m mr))) tag' n' m' \<longleftrightarrow>
    tag = tag' \<and> n = n' \<and> m = m'"
  using assms unfolding control_from_to by (auto simp: descriptor_matches_def receive_descriptor_def unat_of_nat)

theorem descriptor_agreement_witness:
  "descriptor_matches (control_from_bytes (control_to_bytes (receive_descriptor demo_env (Ptr 0 0) 12 7 PG_TRANSFER_EAGER 3))) 7 12 PG_TRANSFER_EAGER \<and>
   \<not> descriptor_matches (control_from_bytes (control_to_bytes (receive_descriptor demo_env (Ptr 0 0) 12 7 PG_TRANSFER_EAGER 3))) 8 12 PG_TRANSFER_EAGER"
  using descriptor_agreement [of 12 PG_TRANSFER_EAGER PG_TRANSFER_EAGER demo_env "Ptr 0 0" 7 3] by simp


section \<open>Completions\<close>



section \<open>Waiting and testing\<close>

lemma wait_pending:
  assumes "wait_request env (Some rq) vt e = Some (e', vt', rq', Inr s)" and "internal rq = Some a" and "pend vt a \<noteq> None"
  obtains e1 vt1 st where "wait_completed env a vt e = Some (e1, vt1, Inr ())" and "pend vt1 a = Some st"
    and "vr_completed st" and "s = vr_status st" and "rq' = Some null_request" and "pend vt' = (pend vt1)(a := None)"
    and "dom (pend vt1) = dom (pend vt)"
proof -
  have p: "map_of (pending_requests vt) a \<noteq> None"
    using assms(3) by (simp add: pend_def)
  obtain e1 vt1 where w: "wait_completed env a vt e = Some (e1, vt1, Inr ())"
    using assms(1,2) p by (auto simp: wait_request_def Let_def split: option.splits sum.splits if_splits)
  have d: "dom (pend vt1) = dom (pend vt)" and c: "vr_completed (the (map_of (pending_requests vt1) a))"
    using wait_completed_invariant [OF pending_poll_invariant [of env "dom (pend vt)"] refl w] by simp_all
  obtain st where st: "pend vt1 a = Some st"
    using d assms(3) by (metis domD domI option.exhaust)
  have "s = vr_status st \<and> rq' = Some null_request \<and> pend vt' = (pend vt1)(a := None)"
    using assms(1,2) p w st by (auto simp: wait_request_def Let_def consume_request_def pend_def delete_conv' split: if_splits)
  with w st c d that show thesis
    by (auto simp: pend_def)
qed

text \<open>
  C30. A wait for a pending request that returns without an exception has seen the request
  completed, answers its status, removes it, clears the handle, and a second wait with that
  handle answers -1 at once.
\<close>

theorem verbs_wait_consumes:
  assumes "wait_request env (Some rq) vt e = Some (e', vt', rq', Inr s)" and "internal rq = Some a" and "pend vt a \<noteq> None"
  shows "rq' = Some null_request \<and> pend vt' a = None \<and> dom (pend vt') = dom (pend vt) - {a} \<and>
    (\<exists>e1 vt1 st. wait_completed env a vt e = Some (e1, vt1, Inr ()) \<and> pend vt1 a = Some st \<and> vr_completed st \<and> s = vr_status st) \<and>
    wait_request env rq' vt' e' = Some (e', vt', rq', Inr (-1))"
proof -
  obtain e1 vt1 st where w: "wait_completed env a vt e = Some (e1, vt1, Inr ())" "pend vt1 a = Some st" "vr_completed st"
      "s = vr_status st" and r: "rq' = Some null_request" "pend vt' = (pend vt1)(a := None)" "dom (pend vt1) = dom (pend vt)"
    by (rule wait_pending [OF assms])
  then show ?thesis
    by (auto simp: wait_request_def null_request_def)
qed

definition demo_request :: VerbsRequestState where
  "demo_request = \<lparr>vr_kind = Send, vr_id = 1, vr_tag = 7, vr_mode = PG_TRANSFER_EAGER, vr_memory_region = Some 8,
     vr_completed = False, vr_status = 0\<rparr>"

definition demo_transport :: VerbsTransport where
  "demo_transport = \<lparr>vt_rank = 0, vt_world_size = 2, vt_context = 1, vt_pd = 2, vt_cq = 3, qp_next = Some 4, qp_prev = Some 5,
     next_socket = 6, previous_socket = 7, vt_next_request_id = 2, pending_requests = [(9, demo_request)]\<rparr>"

definition demo_completion :: ibv_wc where
  "demo_completion = \<lparr>wc_wr_id = 9, wc_success = True, wc_opcode = IBV_WC_SEND, wc_with_imm = False, wc_imm_data = 0\<rparr>"

definition demo_outside :: outside where
  "demo_outside = \<lparr>o_live = [Mr 8, Request_object 9], o_input = [], o_completions = [demo_completion]\<rparr>"

lemmas demo_defs = demo_env_def demo_request_def demo_transport_def demo_completion_def demo_outside_def grow_def shrink_def

lemma demo_wait:
  "wait_request demo_env (Some \<lparr>id = 1, internal = Some 9\<rparr>) demo_transport demo_outside =
     Some (\<lparr>o_live = [], o_input = [], o_completions = []\<rparr>, demo_transport\<lparr>pending_requests := []\<rparr>, Some null_request, Inr 0)"
  by (simp add: wait_request_def wait_completed.simps poll_one_blocking.simps handle_completion_def valid_completion_def
      consume_request_def release_request_def demo_defs Let_def)

theorem verbs_wait_consumes_witness:
  "wait_request demo_env (Some null_request) (demo_transport\<lparr>pending_requests := []\<rparr>) \<lparr>o_live = [], o_input = [], o_completions = []\<rparr> =
     Some (\<lparr>o_live = [], o_input = [], o_completions = []\<rparr>, demo_transport\<lparr>pending_requests := []\<rparr>, Some null_request, Inr (-1))"
  using verbs_wait_consumes [OF demo_wait] by (simp add: pend_def demo_transport_def)

text \<open>
  C31. \<open>test_request\<close> never consumes a request and answers 0 for every pending one, also for one
  that has failed: only the wait reports the failure.
\<close>

theorem verbs_test_keeps_request:
  assumes "test_request env (Some rq) (Some out) vt e = Some (e', vt', out', Inr s)" and "internal rq = Some a" and "pend vt a \<noteq> None"
  shows "s = 0 \<and> dom (pend vt') = dom (pend vt) \<and> out' = Some (if vr_completed (the (pend vt' a)) then 1 else 0)"
proof -
  obtain st where st: "map_of (pending_requests vt) a = Some st"
    using assms(3) by (auto simp: pend_def)
  show ?thesis
  proof (cases "vr_completed st")
    case True
    with assms(1,2) st show ?thesis by (auto simp: test_request_def Let_def pend_def)
  next
    case False
    with assms(1,2) st obtain k where p: "poll_available env 0 vt e = Some (e', vt', Inr k)"
      by (auto simp: test_request_def Let_def split: option.splits sum.splits)
    have "dom (pend vt') = dom (pend vt)"
      by (rule poll_available_invariant [OF pending_poll_invariant [of env "dom (pend vt)"] refl p])
    with assms(1,2) st False p show ?thesis by (auto simp: test_request_def Let_def pend_def)
  qed
qed

text \<open>A completion of the wrong kind: the request fails, the test answers 0, the wait -1.\<close>

definition failed_outside :: outside where
  "failed_outside = \<lparr>o_live = [Mr 8, Request_object 9], o_input = [],
     o_completions = [demo_completion\<lparr>wc_success := False\<rparr>]\<rparr>"

lemma failed_test:
  "test_request demo_env (Some \<lparr>id = 1, internal = Some 9\<rparr>) (Some 0) demo_transport failed_outside =
     Some (failed_outside\<lparr>o_completions := []\<rparr>,
       demo_transport\<lparr>pending_requests := [(9, demo_request\<lparr>vr_status := -1, vr_completed := True\<rparr>)]\<rparr>, Some 1, Inr 0)"
  by (simp add: test_request_def poll_available.simps handle_completion_def demo_defs failed_outside_def Let_def)

theorem verbs_test_keeps_request_witness:
  "dom (pend (demo_transport\<lparr>pending_requests := [(9, demo_request\<lparr>vr_status := -1, vr_completed := True\<rparr>)]\<rparr>)) =
     dom (pend demo_transport)"
  using verbs_test_keeps_request [OF failed_test] by (simp add: pend_def demo_transport_def)

section \<open>Sends only against a matching descriptor\<close>

text \<open>A send that passed its guards has read a descriptor, or failed for want of one.\<close>

lemma send_reads_descriptor:
  assumes "choose_mode mode n = Inr m"
    and "\<exists>m. choose_mode mode n = Inr m \<and>
      \<not> (qp_next vt = None \<or> next_socket vt < 0 \<or> buffer = NullPtr \<or> n = 0 \<or> rq = None \<or> internal (the rq) \<noteq> None) \<and> \<not> n > 2 ^ 32 - 1"
    and "post_send_next env buffer n tag mode rq vt e = Some (e', vt', rq', x)"
  shows "\<exists>e0 data ok. read_all env (next_socket vt) control_size [] e = Some (e0, data, ok) \<and>
    (ok \<and> descriptor_matches (control_from_bytes data) tag n m \<or>
     e' = e0 \<and> vt' = vt \<and> rq' = rq \<and> x \<in> {Inl Descriptor_not_received, Inl Descriptor_mismatch})"
proof (cases "read_all env (next_socket vt) control_size [] e")
  case None
  with assms have "post_send_next env buffer n tag mode rq vt e = None"
    by (auto simp: post_send_next_def)
  with assms(3) show ?thesis by simp
next
  case (Some r)
  obtain e0 data ok where r: "r = (e0, data, ok)" by (cases r)
  show ?thesis
  proof (cases "ok \<and> descriptor_matches (control_from_bytes data) tag n m")
    case False
    then have "\<exists>y. post_send_next env buffer n tag mode rq vt e = Some (e0, vt, rq, Inl y) \<and> y \<in> {Descriptor_not_received, Descriptor_mismatch}"
      using assms(1,2) Some r by (cases ok) (auto simp: post_send_next_def Let_def)
    with assms(3) Some r show ?thesis by auto
  qed (use Some r in auto)
qed


text \<open>A receive with tag 7 has been announced, the send has tag 8.\<close>

definition announced :: outside where
  "announced = \<lparr>o_live = [], o_input = control_to_bytes (receive_descriptor demo_env (Ptr 0 0) 12 7 PG_TRANSFER_EAGER 3),
     o_completions = []\<rparr>"

lemma length_control_to_bytes [simp]: "length (control_to_bytes c) = 32"
  by (simp add: control_to_bytes_def del: le_bytes_numeral)

lemma announced_read:
  "read_all demo_env fd control_size [] announced = Some (announced\<lparr>o_input := []\<rparr>, o_input announced, True)"
  by (simp add: read_all.simps control_size_def demo_env_def announced_def flip: length_greater_0_conv)

lemma mismatching_send:
  "post_send_next demo_env (Ptr 0 0) 12 8 PG_TRANSFER_EAGER (Some null_request) demo_transport announced =
     Some (announced\<lparr>o_input := []\<rparr>, demo_transport, Some null_request, Inl Descriptor_mismatch)"
  by (simp add: post_send_next_def announced_read demo_transport_def null_request_def choose_mode_def Let_def)
     (simp add: announced_def control_from_to descriptor_matches_def receive_descriptor_def)


section \<open>Resources\<close>

text \<open>
  The methods of the class as steps of an object and its outside. A call that throws
  \<open>std::bad_alloc\<close> is left out here, see below.
\<close>

inductive verbs_steps :: "'e verbs_env \<Rightarrow> VerbsTransport \<Rightarrow> 'e \<Rightarrow> VerbsTransport \<Rightarrow> 'e \<Rightarrow> bool" for env :: "'e verbs_env" where
  start: "verbs_steps env vt e vt e"
| qps: "verbs_steps env vt e vt1 e1 \<Longrightarrow> set_ring_qps next prev vt1 = (vt2, x) \<Longrightarrow> verbs_steps env vt e vt2 e1"
| sockets: "verbs_steps env vt e vt1 e1 \<Longrightarrow> set_control_sockets next_fd prev_fd vt1 = (vt2, x) \<Longrightarrow> verbs_steps env vt e vt2 e1"
| sends: "verbs_steps env vt e vt1 e1 \<Longrightarrow> post_send_next env buffer n tag mode rq vt1 e1 = Some (e2, vt2, rq', y) \<Longrightarrow>
    y \<noteq> Inl Bad_alloc \<Longrightarrow> verbs_steps env vt e vt2 e2"
| receives: "verbs_steps env vt e vt1 e1 \<Longrightarrow> post_receive_previous env buffer n tag mode rq vt1 e1 = Some (e2, vt2, rq', y) \<Longrightarrow>
    y \<noteq> Inl Bad_alloc \<Longrightarrow> verbs_steps env vt e vt2 e2"
| tests: "verbs_steps env vt e vt1 e1 \<Longrightarrow> test_request env rq out vt1 e1 = Some (e2, vt2, out', z) \<Longrightarrow> verbs_steps env vt e vt2 e2"
| waits: "verbs_steps env vt e vt1 e1 \<Longrightarrow> wait_request env rq vt1 e1 = Some (e2, vt2, rq', z) \<Longrightarrow> verbs_steps env vt e vt2 e2"
| progresses: "verbs_steps env vt e vt1 e1 \<Longrightarrow> progress_transport env vt1 e1 = Some (e2, vt2, z) \<Longrightarrow> verbs_steps env vt e vt2 e2"

lemma region_of_fields: "pending_requests vt' = pending_requests vt \<Longrightarrow> region_of vt' = region_of vt"
  by (simp add: region_of_def pend_def fun_eq_iff)

lemma resources_inv_fields:
  "pending_requests vt' = pending_requests vt \<Longrightarrow> handles vt' = handles vt \<Longrightarrow> resources_inv live B H vt e \<Longrightarrow> resources_inv live B H vt' e"
  using region_of_fields [of vt' vt] by (simp add: resources_inv_def request_resources_def pend_def)

lemma verbs_steps_inv:
  assumes laws: "verbs_laws env live" and "verbs_steps env vt e vt' e'" and "resources_inv live B H vt e"
  shows "resources_inv live B H vt' e'"
  using assms(2,3)
proof (induction rule: verbs_steps.induct)
  case (qps vt e vt1 e1 nxt prv vt2 x)
  then have "pending_requests vt2 = pending_requests vt1" "handles vt2 = handles vt1"
    by (auto simp: set_ring_qps_def handles_def split: if_splits)
  with qps show ?case by (intro resources_inv_fields [of vt2 vt1]) simp_all
next
  case (sockets vt e vt1 e1 nxt prv vt2 x)
  then have "pending_requests vt2 = pending_requests vt1" "handles vt2 = handles vt1"
    by (auto simp: set_control_sockets_def handles_def split: if_splits)
  with sockets show ?case by (intro resources_inv_fields [of vt2 vt1]) simp_all
next
  case sends
  then show ?case using resources_inv_post_send [OF laws] by blast
next
  case receives
  then show ?case using resources_inv_post_receive [OF laws] by blast
next
  case tests
  then show ?case using resources_inv_test [OF laws] by blast
next
  case waits
  then show ?case using resources_inv_wait [OF laws] by blast
next
  case progresses
  then show ?case using resources_inv_progress [OF laws] by blast
qed

lemma constructed_inv:
  assumes laws: "verbs_laws env live" and c: "construct_verbs_transport env r n context_arg pd e = (e1, Inr vt)"
  shows "resources_inv live (insert (Cq (vt_cq vt)) (live e)) (handles vt) vt e1" and "Cq (vt_cq vt) \<notin> live e"
    and "pending_requests vt = []"
proof -
  obtain q where q: "ibv_create_cq env (the context_arg) 2048 e = (e1, Some q)" "vt_cq vt = q" "pending_requests vt = []"
    using c by (auto simp: construct_verbs_transport_def split: if_splits prod.splits option.splits)
  have "creates live Cq e (ibv_create_cq env (the context_arg) 2048 e)"
    using laws by (simp add: verbs_laws_def)
  moreover have "region_of vt = (\<lambda>a. None)"
    using q by (simp add: region_of_def pend_def fun_eq_iff)
  ultimately show "resources_inv live (insert (Cq (vt_cq vt)) (live e)) (handles vt) vt e1" "Cq (vt_cq vt) \<notin> live e" "pending_requests vt = []"
    using q by (simp_all add: creates_def resources_inv_def request_resources_def pend_def)
qed

text \<open>What the destructor takes away.\<close>

definition released :: "(nat \<times> VerbsRequestState) list \<Rightarrow> resource set" where
  "released ps = (\<Union>p\<in>set ps. insert (Request_object (fst p)) (Mr ` set_option (vr_memory_region (snd p))))"

lemma release_requests_live:
  assumes laws: "verbs_laws env live"
  shows "live (fold (release_request env) ps e) = live e - released ps"
proof (induction ps arbitrary: e)
  case (Cons p ps)
  have "live (release_request env p e) = live e - insert (Request_object (fst p)) (Mr ` set_option (vr_memory_region (snd p)))"
    by (auto simp: release_request_def verbs_laws_release [OF laws] split: option.split)
  with Cons.IH [of "release_request env p e"] show ?case
    unfolding released_def fold_Cons comp_def by simp blast
qed (simp add: released_def)

lemma region_of_Some: "region_of vt a = Some mr \<longleftrightarrow> (\<exists>st. pend vt a = Some st \<and> vr_memory_region st = Some mr)"
  by (simp add: region_of_def split: option.split)

lemma released_pending:
  assumes "distinct (map fst (pending_requests vt))"
  shows "released (pending_requests vt) = request_resources vt"
proof -
  have mem: "(a, st) \<in> set (pending_requests vt) \<longleftrightarrow> pend vt a = Some st" for a st
    using assms by (simp add: pend_def)
  have "r \<in> released (pending_requests vt) \<longleftrightarrow> r \<in> request_resources vt" for r
  proof -
    have "r \<in> released (pending_requests vt) \<longleftrightarrow> (\<exists>p\<in>set (pending_requests vt).
        r = Request_object (fst p) \<or> (\<exists>mr. r = Mr mr \<and> vr_memory_region (snd p) = Some mr))"
      by (auto simp: released_def image_iff)
    also have "\<dots> \<longleftrightarrow> (\<exists>a st. pend vt a = Some st \<and> (r = Request_object a \<or> (\<exists>mr. r = Mr mr \<and> vr_memory_region st = Some mr)))"
      unfolding Bex_def split_paired_Ex mem by simp
    also have "\<dots> \<longleftrightarrow> r \<in> request_resources vt"
      unfolding request_resources_def ran_def region_of_Some by (simp add: image_iff dom_def) blast
    finally show ?thesis .
  qed
  then show ?thesis by blast
qed

definition owned_handles :: "VerbsTransport \<Rightarrow> resource set" where
  "owned_handles vt =
     {Cq (vt_cq vt), Pd (vt_pd vt), Device (vt_context vt)} \<union>
     {Qp q | q. qp_next vt = Some q \<or> qp_prev vt = Some q} \<union>
     {Socket fd | fd. 0 \<le> fd \<and> (fd = next_socket vt \<or> fd = previous_socket vt)}"

lemma destroy_live:
  assumes laws: "verbs_laws env live" and "distinct (map fst (pending_requests vt))"
  shows "live (destroy_verbs_transport env vt e) = live e - request_resources vt - owned_handles vt"
proof -
  have "live (close_if_open env fd e) = live e - {Socket fd' | fd'. fd' = fd \<and> 0 \<le> fd}" for fd e
    by (auto simp: close_if_open_def verbs_laws_release [OF laws])
  moreover have "live (destroy_qp_if env q e) = live e - {Qp k | k. q = Some k}" for q e
    by (auto simp: destroy_qp_if_def verbs_laws_release [OF laws] split: option.split)
  ultimately show ?thesis
    unfolding destroy_verbs_transport_def Let_def verbs_laws_release [OF laws] release_requests_live [OF laws]
      released_pending [OF assms(2)] owned_handles_def
    by auto
qed


text \<open>A transport made on the concrete outside, then a receive posted and the queue polled.\<close>

definition made_outside :: outside where
  "made_outside = \<lparr>o_live = [Pd 2, Device 1], o_input = [], o_completions = []\<rparr>"

lemma made:
  "construct_verbs_transport demo_env 0 2 (Some 1) (Some 2) made_outside =
    (made_outside\<lparr>o_live := [Cq 4, Pd 2, Device 1]\<rparr>,
     Inr (demo_transport\<lparr>vt_cq := 4, qp_next := None, qp_prev := None, next_socket := -1, previous_socket := -1,
       vt_next_request_id := 1, pending_requests := []\<rparr>))"
  by (simp add: construct_verbs_transport_def demo_defs made_outside_def fresh_handle_def)


text \<open>
  C36. The exception that is not covered above leaks: when \<open>new RequestState()\<close> throws, the
  memory region registered just before stays live although no request refers to it.
\<close>

theorem bad_alloc_leaks_region:
  assumes "verbs_laws env live" and "post_send_next env buffer n tag mode rq vt e = Some (e', vt', rq', Inl Bad_alloc)"
  shows "vt' = vt \<and> (\<exists>mr. Mr mr \<notin> live e \<and> live e' = insert (Mr mr) (live e))"
proof (cases "\<exists>m. choose_mode mode n = Inr m \<and>
    \<not> (qp_next vt = None \<or> next_socket vt < 0 \<or> buffer = NullPtr \<or> n = 0 \<or> rq = None \<or> internal (the rq) \<noteq> None) \<and> \<not> n > 2 ^ 32 - 1")
  case False
  then show ?thesis
    using assms(2) by (cases "choose_mode mode n") (auto simp: post_send_next_def choose_mode_def split: if_splits)
next
  case True
  then obtain m where m: "choose_mode mode n = Inr m" by blast
  obtain e0 data where read: "read_all env (next_socket vt) control_size [] e = Some (e0, data, True)"
      and match: "descriptor_matches (control_from_bytes data) tag n m"
    using send_reads_descriptor [OF m True assms(2)] by auto
  obtain e1 r1 where reg: "register_memory env vt buffer n False False e0 = (e1, r1)" by fastforce
  show ?thesis
  proof (cases r1)
    case (Inl y)
    with assms(2) True m read match reg have "y = Bad_alloc"
      by (auto simp: post_send_next_def Let_def)
    with register_memory_live [OF assms(1) reg] Inl show ?thesis by simp
  next
    case (Inr mr)
    obtain e2 vt2 r2 where add: "add_request env Send tag m mr vt e1 = (e2, vt2, r2)" by (cases "add_request env Send tag m mr vt e1")
    from assms(1) add show ?thesis
    proof (cases rule: add_request_cases)
      case failed
      with assms(2) True m read match reg Inr add have "e' = e2" "vt' = vt"
        by (auto simp: post_send_next_def Let_def)
      with register_memory_live [OF assms(1) reg] Inr failed read_all_live [OF assms(1) read] show ?thesis by auto
    next
      case (added a)
      with assms(2) True m read match reg Inr add have False
        by (auto simp: post_send_next_def Let_def split: prod.splits if_splits)
      then show ?thesis ..
    qed
  qed
qed

definition no_memory_env :: "outside verbs_env" where
  "no_memory_env = demo_env\<lparr>new_state := (\<lambda>e. (e, None))\<rparr>"

lemma no_memory_laws: "verbs_laws no_memory_env demo_live"
  using demo_laws by (simp add: verbs_laws_def no_memory_env_def creates_def)

lemma leaking_send:
  "post_send_next no_memory_env (Ptr 0 0) 12 7 PG_TRANSFER_EAGER (Some null_request) demo_transport announced =
     Some (announced\<lparr>o_input := [], o_live := [Mr 1]\<rparr>, demo_transport, Some null_request, Inl Bad_alloc)"
proof -
  have "read_all no_memory_env fd control_size [] announced = Some (announced\<lparr>o_input := []\<rparr>, o_input announced, True)" for fd
    by (simp add: read_all.simps control_size_def demo_env_def no_memory_env_def announced_def flip: length_greater_0_conv)
  then show ?thesis
    by (simp add: post_send_next_def demo_transport_def null_request_def choose_mode_def Let_def)
       (simp add: announced_def control_from_to descriptor_matches_def receive_descriptor_def register_memory_def
          add_request_def no_memory_env_def demo_env_def grow_def fresh_handle_def)
qed

theorem bad_alloc_leaks_region_witness:
  "demo_live (announced\<lparr>o_input := [], o_live := [Mr 1]\<rparr>) \<noteq> demo_live announced"
  using bad_alloc_leaks_region [OF no_memory_laws leaking_send] by auto

section \<open>The socket loops\<close>



text \<open>
  C35. \<open>write_all\<close> on a socket that appends what it takes to the stream \<open>out\<close>: it returns unless
  it is interrupted for ever, on success the whole source has been appended in order, on
  failure a proper prefix of it.
\<close>

theorem write_all_appends:
  assumes "\<And>bs e. bs \<noteq> [] \<Longrightarrow> sys_write env fd bs e \<noteq> None"
    and "\<And>bs e e' k. sys_write env fd bs e = Some (e', Inr k) \<Longrightarrow> k \<le> length bs \<and> out e' = out e @ take k bs"
    and "\<And>bs e e' b. sys_write env fd bs e = Some (e', Inl b) \<Longrightarrow> out e' = out e \<and> (b \<longrightarrow> \<mu> e' < (\<mu> e :: nat))"
  shows "\<exists>e' ok sent rest. write_all env fd bs e = Some (e', ok) \<and> bs = sent @ rest \<and> out e' = out e @ sent \<and> (ok \<longleftrightarrow> rest = [])"
proof (induction "length bs" arbitrary: bs e rule: less_induct)
  case (less bs)
  note shorter = less
  show ?case
  proof (induction "\<mu> e" arbitrary: e rule: less_induct)
    case (less e)
    show ?case
    proof (cases "bs = []")
      case True
      then show ?thesis by (intro exI [of _ e] exI [of _ True] exI [of _ "[]"]) (simp add: write_all.simps)
    next
      case False
      then obtain e1 r where r: "sys_write env fd bs e = Some (e1, r)"
        using assms(1) [of bs e] by auto
      consider (interrupted) "r = Inl True" | (failed) "r = Inl False" | (closed) "r = Inr 0" | (moved) k where "r = Inr k" "0 < k"
        by (cases r) auto
      then show ?thesis
      proof cases
        case interrupted
        with assms(3) r have e1: "\<mu> e1 < \<mu> e" "out e1 = out e" by auto
        have "write_all env fd bs e = write_all env fd bs e1"
          using interrupted r False by (subst write_all.simps) simp
        with less [OF e1(1)] e1(2) show ?thesis by simp
      next
        case failed
        with assms(3) r have "out e1 = out e" by auto
        moreover have "write_all env fd bs e = Some (e1, False)"
          using failed r False by (subst write_all.simps) simp
        ultimately show ?thesis using False by (intro exI [of _ "[]"] exI) auto
      next
        case closed
        with assms(2) r have "out e1 = out e" by fastforce
        moreover have "write_all env fd bs e = Some (e1, False)"
          using closed r False by (subst write_all.simps) simp
        ultimately show ?thesis using False by (intro exI [of _ "[]"] exI) auto
      next
        case moved
        then have k: "k \<le> length bs" "out e1 = out e @ take k bs" and "length (drop k bs) < length bs"
          using assms(2) r False by auto
        from shorter [OF this(3), of e1] obtain e2 ok sent rest
          where w: "write_all env fd (drop k bs) e1 = Some (e2, ok)" "drop k bs = sent @ rest" "out e2 = out e1 @ sent" "ok \<longleftrightarrow> rest = []"
          by blast
        have "write_all env fd bs e = Some (e2, ok)"
          using moved r False w(1) by (subst write_all.simps) simp
        moreover have "bs = (take k bs @ sent) @ rest"
          using w(2) by (metis append_assoc append_take_drop_id)
        ultimately show ?thesis
          using w(3,4) k(2) by (intro exI [of _ e2] exI [of _ ok] exI [of _ "take k bs @ sent"] exI [of _ rest]) simp
      qed
    qed
  qed
qed

text \<open>A socket that takes two bytes at a time.\<close>

definition slow_env :: "outside verbs_env" where
  "slow_env = demo_env\<lparr>sys_write := (\<lambda>fd bs e. Some (e\<lparr>o_input := o_input e @ take 2 bs\<rparr>, Inr (min 2 (length bs))))\<rparr>"

theorem write_all_appends_witness:
  "\<exists>e' ok. write_all slow_env 6 [1, 2, 3] \<lparr>o_live = [], o_input = [9], o_completions = []\<rparr> = Some (e', ok) \<and> (ok \<longrightarrow> o_input e' = [9, 1, 2, 3])"
proof -
  obtain e' ok sent rest where "write_all slow_env 6 [1, 2, 3] \<lparr>o_live = [], o_input = [9], o_completions = []\<rparr> = Some (e', ok)"
      "[1, 2, 3] = sent @ rest" "o_input e' = [9] @ sent" "ok \<longleftrightarrow> rest = []"
    using write_all_appends [where env = slow_env and fd = 6 and bs = "[1, 2, 3]" and out = o_input and \<mu> = "\<lambda>e. 0"
        and e = "\<lparr>o_live = [], o_input = [9], o_completions = []\<rparr>"]
    by (fastforce simp: slow_env_def min_def)
  then show ?thesis by auto
qed

end
