(* ===== verification/Process_Library.thy ===== *)
theory Process_Library
  imports Verbs_Transport Ring_Collectives
begin

text \<open>
  What \<open>src/process_group_api.cpp\<close> uses besides the verbs transport: the environment of the
  process, devices, ports, queue pairs and sockets. As in \<open>Verbs_Library\<close> they are functions on
  the state of the outside, the fields of \<open>'e pg_env\<close>; the number parsing of the C library is
  defined here.
\<close>

section \<open>Queue pairs, ports and addresses\<close>

datatype ibv_qp_state = IBV_QPS_RESET | IBV_QPS_INIT | IBV_QPS_RTR | IBV_QPS_RTS

datatype ibv_qp_attr_mask =
  IBV_QP_STATE | IBV_QP_PKEY_INDEX | IBV_QP_PORT | IBV_QP_ACCESS_FLAGS
| IBV_QP_AV | IBV_QP_PATH_MTU | IBV_QP_DEST_QPN | IBV_QP_RQ_PSN | IBV_QP_MAX_DEST_RD_ATOMIC | IBV_QP_MIN_RNR_TIMER
| IBV_QP_TIMEOUT | IBV_QP_RETRY_CNT | IBV_QP_RNR_RETRY | IBV_QP_SQ_PSN | IBV_QP_MAX_QP_RD_ATOMIC

datatype ibv_access_flag = IBV_ACCESS_REMOTE_WRITE | IBV_ACCESS_REMOTE_READ

text \<open>\<open>path_mtu\<close> is in bytes, 0 for no enumerator; \<open>ah_\<close> are the fields of \<open>ah_attr\<close>.\<close>

record ibv_qp_attr =
  qp_state :: ibv_qp_state
  pkey_index :: nat
  port_num :: nat
  qp_access_flags :: "ibv_access_flag set"
  path_mtu :: nat
  dest_qp_num :: "32 word"
  rq_psn :: nat
  sq_psn :: nat
  max_rd_atomic :: nat
  max_dest_rd_atomic :: nat
  min_rnr_timer :: nat
  timeout :: nat
  retry_cnt :: nat
  rnr_retry :: nat
  ah_is_global :: bool
  ah_dlid :: "16 word"
  ah_sl :: nat
  ah_src_path_bits :: nat
  ah_port_num :: nat

record ibv_qp_init_attr =
  send_cq :: nat
  recv_cq :: nat
  reliable_connection :: bool
  max_send_wr :: nat
  max_recv_wr :: nat
  max_send_sge :: nat
  max_recv_sge :: nat

record ibv_port_attr =
  port_active :: bool
  port_lid :: "16 word"

text \<open>An entry of the list \<open>getaddrinfo\<close> makes; \<open>ai_addr\<close> stands for the address and its length.\<close>

record addrinfo =
  ai_family :: int
  ai_socktype :: int
  ai_protocol :: int
  ai_addr :: nat

text \<open>
  A device list is known by its address; \<open>accept\<close> may never return. \<open>getaddrinfo\<close> is called
  with the hints for TCP over IPv4, \<open>socket\<close> for listening with the same.
\<close>

record 'e pg_env =
  verbs :: "'e verbs_env"
  getenv :: "string \<Rightarrow> string option"
  ibv_get_device_list :: "'e \<Rightarrow> 'e \<times> (nat \<times> nat list) option"
  ibv_free_device_list :: "nat \<Rightarrow> 'e \<Rightarrow> 'e"
  ibv_open_device :: "nat \<Rightarrow> 'e \<Rightarrow> 'e \<times> nat option"
  ibv_alloc_pd :: "nat \<Rightarrow> 'e \<Rightarrow> 'e \<times> nat option"
  ibv_query_port :: "nat \<Rightarrow> nat \<Rightarrow> 'e \<Rightarrow> 'e \<times> ibv_port_attr option"
  ibv_create_qp :: "nat \<Rightarrow> ibv_qp_init_attr \<Rightarrow> 'e \<Rightarrow> 'e \<times> nat option"
  qp_num :: "nat \<Rightarrow> 32 word"
  ibv_modify_qp :: "nat \<Rightarrow> ibv_qp_attr \<Rightarrow> ibv_qp_attr_mask set \<Rightarrow> 'e \<Rightarrow> 'e \<times> int"
  tcp_socket :: "'e \<Rightarrow> 'e \<times> int"
  set_reuse_address :: "int \<Rightarrow> 'e \<Rightarrow> 'e"
  sys_bind_any :: "int \<Rightarrow> 16 word \<Rightarrow> 'e \<Rightarrow> 'e \<times> int"
  sys_listen :: "int \<Rightarrow> nat \<Rightarrow> 'e \<Rightarrow> 'e \<times> int"
  sys_accept :: "int \<Rightarrow> 'e \<Rightarrow> ('e \<times> int) option"
  getaddrinfo :: "string \<Rightarrow> string \<Rightarrow> 'e \<Rightarrow> 'e \<times> (nat \<times> addrinfo list) option"
  freeaddrinfo :: "nat \<Rightarrow> 'e \<Rightarrow> 'e"
  sys_socket :: "int \<Rightarrow> int \<Rightarrow> int \<Rightarrow> 'e \<Rightarrow> 'e \<times> int"
  sys_connect :: "int \<Rightarrow> nat \<Rightarrow> 'e \<Rightarrow> 'e \<times> int"
  usleep :: "nat \<Rightarrow> 'e \<Rightarrow> 'e"
  objects :: "'e heap"

section \<open>Numbers of the C library\<close>

definition is_space :: "char \<Rightarrow> bool" where
  "is_space c = (of_char c \<in> {9, 10, 11, 12, 13, 32 :: nat})"

definition is_digit :: "char \<Rightarrow> bool" where
  "is_digit c = (48 \<le> (of_char c :: nat) \<and> (of_char c :: nat) \<le> 57)"

definition digit_value :: "char \<Rightarrow> nat" where
  "digit_value c = of_char c - 48"

definition digits_value :: "string \<Rightarrow> nat" where
  "digits_value s = fold (\<lambda>c v. 10 * v + digit_value c) s 0"

text \<open>
  \<open>strtol(s, &end, 10)\<close>: the value, the rest of the string at \<open>end\<close> and whether \<open>errno\<close> is
  \<open>ERANGE\<close>. The rest is the whole string exactly when there is no digit to convert.
\<close>

definition strtol :: "string \<Rightarrow> int \<times> string \<times> bool" where
  "strtol s =
     (let s1 = dropWhile is_space s;
          negative = (s1 \<noteq> [] \<and> hd s1 = CHR ''-'');
          s2 = (if s1 \<noteq> [] \<and> hd s1 \<in> {CHR ''-'', CHR ''+''} then tl s1 else s1);
          ds = takeWhile is_digit s2;
          rest = dropWhile is_digit s2;
          v = (if negative then - int (digits_value ds) else int (digits_value ds))
      in if ds = [] then (0, s, False)
         else if v > 2 ^ 63 - 1 then (2 ^ 63 - 1, rest, True)
         else if v < - (2 ^ 63) then (- (2 ^ 63), rest, True)
         else (v, rest, False))"

text \<open>\<open>atoi\<close> of the GNU library: \<open>strtol\<close> cut to an \<open>int\<close>.\<close>

definition atoi :: "string \<Rightarrow> int" where
  "atoi s = sint (word_of_int (fst (strtol s)) :: 32 word)"

text \<open>\<open>std::to_string\<close> of a number that is not negative.\<close>

fun nat_string :: "nat \<Rightarrow> string" where
  "nat_string n = (if n < 10 then [char_of (48 + n)] else nat_string (n div 10) @ [char_of (48 + n mod 10)])"

declare nat_string.simps [simp del]

definition to_string :: "int \<Rightarrow> string" where
  "to_string n = (if n < 0 then CHR ''-'' # nat_string (nat (- n)) else nat_string (nat n))"

section \<open>Reading a printed number\<close>

lemma digit_char: "n < 10 \<Longrightarrow> is_digit (char_of (48 + n))" "n < 10 \<Longrightarrow> digit_value (char_of (48 + n)) = n"
  by (simp_all add: is_digit_def digit_value_def)

lemma nat_string_digits: "\<forall>c\<in>set (nat_string n). is_digit c"
  by (induction n rule: nat_string.induct) (subst nat_string.simps, auto simp: digit_char)

lemma nat_string_not_Nil [simp]: "nat_string n \<noteq> []"
  by (subst nat_string.simps) simp

lemma digits_value_nat_string: "digits_value (nat_string n) = n"
proof (induction n rule: nat_string.induct)
  case (1 n)
  show ?case
  proof (cases "n < 10")
    case False
    with 1 have "fold (\<lambda>c v. 10 * v + digit_value c) (nat_string (n div 10)) 0 = n div 10"
      by (simp add: digits_value_def)
    with False show ?thesis
      by (subst nat_string.simps) (simp add: digits_value_def digit_char)
  qed (subst nat_string.simps, simp add: digits_value_def digit_char)
qed

lemma digit_not_space: "is_digit c \<Longrightarrow> \<not> is_space c" "is_digit c \<Longrightarrow> c \<noteq> CHR ''-'' \<and> c \<noteq> CHR ''+''"
  by (auto simp: is_digit_def is_space_def)

lemma strtol_digits:
  assumes "ds \<noteq> []" and "\<forall>c\<in>set ds. is_digit c" and "int (digits_value ds) \<le> 2 ^ 63 - 1"
  shows "strtol ds = (int (digits_value ds), [], False)"
proof -
  have hd: "is_digit (hd ds)"
    using assms(1,2) by simp
  have "dropWhile is_space ds = ds"
    using assms(1) digit_not_space(1) [OF hd] by (cases ds) simp_all
  moreover have "takeWhile is_digit ds = ds" "dropWhile is_digit ds = []"
    using assms(2) by (simp_all add: takeWhile_eq_all_conv dropWhile_eq_Nil_conv)
  ultimately show ?thesis
    using assms(1,3) digit_not_space(2) [OF hd] by (simp add: strtol_def Let_def del: takeWhile_eq_all_conv dropWhile_eq_Nil_conv)
qed

end
