(* ===== verification/Process_Group.thy ===== *)
theory Process_Group
  imports Process_Library
begin

text \<open>
  \<open>src/process_group_api.cpp\<close>: the public entry points. \<open>connect_process_group\<close> is cut at the
  points where the ownership of resources changes; each stage returns early with everything
  released that the source releases there. Exceptions of string and vector allocations and log
  output are left out.
\<close>

section \<open>Handles\<close>

record 'w ProcessGroupHandle =
  handle_transport :: "nat \<times> 'w pg_transport"
  collectives :: "ring_collective_context option"
  owns_transport :: bool

text \<open>
  The result pointer is written on success only: None is a pointer left as it was. A handle
  is given with its address.
\<close>

definition pg_create_from_transport :: "'w heap \<Rightarrow> (nat \<times> 'w pg_transport) option \<Rightarrow> int \<Rightarrow>
    ring_collective_config option \<Rightarrow> bool \<Rightarrow> 'w \<Rightarrow> 'w \<times> int \<times> (nat \<times> 'w ProcessGroupHandle) option" where
  "pg_create_from_transport heap transport_arg take_transport_ownership config_arg pg_handle_null w =
     (if transport_arg = None \<or> pg_handle_null then (w, PG_ERR_INVALID_ARGUMENT, None)
      else
        case new_handle heap w of
          (w1, None) \<Rightarrow> (w1, PG_ERR_NO_MEMORY, None)
        | (w1, Some h) \<Rightarrow>
            (case ring_collective_create heap transport_arg config_arg False w1 of
               (w2, status, created) \<Rightarrow>
                 if status \<noteq> PG_SUCCESS then (delete_handle heap h w2, status, None)
                 else (w2, PG_SUCCESS,
                       Some (h, \<lparr>handle_transport = the transport_arg, collectives = created,
                                 owns_transport = (take_transport_ownership \<noteq> 0)\<rparr>))))"

text \<open>\<open>count\<close> is an \<open>int\<close>; the handle keeps the context as the collective leaves it.\<close>

definition pg_all_reduce :: "pointer \<Rightarrow> pointer \<Rightarrow> int \<Rightarrow> DATATYPE \<Rightarrow> OPERATION \<Rightarrow> 'w ProcessGroupHandle option \<Rightarrow>
    (int \<times> 'w ProcessGroupHandle option) prog" where
  "pg_all_reduce sendbuf recvbuf count datatype operation pg_handle =
     (if pg_handle = None \<or> sendbuf = NullPtr \<or> recvbuf = NullPtr \<or> count \<le> 0 then
        Ret (PG_ERR_INVALID_ARGUMENT, pg_handle)
      else
        bind (ring_all_reduce (collectives (the pg_handle)) sendbuf recvbuf (nat count) datatype operation)
          (\<lambda>(status, ctx). Ret (status, Some ((the pg_handle)\<lparr>collectives := ctx\<rparr>))))"

definition pg_close :: "'w heap \<Rightarrow> (nat \<times> 'w ProcessGroupHandle) option \<Rightarrow> 'w \<Rightarrow> 'w \<times> int" where
  "pg_close heap pg_handle w =
     (case pg_handle of
        None \<Rightarrow> (w, PG_ERR_INVALID_ARGUMENT)
      | Some (h, handle) \<Rightarrow>
          let w1 = ring_collective_destroy heap (collectives handle) w;
              w2 = (if owns_transport handle then pg_transport_destroy (Some (snd (handle_transport handle))) w1 else w1)
          in (delete_handle heap h w2, PG_SUCCESS))"

section \<open>Configuration from the environment\<close>

datatype pg_exception = Invalid_environment_value string string

definition parse_positive_environment_int :: "'e pg_env \<Rightarrow> string \<Rightarrow> int \<Rightarrow> pg_exception + int" where
  "parse_positive_environment_int env name default_value =
     (case getenv env name of
        None \<Rightarrow> Inr default_value
      | Some s \<Rightarrow>
          if s = [] then Inr default_value
          else
            (case strtol s of
               (parsed, rest, range_error) \<Rightarrow>
                 if range_error \<or> rest = s \<or> rest \<noteq> [] \<or> parsed \<le> 0 \<or> parsed > 2 ^ 31 - 1
                 then Inl (Invalid_environment_value name s)
                 else Inr parsed))"

definition parse_transfer_mode_environment :: "'e pg_env \<Rightarrow> pg_exception + pg_transfer_mode" where
  "parse_transfer_mode_environment env =
     (case getenv env ''PG_TRANSFER_MODE'' of
        None \<Rightarrow> Inr PG_TRANSFER_AUTO
      | Some s \<Rightarrow>
          if s = [] \<or> s = ''auto'' then Inr PG_TRANSFER_AUTO
          else if s = ''eager'' then Inr PG_TRANSFER_EAGER
          else if s = ''rendezvous'' then Inr PG_TRANSFER_RENDEZVOUS
          else Inl (Invalid_environment_value ''PG_TRANSFER_MODE'' s))"

text \<open>\<open>while (std::getline(stream, host, ','))\<close>, keeping the hosts that are not empty.\<close>

function host_names :: "string \<Rightarrow> string list" where
  "host_names stream =
     (if stream = [] then []
      else
        let host = takeWhile (\<lambda>c. c \<noteq> CHR '','') stream;
            rest = drop (Suc (length host)) stream
        in if host \<noteq> [] then host # host_names rest else host_names rest)"
  by pat_completeness auto
termination by (relation "measure length") auto

declare host_names.simps [simp del]

definition get_host_list :: "'e pg_env \<Rightarrow> string option \<Rightarrow> int \<Rightarrow> string list" where
  "get_host_list env servername n =
     (let hosts = (case getenv env ''HOST_LIST'' of None \<Rightarrow> [] | Some s \<Rightarrow> host_names s)
      in if hosts = [] then
           replicate (nat n) (if servername \<noteq> None \<and> the servername \<noteq> [] then the servername else ''localhost'')
         else hosts)"

text \<open>The three settings in the order they are read; the first bad one is the exception.\<close>

definition environment_config :: "'e pg_env \<Rightarrow> pg_exception + ring_collective_config" where
  "environment_config env =
     (case parse_positive_environment_int env ''PG_PIPELINE_PIECE_BYTES'' (64 * 1024) of
        Inl x \<Rightarrow> Inl x
      | Inr piece_bytes \<Rightarrow>
          (case parse_positive_environment_int env ''PG_MAX_INFLIGHT'' 4 of
             Inl x \<Rightarrow> Inl x
           | Inr inflight \<Rightarrow>
               (case parse_transfer_mode_environment env of
                  Inl x \<Rightarrow> Inl x
                | Inr mode \<Rightarrow>
                    Inr \<lparr>pipeline_piece_bytes = nat piece_bytes, max_inflight = nat inflight, transfer_mode = mode\<rparr>)))"

section \<open>Queue pairs\<close>

definition zero_attributes :: ibv_qp_attr where
  "zero_attributes =
     \<lparr>qp_state = IBV_QPS_RESET, pkey_index = 0, port_num = 0, qp_access_flags = {}, path_mtu = 0, dest_qp_num = 0,
      rq_psn = 0, sq_psn = 0, max_rd_atomic = 0, max_dest_rd_atomic = 0, min_rnr_timer = 0, timeout = 0, retry_cnt = 0,
      rnr_retry = 0, ah_is_global = False, ah_dlid = 0, ah_sl = 0, ah_src_path_bits = 0, ah_port_num = 0\<rparr>"

definition init_attributes :: ibv_qp_attr where
  "init_attributes = zero_attributes\<lparr>qp_state := IBV_QPS_INIT, pkey_index := 0, port_num := 1,
     qp_access_flags := {IBV_ACCESS_REMOTE_WRITE, IBV_ACCESS_REMOTE_READ}\<rparr>"

definition rtr_attributes :: "32 word \<Rightarrow> 16 word \<Rightarrow> ibv_qp_attr" where
  "rtr_attributes remote_qpn remote_lid = zero_attributes\<lparr>qp_state := IBV_QPS_RTR, path_mtu := 1024,
     dest_qp_num := remote_qpn, rq_psn := 0, max_dest_rd_atomic := 1, min_rnr_timer := 12, ah_is_global := False,
     ah_dlid := remote_lid, ah_sl := 0, ah_src_path_bits := 0, ah_port_num := 1\<rparr>"

definition rts_attributes :: ibv_qp_attr where
  "rts_attributes = zero_attributes\<lparr>qp_state := IBV_QPS_RTS, sq_psn := 0, timeout := 14, retry_cnt := 7,
     rnr_retry := 7, max_rd_atomic := 1\<rparr>"

definition transition_qp_to_rts :: "'e pg_env \<Rightarrow> nat \<Rightarrow> 32 word \<Rightarrow> 16 word \<Rightarrow> 'e \<Rightarrow> 'e \<times> int" where
  "transition_qp_to_rts env qp remote_qpn remote_lid e =
     (case ibv_modify_qp env qp init_attributes {IBV_QP_STATE, IBV_QP_PKEY_INDEX, IBV_QP_PORT, IBV_QP_ACCESS_FLAGS} e of
        (e1, s1) \<Rightarrow>
          if s1 \<noteq> 0 then (e1, -1)
          else
            (case ibv_modify_qp env qp (rtr_attributes remote_qpn remote_lid)
                    {IBV_QP_STATE, IBV_QP_AV, IBV_QP_PATH_MTU, IBV_QP_DEST_QPN, IBV_QP_RQ_PSN,
                     IBV_QP_MAX_DEST_RD_ATOMIC, IBV_QP_MIN_RNR_TIMER} e1 of
               (e2, s2) \<Rightarrow>
                 if s2 \<noteq> 0 then (e2, -1)
                 else
                   (case ibv_modify_qp env qp rts_attributes
                           {IBV_QP_STATE, IBV_QP_TIMEOUT, IBV_QP_RETRY_CNT, IBV_QP_RNR_RETRY, IBV_QP_SQ_PSN,
                            IBV_QP_MAX_QP_RD_ATOMIC} e2 of
                      (e3, s3) \<Rightarrow> (e3, if s3 = 0 then 0 else -1))))"

definition create_qp :: "'e pg_env \<Rightarrow> nat \<Rightarrow> nat \<Rightarrow> 'e \<Rightarrow> 'e \<times> nat option" where
  "create_qp env protection_domain completion_queue e =
     ibv_create_qp env protection_domain
       \<lparr>send_cq = completion_queue, recv_cq = completion_queue, reliable_connection = True,
        max_send_wr = 256, max_recv_wr = 256, max_send_sge = 1, max_recv_sge = 1\<rparr> e"

section \<open>The ring of sockets\<close>

text \<open>A listening socket is closed again in every case; None: nobody connects.\<close>

definition listen_and_accept :: "'e pg_env \<Rightarrow> int \<Rightarrow> 'e \<Rightarrow> ('e \<times> int) option" where
  "listen_and_accept env port e =
     (case tcp_socket env e of
        (e1, listen_socket) \<Rightarrow>
          if listen_socket < 0 then Some (e1, -1)
          else
            (case sys_bind_any env listen_socket (word_of_int port) (set_reuse_address env listen_socket e1) of
               (e2, bound) \<Rightarrow>
                 (case (if bound \<noteq> 0 then (e2, -1) else sys_listen env listen_socket 1 e2) of
                    (e3, listening) \<Rightarrow>
                      if bound \<noteq> 0 \<or> listening \<noteq> 0 then Some (sys_close (verbs env) listen_socket e3, -1)
                      else
                        (case sys_accept env listen_socket e3 of
                           None \<Rightarrow> None
                         | Some (e4, connection) \<Rightarrow> Some (sys_close (verbs env) listen_socket e4, connection)))))"

fun connect_entries :: "'e pg_env \<Rightarrow> addrinfo list \<Rightarrow> 'e \<Rightarrow> 'e \<times> int" where
  "connect_entries env [] e = (e, -1)"
| "connect_entries env (entry # entries) e =
     (case sys_socket env (ai_family entry) (ai_socktype entry) (ai_protocol entry) e of
        (e1, candidate) \<Rightarrow>
          if candidate < 0 then connect_entries env entries e1
          else
            (case sys_connect env candidate (ai_addr entry) e1 of
               (e2, r) \<Rightarrow>
                 if r = 0 then (e2, candidate)
                 else connect_entries env entries (sys_close (verbs env) candidate e2)))"

fun connect_attempts :: "'e pg_env \<Rightarrow> addrinfo list \<Rightarrow> nat \<Rightarrow> 'e \<Rightarrow> 'e \<times> int" where
  "connect_attempts env entries 0 e = (e, -1)"
| "connect_attempts env entries (Suc attempts) e =
     (case connect_entries env entries e of
        (e1, connection) \<Rightarrow>
          if connection < 0 then connect_attempts env entries attempts (usleep env 100000 e1)
          else (e1, connection))"

definition connect_to_host :: "'e pg_env \<Rightarrow> string \<Rightarrow> int \<Rightarrow> 'e \<Rightarrow> 'e \<times> int" where
  "connect_to_host env host port e =
     (case getaddrinfo env host (to_string port) e of
        (e1, None) \<Rightarrow> (e1, -1)
      | (e1, Some (result, entries)) \<Rightarrow>
          (case connect_attempts env entries 100 e1 of
             (e2, connection) \<Rightarrow> (freeaddrinfo env result e2, connection)))"

definition base_port :: int where "base_port = 18000"

definition next_rank_of :: "int \<Rightarrow> int \<Rightarrow> int" where
  "next_rank_of r n = (r + 1) smod n"

definition previous_rank_of :: "int \<Rightarrow> int \<Rightarrow> int" where
  "previous_rank_of r n = (r - 1 + n) smod n"

text \<open>Even ranks connect first, odd ranks listen first: next socket, previous socket.\<close>

definition ring_sockets :: "'e pg_env \<Rightarrow> int \<Rightarrow> int \<Rightarrow> string list \<Rightarrow> 'e \<Rightarrow> ('e \<times> int \<times> int) option" where
  "ring_sockets env r n hosts e =
     (let next_host = hosts ! nat (next_rank_of r n);
          connect_port = base_port + r;
          listen_port = base_port + previous_rank_of r n
      in if r smod 2 = 0 then
           (case connect_to_host env next_host connect_port e of
              (e1, next_fd) \<Rightarrow>
                map_option (\<lambda>(e2, previous_fd). (e2, next_fd, previous_fd)) (listen_and_accept env listen_port e1))
         else
           (case listen_and_accept env listen_port e of
              None \<Rightarrow> None
            | Some (e1, previous_fd) \<Rightarrow>
                (case connect_to_host env next_host connect_port e1 of
                   (e2, next_fd) \<Rightarrow> Some (e2, next_fd, previous_fd))))"

section \<open>Exchange with the neighbours\<close>

record ExchangeData =
  qpn :: "32 word"
  lid :: "16 word"
  exchange_reserved :: "16 word"

definition exchange_to_bytes :: "ExchangeData \<Rightarrow> bytes" where
  "exchange_to_bytes d =
     le_bytes 4 (unat (qpn d)) @ le_bytes 2 (unat (lid d)) @ le_bytes 2 (unat (exchange_reserved d))"

definition exchange_from_bytes :: "bytes \<Rightarrow> ExchangeData" where
  "exchange_from_bytes bs = \<lparr>qpn = word_at 0 4 bs, lid = word_at 4 2 bs, exchange_reserved = word_at 6 2 bs\<rparr>"

text \<open>
  The file has its own \<open>write_all\<close> and \<open>read_all\<close>, word for word those of the verbs
  transport.
\<close>

definition pg_write_all :: "'e pg_env \<Rightarrow> int \<Rightarrow> bytes \<Rightarrow> 'e \<Rightarrow> ('e \<times> bool) option" where
  [simp]: "pg_write_all env = write_all (verbs env)"

definition pg_read_all :: "'e pg_env \<Rightarrow> int \<Rightarrow> nat \<Rightarrow> bytes \<Rightarrow> 'e \<Rightarrow> ('e \<times> bytes \<times> bool) option" where
  [simp]: "pg_read_all env = read_all (verbs env)"

text \<open>
  Write to both neighbours, then read \<open>n\<close> bytes from both; the first call that fails ends the
  exchange with None for the data.
\<close>

definition exchange_both :: "'e pg_env \<Rightarrow> int \<Rightarrow> int \<Rightarrow> bytes \<Rightarrow> bytes \<Rightarrow> nat \<Rightarrow> 'e \<Rightarrow> ('e \<times> (bytes \<times> bytes) option) option" where
  "exchange_both env next_fd previous_fd to_next to_previous n e =
     (case pg_write_all env next_fd to_next e of
        None \<Rightarrow> None
      | Some (e1, ok1) \<Rightarrow>
          if \<not> ok1 then Some (e1, None)
          else
            (case pg_write_all env previous_fd to_previous e1 of
               None \<Rightarrow> None
             | Some (e2, ok2) \<Rightarrow>
                 if \<not> ok2 then Some (e2, None)
                 else
                   (case pg_read_all env next_fd n [] e2 of
                      None \<Rightarrow> None
                    | Some (e3, from_next, ok3) \<Rightarrow>
                        if \<not> ok3 then Some (e3, None)
                        else
                          (case pg_read_all env previous_fd n [] e3 of
                             None \<Rightarrow> None
                           | Some (e4, from_previous, ok4) \<Rightarrow>
                               Some (e4, if ok4 then Some (from_next, from_previous) else None)))))"

section \<open>connect_process_group\<close>

text \<open>
  The result: the outside and the transport object (None: there is none), the status, and the
  handle written to the result pointer. The whole is None when a call blocks forever.
\<close>

type_synonym 'e connected = "('e verbs_world \<times> int \<times> (nat \<times> 'e verbs_world ProcessGroupHandle) option) option"

definition connect_failed :: "int \<Rightarrow> 'e \<Rightarrow> 'e connected" where
  "connect_failed status e = Some ((e, None), status, None)"

text \<open>The allocator of the process on the world with the transport object.\<close>

definition lift_objects :: "'e heap \<Rightarrow> 'e verbs_world heap" where
  "lift_objects heap =
     \<lparr>new_context = (\<lambda>(e, vt). case new_context heap e of (e', r) \<Rightarrow> ((e', vt), r)),
      delete_context = (\<lambda>a (e, vt). (delete_context heap a e, vt)),
      new_handle = (\<lambda>(e, vt). case new_handle heap e of (e', r) \<Rightarrow> ((e', vt), r)),
      delete_handle = (\<lambda>a (e, vt). (delete_handle heap a e, vt))\<rparr>"

text \<open>The control sockets are the transport's from here on; then configuration and handle.\<close>

definition connect_handle :: "'e pg_env \<Rightarrow> int \<Rightarrow> int \<Rightarrow> nat \<Rightarrow> VerbsTransport \<Rightarrow> 'e \<Rightarrow> 'e connected" where
  "connect_handle env next_fd previous_fd a vt e =
     (let vt1 = fst (set_control_sockets next_fd previous_fd vt) in
      case environment_config env of
        Inl x \<Rightarrow> connect_failed PG_ERR_INVALID_ARGUMENT (delete_verbs_transport (verbs env) a vt1 e)
      | Inr cfg \<Rightarrow>
          (case pg_create_from_transport (lift_objects (objects env)) (Some (get_c_transport (verbs env) a)) 1 (Some cfg)
                  False (e, Some vt1) of
             (w, status, handle) \<Rightarrow>
               if status \<noteq> PG_SUCCESS then connect_failed status (delete_verbs_transport (verbs env) a vt1 (fst w))
               else Some (w, PG_SUCCESS, handle)))"

text \<open>Both sockets closed, the transport deleted.\<close>

definition abandon :: "'e pg_env \<Rightarrow> int \<Rightarrow> int \<Rightarrow> nat \<Rightarrow> VerbsTransport \<Rightarrow> 'e \<Rightarrow> 'e connected" where
  "abandon env next_fd previous_fd a vt e =
     connect_failed PG_ERR_TRANSPORT
       (delete_verbs_transport (verbs env) a vt (sys_close (verbs env) previous_fd (sys_close (verbs env) next_fd e)))"

definition connect_barrier :: "'e pg_env \<Rightarrow> int \<Rightarrow> int \<Rightarrow> nat \<Rightarrow> VerbsTransport \<Rightarrow> 'e \<Rightarrow> 'e connected" where
  "connect_barrier env next_fd previous_fd a vt e =
     (case exchange_both env next_fd previous_fd [1] [1] 1 e of
        None \<Rightarrow> None
      | Some (e1, answers) \<Rightarrow>
          if answers \<noteq> Some ([1], [1]) then abandon env next_fd previous_fd a vt e1
          else connect_handle env next_fd previous_fd a vt e1)"

definition connect_transition :: "'e pg_env \<Rightarrow> nat \<Rightarrow> nat \<Rightarrow> ExchangeData \<Rightarrow> ExchangeData \<Rightarrow> int \<Rightarrow> int \<Rightarrow> nat \<Rightarrow>
    VerbsTransport \<Rightarrow> 'e \<Rightarrow> 'e connected" where
  "connect_transition env qp_n qp_p remote_next remote_previous next_fd previous_fd a vt e =
     (case transition_qp_to_rts env qp_n (qpn remote_next) (lid remote_next) e of
        (e1, s1) \<Rightarrow>
          if s1 \<noteq> 0 then abandon env next_fd previous_fd a vt e1
          else
            (case transition_qp_to_rts env qp_p (qpn remote_previous) (lid remote_previous) e1 of
               (e2, s2) \<Rightarrow>
                 if s2 \<noteq> 0 then abandon env next_fd previous_fd a vt e2
                 else connect_barrier env next_fd previous_fd a vt e2))"

definition connect_exchange :: "'e pg_env \<Rightarrow> ibv_port_attr \<Rightarrow> nat \<Rightarrow> nat \<Rightarrow> int \<Rightarrow> int \<Rightarrow> nat \<Rightarrow> VerbsTransport \<Rightarrow> 'e \<Rightarrow>
    'e connected" where
  "connect_exchange env port qp_n qp_p next_fd previous_fd a vt e =
     (let local_next = \<lparr>qpn = qp_num env qp_n, lid = port_lid port, exchange_reserved = 0\<rparr>;
          local_previous = \<lparr>qpn = qp_num env qp_p, lid = port_lid port, exchange_reserved = 0\<rparr>
      in case exchange_both env next_fd previous_fd (exchange_to_bytes local_next) (exchange_to_bytes local_previous) 8 e of
           None \<Rightarrow> None
         | Some (e1, None) \<Rightarrow> abandon env next_fd previous_fd a vt e1
         | Some (e1, Some (from_next, from_previous)) \<Rightarrow>
             connect_transition env qp_n qp_p (exchange_from_bytes from_next) (exchange_from_bytes from_previous)
               next_fd previous_fd a vt e1)"

definition connect_ring :: "'e pg_env \<Rightarrow> int \<Rightarrow> int \<Rightarrow> string list \<Rightarrow> ibv_port_attr \<Rightarrow> nat \<Rightarrow> nat \<Rightarrow> nat \<Rightarrow> VerbsTransport \<Rightarrow>
    'e \<Rightarrow> 'e connected" where
  "connect_ring env r n hosts port qp_n qp_p a vt e =
     (case ring_sockets env r n hosts e of
        None \<Rightarrow> None
      | Some (e1, next_fd, previous_fd) \<Rightarrow>
          if next_fd < 0 \<or> previous_fd < 0 then
            connect_failed PG_ERR_TRANSPORT
              (delete_verbs_transport (verbs env) a vt
                (close_if_open (verbs env) previous_fd (close_if_open (verbs env) next_fd e1)))
          else connect_exchange env port qp_n qp_p next_fd previous_fd a vt e1)"

definition connect_queue_pairs :: "'e pg_env \<Rightarrow> int \<Rightarrow> int \<Rightarrow> string list \<Rightarrow> ibv_port_attr \<Rightarrow> nat \<Rightarrow> nat \<Rightarrow> VerbsTransport \<Rightarrow>
    'e \<Rightarrow> 'e connected" where
  "connect_queue_pairs env r n hosts port pd a vt e =
     (case create_qp env pd (vt_cq vt) e of
        (e1, next_qp) \<Rightarrow>
          (case create_qp env pd (vt_cq vt) e1 of
             (e2, previous_qp) \<Rightarrow>
               if next_qp = None \<or> previous_qp = None then
                 connect_failed PG_ERR_TRANSPORT
                   (delete_verbs_transport (verbs env) a vt
                     (destroy_qp_if (verbs env) previous_qp (destroy_qp_if (verbs env) next_qp e2)))
               else
                 connect_ring env r n hosts port (the next_qp) (the previous_qp) a
                   (fst (set_ring_qps next_qp previous_qp vt)) e2))"

definition connect_transport :: "'e pg_env \<Rightarrow> int \<Rightarrow> int \<Rightarrow> string list \<Rightarrow> nat \<Rightarrow> nat \<Rightarrow> 'e \<Rightarrow> 'e connected" where
  "connect_transport env r n hosts device pd e =
     (case ibv_query_port env device 1 e of
        (e1, port) \<Rightarrow>
          if port = None \<or> \<not> port_active (the port) then
            connect_failed PG_ERR_TRANSPORT (ibv_close_device (verbs env) device (ibv_dealloc_pd (verbs env) pd e1))
          else
            (case new_verbs_transport (verbs env) r n (Some device) (Some pd) e1 of
               (e2, Inl x) \<Rightarrow>
                 connect_failed PG_ERR_TRANSPORT (ibv_close_device (verbs env) device (ibv_dealloc_pd (verbs env) pd e2))
             | (e2, Inr (a, vt)) \<Rightarrow> connect_queue_pairs env r n hosts (the port) pd a vt e2))"

definition connect_device :: "'e pg_env \<Rightarrow> int \<Rightarrow> int \<Rightarrow> string list \<Rightarrow> 'e \<Rightarrow> 'e connected" where
  "connect_device env r n hosts e =
     (case ibv_get_device_list env e of
        (e1, None) \<Rightarrow> connect_failed PG_ERR_TRANSPORT e1
      | (e1, Some (devices, names)) \<Rightarrow>
          if names = [] then connect_failed PG_ERR_TRANSPORT e1
          else
            (case ibv_open_device env (hd names) e1 of
               (e2, opened) \<Rightarrow>
                 let e3 = ibv_free_device_list env devices e2 in
                 (case opened of
                    None \<Rightarrow> connect_failed PG_ERR_TRANSPORT e3
                  | Some device \<Rightarrow>
                      (case ibv_alloc_pd env device e3 of
                         (e4, None) \<Rightarrow> connect_failed PG_ERR_TRANSPORT (ibv_close_device (verbs env) device e4)
                       | (e4, Some pd) \<Rightarrow> connect_transport env r n hosts device pd e4))))"

definition connect_process_group :: "'e pg_env \<Rightarrow> string option \<Rightarrow> bool \<Rightarrow> 'e \<Rightarrow> 'e connected" where
  "connect_process_group env servername pg_handle_null e =
     (if pg_handle_null then connect_failed PG_ERR_INVALID_ARGUMENT e
      else
        let r = (case getenv env ''RANK'' of None \<Rightarrow> 0 | Some s \<Rightarrow> atoi s);
            n = (case getenv env ''WORLD_SIZE'' of None \<Rightarrow> 1 | Some s \<Rightarrow> atoi s)
        in if r < 0 \<or> n < 2 \<or> r \<ge> n then connect_failed PG_ERR_INVALID_ARGUMENT e
           else
             let hosts = get_host_list env servername n in
             if length hosts \<noteq> nat n then connect_failed PG_ERR_INVALID_ARGUMENT e
             else connect_device env r n hosts e)"

end
