(* ===== verification/Process_Resources.thy ===== *)
theory Process_Resources
  imports Process_Group Verbs_Properties
begin

text \<open>
  Resources of the process group layer. \<open>pg_laws\<close> adds to the laws of the verbs transport what
  the manual pages promise about devices, queue pairs, sockets and address lists. Every stage of
  \<open>connect_process_group\<close> is then followed with the resources it owns.
\<close>

section \<open>Documented behaviour\<close>

definition creates_socket :: "('e \<Rightarrow> resource set) \<Rightarrow> 'e \<Rightarrow> 'e \<times> int \<Rightarrow> bool" where
  "creates_socket live e r =
     (if snd r < 0 then live (fst r) = live e
      else Socket (snd r) \<notin> live e \<and> live (fst r) = insert (Socket (snd r)) (live e))"

definition pg_laws :: "'e pg_env \<Rightarrow> ('e \<Rightarrow> resource set) \<Rightarrow> bool" where
  "pg_laws env live =
     (verbs_laws (verbs env) live \<and>
      (\<forall>e. creates live Transport_object e (new_transport (verbs env) e)) \<and>
      (\<forall>a e. live (delete_transport (verbs env) a e) = live e - {Transport_object a}) \<and>
      (\<forall>e. creates live Handle_object e (new_handle (objects env) e)) \<and>
      (\<forall>a e. live (delete_handle (objects env) a e) = live e - {Handle_object a}) \<and>
      (\<forall>e. creates live Context_object e (new_context (objects env) e)) \<and>
      (\<forall>a e. live (delete_context (objects env) a e) = live e - {Context_object a}) \<and>
      (\<forall>e. creates live (\<lambda>l. Device_list (fst l)) e (ibv_get_device_list env e)) \<and>
      (\<forall>l e. live (ibv_free_device_list env l e) = live e - {Device_list l}) \<and>
      (\<forall>d e. creates live Device e (ibv_open_device env d e)) \<and>
      (\<forall>d e. creates live Pd e (ibv_alloc_pd env d e)) \<and>
      (\<forall>d p e. live (fst (ibv_query_port env d p e)) = live e) \<and>
      (\<forall>pd attr e. creates live Qp e (ibv_create_qp env pd attr e)) \<and>
      (\<forall>q attr m e. live (fst (ibv_modify_qp env q attr m e)) = live e) \<and>
      (\<forall>e. creates_socket live e (tcp_socket env e)) \<and>
      (\<forall>fd e. live (set_reuse_address env fd e) = live e) \<and>
      (\<forall>fd p e. live (fst (sys_bind_any env fd p e)) = live e) \<and>
      (\<forall>fd k e. live (fst (sys_listen env fd k e)) = live e) \<and>
      (\<forall>fd e r. sys_accept env fd e = Some r \<longrightarrow> creates_socket live e r) \<and>
      (\<forall>h p e. creates live (\<lambda>l. Address_list (fst l)) e (getaddrinfo env h p e)) \<and>
      (\<forall>l e. live (freeaddrinfo env l e) = live e - {Address_list l}) \<and>
      (\<forall>f t p e. creates_socket live e (sys_socket env f t p e)) \<and>
      (\<forall>fd a e. live (fst (sys_connect env fd a e)) = live e) \<and>
      (\<forall>t e. live (usleep env t e) = live e))"

lemma pg_laws_verbs: "pg_laws env live \<Longrightarrow> verbs_laws (verbs env) live"
  by (simp add: pg_laws_def)

lemma pg_laws_release:
  assumes "pg_laws env live"
  shows "live (delete_transport (verbs env) a e) = live e - {Transport_object a}"
    "live (delete_handle (objects env) a e) = live e - {Handle_object a}"
    "live (delete_context (objects env) a e) = live e - {Context_object a}"
    "live (ibv_free_device_list env a e) = live e - {Device_list a}"
    "live (freeaddrinfo env a e) = live e - {Address_list a}"
  using assms by (simp_all add: pg_laws_def)

lemma pg_laws_keep:
  assumes "pg_laws env live"
  shows "ibv_query_port env d p e = (e', x) \<Longrightarrow> live e' = live e"
    "ibv_modify_qp env q attr m e = (e', s) \<Longrightarrow> live e' = live e"
    "live (set_reuse_address env fd e) = live e"
    "sys_bind_any env fd po e = (e', s) \<Longrightarrow> live e' = live e"
    "sys_listen env fd k e = (e', s) \<Longrightarrow> live e' = live e"
    "sys_connect env fd ad e = (e', s) \<Longrightarrow> live e' = live e"
    "live (usleep env t e) = live e"
  using assms unfolding pg_laws_def by (metis fst_conv)+

lemma pg_laws_create:
  assumes "pg_laws env live"
  shows "new_transport (verbs env) e = r \<Longrightarrow> creates live Transport_object e r"
    "new_handle (objects env) e = r \<Longrightarrow> creates live Handle_object e r"
    "new_context (objects env) e = r \<Longrightarrow> creates live Context_object e r"
    "ibv_get_device_list env e = dl \<Longrightarrow> creates live (\<lambda>l. Device_list (fst l)) e dl"
    "ibv_open_device env d e = r \<Longrightarrow> creates live Device e r"
    "ibv_alloc_pd env d e = r \<Longrightarrow> creates live Pd e r"
    "ibv_create_qp env d attr e = r \<Longrightarrow> creates live Qp e r"
    "getaddrinfo env h po e = al \<Longrightarrow> creates live (\<lambda>l. Address_list (fst l)) e al"
    "tcp_socket env e = s \<Longrightarrow> creates_socket live e s"
    "sys_accept env fd e = Some (e', c) \<Longrightarrow> creates_socket live e (e', c)"
    "sys_socket env fam ty prot e = s \<Longrightarrow> creates_socket live e s"
  using assms by (auto simp: pg_laws_def)

text \<open>\<open>X\<close> is what the routine owns, \<open>B\<close> everything else.\<close>

definition owns :: "('e \<Rightarrow> resource set) \<Rightarrow> resource set \<Rightarrow> resource set \<Rightarrow> 'e \<Rightarrow> bool" where
  "owns live B X e = (live e = B \<union> X \<and> B \<inter> X = {})"

lemma owns_create:
  "owns live B X e \<Longrightarrow> creates live mk e (e', Some h) \<Longrightarrow> owns live B (insert (mk h) X) e' \<and> mk h \<notin> B \<union> X"
  by (auto simp: owns_def creates_def)

lemma owns_none: "owns live B X e \<Longrightarrow> creates live mk e (e', None) \<Longrightarrow> owns live B X e'"
  by (auto simp: owns_def creates_def)

lemma owns_socket:
  "owns live B X e \<Longrightarrow> creates_socket live e (e', fd) \<Longrightarrow> 0 \<le> fd \<Longrightarrow> owns live B (insert (Socket fd) X) e' \<and> Socket fd \<notin> B \<union> X"
  "owns live B X e \<Longrightarrow> creates_socket live e (e', fd) \<Longrightarrow> fd < 0 \<Longrightarrow> owns live B X e'"
  by (auto simp: owns_def creates_socket_def)

lemma owns_keep: "owns live B X e \<Longrightarrow> live e' = live e \<Longrightarrow> owns live B X e'"
  by (simp add: owns_def)

lemma owns_release: "owns live B X e \<Longrightarrow> live e' = live e - Y \<Longrightarrow> Y \<inter> B = {} \<Longrightarrow> owns live B (X - Y) e'"
  by (auto simp: owns_def)

section \<open>Sockets\<close>

lemma listen_and_accept_owns:
  assumes laws: "pg_laws env live" and own: "owns live B X e" and ret: "listen_and_accept env port e = Some (e', fd)"
  shows "if fd < 0 then owns live B X e' else owns live B (insert (Socket fd) X) e' \<and> Socket fd \<notin> B \<union> X"
proof -
  obtain e1 l where l: "tcp_socket env e = (e1, l)" by fastforce
  show ?thesis
  proof (cases "l < 0")
    case True
    with ret l have "e' = e1" "fd = -1" by (simp_all add: listen_and_accept_def)
    with owns_socket(2) [OF own pg_laws_create(9) [OF laws l] True] show ?thesis by simp
  next
    case False
    then have o1: "owns live B (insert (Socket l) X) e1" "Socket l \<notin> B \<union> X"
      using owns_socket(1) [OF own pg_laws_create(9) [OF laws l]] by simp_all
    obtain e2 b where b: "sys_bind_any env l (word_of_int port) (set_reuse_address env l e1) = (e2, b)" by fastforce
    obtain e3 s where s: "(if b \<noteq> 0 then (e2, -1) else sys_listen env l 1 e2) = (e3, s)" by fastforce
    have "live e3 = live e2"
      using s pg_laws_keep(5) [OF laws] by (auto split: if_splits)
    with pg_laws_keep(4) [OF laws b] pg_laws_keep(3) [OF laws] have "live e3 = live e1" by simp
    then have o3: "owns live B (insert (Socket l) X) e3"
      using owns_keep [OF o1(1)] by simp
    have closed: "owns live B (Y - {Socket l}) (sys_close (verbs env) l e4)" if "owns live B Y e4" for Y e4
      by (rule owns_release [OF that verbs_laws_release(6) [OF pg_laws_verbs [OF laws]]]) (use o1(2) in simp)
    have drop_l: "insert (Socket l) X - {Socket l} = X"
      using o1(2) by auto
    show ?thesis
    proof (cases "b \<noteq> 0 \<or> s \<noteq> 0")
      case True
      with ret l False b s have "e' = sys_close (verbs env) l e3" "fd = -1"
        by (auto simp: listen_and_accept_def)
      with closed [OF o3] drop_l show ?thesis by simp
    next
      case ok: False
      with ret l False b s obtain e4 where a: "sys_accept env l e3 = Some (e4, fd)" and e': "e' = sys_close (verbs env) l e4"
        by (auto simp: listen_and_accept_def split: option.splits)
      show ?thesis
      proof (cases "fd < 0")
        case True
        with closed [OF owns_socket(2) [OF o3 pg_laws_create(10) [OF laws a]]] drop_l show ?thesis by (simp add: e')
      next
        case False
        then have o4: "owns live B (insert (Socket fd) (insert (Socket l) X)) e4" "Socket fd \<notin> B \<union> insert (Socket l) X"
          using owns_socket(1) [OF o3 pg_laws_create(10) [OF laws a]] by simp_all
        then have "insert (Socket fd) (insert (Socket l) X) - {Socket l} = insert (Socket fd) X"
          using o1(2) by auto
        with closed [OF o4(1)] o4(2) False show ?thesis by (simp add: e')
      qed
    qed
  qed
qed

lemma connect_entries_owns:
  assumes laws: "pg_laws env live"
  shows "owns live B X e \<Longrightarrow> connect_entries env entries e = (e', fd) \<Longrightarrow>
    if fd < 0 then owns live B X e' else owns live B (insert (Socket fd) X) e' \<and> Socket fd \<notin> B \<union> X"
proof (induction entries arbitrary: e)
  case (Cons entry entries)
  obtain e1 c where c: "sys_socket env (ai_family entry) (ai_socktype entry) (ai_protocol entry) e = (e1, c)" by fastforce
  show ?case
  proof (cases "c < 0")
    case True
    with Cons c owns_socket(2) [OF Cons.prems(1) pg_laws_create(11) [OF laws c]] show ?thesis by auto
  next
    case False
    then have o1: "owns live B (insert (Socket c) X) e1" "Socket c \<notin> B \<union> X"
      using owns_socket(1) [OF Cons.prems(1) pg_laws_create(11) [OF laws c]] by simp_all
    obtain e2 s where s: "sys_connect env c (ai_addr entry) e1 = (e2, s)" by fastforce
    have o2: "owns live B (insert (Socket c) X) e2"
      by (rule owns_keep [OF o1(1) pg_laws_keep(6) [OF laws s]])
    show ?thesis
    proof (cases "s = 0")
      case True
      with Cons.prems(2) c s False o1 o2 show ?thesis by auto
    next
      case f: False
      have "owns live B (insert (Socket c) X - {Socket c}) (sys_close (verbs env) c e2)"
        by (rule owns_release [OF o2 verbs_laws_release(6) [OF pg_laws_verbs [OF laws]]]) (use o1(2) in simp)
      moreover have "insert (Socket c) X - {Socket c} = X"
        using o1(2) by auto
      ultimately show ?thesis
        using Cons.IH [of "sys_close (verbs env) c e2"] Cons.prems(2) c s False f by simp
    qed
  qed
qed simp

lemma connect_attempts_owns:
  assumes laws: "pg_laws env live"
  shows "owns live B X e \<Longrightarrow> connect_attempts env entries k e = (e', fd) \<Longrightarrow>
    if fd < 0 then owns live B X e' else owns live B (insert (Socket fd) X) e' \<and> Socket fd \<notin> B \<union> X"
proof (induction k arbitrary: e)
  case (Suc k)
  obtain e1 c where c: "connect_entries env entries e = (e1, c)" by fastforce
  note o1 = connect_entries_owns [OF laws Suc.prems(1) c]
  show ?case
  proof (cases "c < 0")
    case True
    with o1 have "owns live B X (usleep env 100000 e1)"
      using owns_keep pg_laws_keep(7) [OF laws] by metis
    with Suc.IH Suc.prems(2) c True show ?thesis by auto
  qed (use o1 Suc.prems(2) c in auto)
qed simp

lemma connect_to_host_owns:
  assumes laws: "pg_laws env live" and own: "owns live B X e" and ret: "connect_to_host env host port e = (e', fd)"
  shows "if fd < 0 then owns live B X e' else owns live B (insert (Socket fd) X) e' \<and> Socket fd \<notin> B \<union> X"
proof -
  obtain e1 r where r: "getaddrinfo env host (to_string port) e = (e1, r)" by fastforce
  note c = pg_laws_create(8) [OF laws r]
  show ?thesis
  proof (cases r)
    case None
    with ret r own c show ?thesis by (auto simp: connect_to_host_def intro: owns_none)
  next
    case (Some p)
    obtain l entries where p: "p = (l, entries)" by fastforce
    have o1: "owns live B (insert (Address_list l) X) e1" "Address_list l \<notin> B \<union> X"
      using owns_create [OF own c [unfolded Some]] by (simp_all add: p)
    obtain e2 where e2: "connect_attempts env entries 100 e1 = (e2, fd)" "e' = freeaddrinfo env l e2"
      using ret r Some p by (auto simp: connect_to_host_def split: prod.splits)
    note o2 = connect_attempts_owns [OF laws o1(1) e2(1)]
    have freed: "owns live B (Y - {Address_list l}) e'" if "owns live B Y e2" for Y
      unfolding e2(2) by (rule owns_release [OF that pg_laws_release(5) [OF laws]]) (use o1(2) in simp)
    have "insert (Address_list l) X - {Address_list l} = X" "insert (Socket fd) (insert (Address_list l) X) - {Address_list l} = insert (Socket fd) X"
      using o1(2) by auto
    with o2 freed [of "insert (Address_list l) X"] freed [of "insert (Socket fd) (insert (Address_list l) X)"]
    show ?thesis by (cases "fd < 0") (use o1(2) in auto)
  qed
qed

text \<open>Both sockets, in whichever order: each that is not negative is a new one.\<close>

definition open_sockets :: "int \<Rightarrow> int \<Rightarrow> resource set" where
  "open_sockets n p = {Socket fd | fd. 0 \<le> fd \<and> (fd = n \<or> fd = p)}"

lemma open_sockets_simps:
  "open_sockets n p = (if n < 0 then {} else {Socket n}) \<union> (if p < 0 then {} else {Socket p})"
  by (auto simp: open_sockets_def)

lemma ring_sockets_owns:
  assumes laws: "pg_laws env live" and own: "owns live B X e" and ret: "ring_sockets env r n hosts e = Some (e', next_fd, previous_fd)"
  shows "owns live B (X \<union> open_sockets next_fd previous_fd) e'"
proof (cases "r smod 2 = 0")
  case True
  obtain e1 c where c: "connect_to_host env (hosts ! nat (next_rank_of r n)) (base_port + r) e = (e1, c)" by fastforce
  with ret True have l: "listen_and_accept env (base_port + previous_rank_of r n) e1 = Some (e', previous_fd)" "c = next_fd"
    by (auto simp: ring_sockets_def Let_def)
  let ?Y = "if c < 0 then X else insert (Socket c) X"
  have "owns live B ?Y e1"
    using connect_to_host_owns [OF laws own c] by simp
  note listen_and_accept_owns [OF laws this l(1)]
  then show ?thesis
    using l(2) by (auto simp: open_sockets_simps insert_commute split: if_splits)
next
  case False
  with ret obtain e1 where l: "listen_and_accept env (base_port + previous_rank_of r n) e = Some (e1, previous_fd)"
      and c: "connect_to_host env (hosts ! nat (next_rank_of r n)) (base_port + r) e1 = (e', next_fd)"
    by (auto simp: ring_sockets_def Let_def split: option.splits prod.splits)
  let ?Y = "if previous_fd < 0 then X else insert (Socket previous_fd) X"
  have "owns live B ?Y e1"
    using listen_and_accept_owns [OF laws own l] by simp
  note connect_to_host_owns [OF laws this c]
  then show ?thesis
    by (auto simp: open_sockets_simps insert_commute split: if_splits)
qed

lemma exchange_both_live:
  assumes laws: "pg_laws env live" and ret: "exchange_both env next_fd previous_fd x y k e = Some (e', r)"
  shows "live e' = live e"
  using ret write_all_live [OF pg_laws_verbs [OF laws]] read_all_live [OF pg_laws_verbs [OF laws]]
  by (auto simp: exchange_both_def split: option.splits prod.splits if_splits)

lemma transition_live:
  assumes laws: "pg_laws env live" and ret: "transition_qp_to_rts env q rq rl e = (e', s)"
  shows "live e' = live e"
  using ret pg_laws_keep(2) [OF laws] by (auto simp: transition_qp_to_rts_def split: prod.splits if_splits)

end
