(* ===== verification/Process_Connect.thy ===== *)
theory Process_Connect
  imports Process_Resources
begin

text \<open>
  \<open>connect_process_group\<close> stage by stage: what each stage owns when it is entered, and that every
  way out has either released all of it or handed it to the returned handle.
\<close>

section \<open>The transport as an owner\<close>

definition transport_parts :: "nat \<Rightarrow> VerbsTransport \<Rightarrow> resource set" where
  "transport_parts a vt = insert (Transport_object a) (owned_handles vt)"

lemma delete_verbs_live:
  assumes "pg_laws env live" and "distinct (map fst (pending_requests vt))"
  shows "live (delete_verbs_transport (verbs env) a vt e) = live e - request_resources vt - transport_parts a vt"
  using assms by (auto simp: delete_verbs_transport_def pg_laws_release destroy_live [OF pg_laws_verbs] transport_parts_def)

lemma no_request_resources: "pending_requests vt = [] \<Longrightarrow> request_resources vt = {}"
  by (auto simp: request_resources_def pend_def region_of_def ran_def)

text \<open>A transport that can be used: queue pairs and sockets are set.\<close>

definition ring_connected :: "VerbsTransport \<Rightarrow> bool" where
  "ring_connected vt = (qp_next vt \<noteq> None \<and> qp_prev vt \<noteq> None \<and> 0 \<le> next_socket vt \<and> 0 \<le> previous_socket vt)"

text \<open>
  A result of a connect in a process that owns \<open>B\<close> besides: success hands everything that was
  made to the handle, any other status leaves nothing behind.
\<close>

definition connected_ok :: "'e pg_env \<Rightarrow> ('e \<Rightarrow> resource set) \<Rightarrow> resource set \<Rightarrow> int \<Rightarrow> int \<Rightarrow> 'e connected \<Rightarrow> bool" where
  "connected_ok env live B r n result =
     (case result of
        None \<Rightarrow> True
      | Some ((e, vt), code, handle) \<Rightarrow>
          if code = PG_SUCCESS then
            \<exists>a v h ctx. vt = Some v \<and> pending_requests v = [] \<and> ring_connected v \<and>
              handle = Some (h, \<lparr>handle_transport = get_c_transport (verbs env) a, collectives = Some ctx, owns_transport = True\<rparr>) \<and>
              rank ctx = r \<and> world_size ctx = n \<and> sequence ctx = 0 \<and>
              owns live B (transport_parts a v \<union> {Handle_object h, Context_object (temporary_buffer ctx)}) e
          else vt = None \<and> handle = None \<and> owns live B {} e)"

lemma connected_okI:
  "code \<noteq> PG_SUCCESS \<Longrightarrow> owns live B {} e \<Longrightarrow> connected_ok env live B r n (connect_failed code e)"
  by (simp add: connected_ok_def connect_failed_def)

lemma connected_ok_None [simp]: "connected_ok env live B r n None"
  by (simp add: connected_ok_def)

text \<open>Deleting the transport, and whatever was closed before, releases everything.\<close>

lemma delete_owner:
  assumes laws: "pg_laws env live" and own: "owns live B (transport_parts a vt \<union> X) e" and vt: "pending_requests vt = []"
    and closed: "live e' = live e - Y" "X \<subseteq> Y" "Y \<inter> B = {}"
  shows "owns live B {} (delete_verbs_transport (verbs env) a vt e')"
  using own closed delete_verbs_live [OF laws, of vt a e'] vt no_request_resources [OF vt] by (auto simp: owns_def)

lemma connected_ok_abandon:
  assumes laws: "pg_laws env live" and own: "owns live B (transport_parts a vt \<union> open_sockets nf pf) e"
    and fds: "0 \<le> nf" "0 \<le> pf" and vt: "pending_requests vt = []"
  shows "connected_ok env live B r n (abandon env nf pf a vt e)"
proof -
  have s: "open_sockets nf pf = {Socket nf, Socket pf}"
    using fds by (auto simp: open_sockets_simps)
  have "live (sys_close (verbs env) pf (sys_close (verbs env) nf e)) = live e - {Socket nf, Socket pf}"
    using verbs_laws_release(6) [OF pg_laws_verbs [OF laws]] by auto
  then have "owns live B {} (delete_verbs_transport (verbs env) a vt (sys_close (verbs env) pf (sys_close (verbs env) nf e)))"
    by (rule delete_owner [OF laws own vt]) (use own s in \<open>auto simp: owns_def\<close>)
  then show ?thesis
    unfolding abandon_def by (intro connected_okI) simp_all
qed

section \<open>The stages\<close>

lemma create_over_verbs:
  assumes laws: "pg_laws env live" and own: "owns live B X e"
    and ret: "pg_create_from_transport (lift_objects (objects env)) (Some (get_c_transport (verbs env) a)) 1 (Some cfg)
      False (e, Some vt) = (w, code, handle)"
  shows "if code = PG_SUCCESS then
      \<exists>e' h ctx. w = (e', Some vt) \<and>
        handle = Some (h, \<lparr>handle_transport = get_c_transport (verbs env) a, collectives = Some ctx, owns_transport = True\<rparr>) \<and>
        rank ctx = vt_rank vt \<and> world_size ctx = vt_world_size vt \<and> sequence ctx = 0 \<and>
        owns live B (X \<union> {Handle_object h, Context_object (temporary_buffer ctx)}) e'
    else handle = None \<and> snd w = Some vt \<and> owns live B X (fst w)"
proof -
  let ?heap = "lift_objects (objects env)" and ?tr = "Some (get_c_transport (verbs env) a)"
  obtain e1 hr where hr: "new_handle (objects env) e = (e1, hr)" by fastforce
  then have h: "new_handle ?heap (e, Some vt) = ((e1, Some vt), hr)"
    by (simp add: lift_objects_def)
  show ?thesis
  proof (cases hr)
    case None
    with ret h owns_none [OF own] pg_laws_create(2) [OF laws hr] show ?thesis
      by (auto simp: pg_create_from_transport_def)
  next
    case (Some h1)
    have o1: "owns live B (insert (Handle_object h1) X) e1" "Handle_object h1 \<notin> B \<union> X"
      using owns_create [OF own, where mk = Handle_object] pg_laws_create(2) [OF laws hr] Some by auto
    obtain e2 cr where cr: "new_context (objects env) e1 = (e2, cr)" by fastforce
    then have c: "new_context ?heap (e1, Some vt) = ((e2, Some vt), cr)"
      by (simp add: lift_objects_def)
    have deleted: "owns live B X (delete_handle (objects env) h1 e')" if "owns live B (insert (Handle_object h1) X) e'" for e'
    proof -
      have "owns live B (insert (Handle_object h1) X - {Handle_object h1}) (delete_handle (objects env) h1 e')"
        by (rule owns_release [OF that pg_laws_release(2) [OF laws]]) (use o1(2) in simp)
      moreover have "insert (Handle_object h1) X - {Handle_object h1} = X"
        using o1(2) by auto
      ultimately show ?thesis by simp
    qed
    have del: "delete_handle ?heap h1 w' = (delete_handle (objects env) h1 (fst w'), snd w')" for w'
      by (simp add: lift_objects_def split_beta)
    obtain w2 s created where rc: "ring_collective_create ?heap ?tr (Some cfg) False (e1, Some vt) = (w2, s, created)"
      by (cases "ring_collective_create ?heap ?tr (Some cfg) False (e1, Some vt)")
    have tr: "pg_transport_rank (snd (get_c_transport (verbs env) a)) (e1, Some vt) = vt_rank vt"
      "pg_transport_size (snd (get_c_transport (verbs env) a)) (e1, Some vt) = vt_world_size vt"
      by (simp_all add: pg_transport_rank_def pg_transport_size_def get_c_transport_def verbs_operations_def verbs_rank_def
          verbs_size_def verbs_implementation_of_def)
    show ?thesis
    proof (cases "\<exists>b. cr = Some b \<and> s = PG_SUCCESS")
      case True
      then obtain b where b: "cr = Some b" "s = PG_SUCCESS" by blast
      have o2: "owns live B (insert (Context_object b) (insert (Handle_object h1) X)) e2"
        using owns_create [OF o1(1), where mk = Context_object] pg_laws_create(3) [OF laws cr] b by auto
      from rc c b tr obtain ctx where ctx: "created = Some ctx" "w2 = (e2, Some vt)" "temporary_buffer ctx = b"
          "rank ctx = vt_rank vt" "world_size ctx = vt_world_size vt" "sequence ctx = 0"
        by (auto simp: ring_collective_create_def get_c_transport_def Let_def split: if_splits)
      have "X \<union> {Handle_object h1, Context_object b} = insert (Context_object b) (insert (Handle_object h1) X)" by auto
      with ret h Some rc b(2) ctx o2 show ?thesis
        by (auto simp: pg_create_from_transport_def)
    next
      case False
      then have w2: "snd w2 = Some vt" "owns live B (insert (Handle_object h1) X) (fst w2)" "s \<noteq> PG_SUCCESS"
        using rc c o1(1) owns_none [OF o1(1)] pg_laws_create(3) [OF laws cr]
        by (auto simp: ring_collective_create_def get_c_transport_def Let_def split: if_splits option.splits)
      with ret h Some rc deleted [OF w2(2)] show ?thesis
        by (auto simp: pg_create_from_transport_def del)
    qed
  qed
qed

text \<open>From the open sockets on.\<close>

definition sockets_unset :: "VerbsTransport \<Rightarrow> bool" where
  "sockets_unset vt = (pending_requests vt = [] \<and> next_socket vt = -1 \<and> previous_socket vt = -1 \<and>
     qp_next vt \<noteq> None \<and> qp_prev vt \<noteq> None)"

lemma connect_handle_ok:
  assumes laws: "pg_laws env live" and own: "owns live B (transport_parts a vt \<union> open_sockets nf pf) e"
    and fds: "0 \<le> nf" "0 \<le> pf" and vt: "sockets_unset vt"
  shows "connected_ok env live B (vt_rank vt) (vt_world_size vt) (connect_handle env nf pf a vt e)"
proof -
  define vt1 where "vt1 = fst (set_control_sockets nf pf vt)"
  have vt1: "vt1 = vt\<lparr>next_socket := nf, previous_socket := pf\<rparr>"
    using fds by (simp add: vt1_def set_control_sockets_def)
  have "transport_parts a vt1 = transport_parts a vt \<union> open_sockets nf pf"
    using vt fds by (auto simp: transport_parts_def owned_handles_def vt1 open_sockets_def sockets_unset_def)
  with own have own1: "owns live B (transport_parts a vt1) e" by simp
  have ready: "pending_requests vt1 = []" "ring_connected vt1" "vt_rank vt1 = vt_rank vt" "vt_world_size vt1 = vt_world_size vt"
    using vt fds by (simp_all add: vt1 sockets_unset_def ring_connected_def)
  have deleted: "owns live B {} (delete_verbs_transport (verbs env) a vt1 e')" if "owns live B (transport_parts a vt1) e'" for e'
    by (rule delete_owner [OF laws, where X = "{}" and Y = "{}" and e = e']) (use that ready in auto)
  show ?thesis
  proof (cases "environment_config env")
    case (Inl x)
    with connected_okI [OF _ deleted [OF own1]] show ?thesis
      by (simp add: connect_handle_def vt1_def [symmetric])
  next
    case (Inr cfg)
    obtain w code handle where c: "pg_create_from_transport (lift_objects (objects env)) (Some (get_c_transport (verbs env) a)) 1
        (Some cfg) False (e, Some vt1) = (w, code, handle)"
      by (cases "pg_create_from_transport (lift_objects (objects env)) (Some (get_c_transport (verbs env) a)) 1
        (Some cfg) False (e, Some vt1)")
    note made = create_over_verbs [OF laws own1 c]
    show ?thesis
    proof (cases "code = PG_SUCCESS")
      case True
      with made Inr c ready show ?thesis
        by (auto simp: connect_handle_def vt1_def [symmetric] connected_ok_def)
    next
      case False
      with made Inr c connected_okI [OF False deleted] show ?thesis
        by (simp add: connect_handle_def vt1_def [symmetric])
    qed
  qed
qed

lemma connect_barrier_ok:
  assumes laws: "pg_laws env live" and own: "owns live B (transport_parts a vt \<union> open_sockets nf pf) e"
    and fds: "0 \<le> nf" "0 \<le> pf" and vt: "sockets_unset vt"
  shows "connected_ok env live B (vt_rank vt) (vt_world_size vt) (connect_barrier env nf pf a vt e)"
proof (cases "exchange_both env nf pf [1] [1] 1 e")
  case (Some r)
  then obtain e1 answers where r: "exchange_both env nf pf [1] [1] 1 e = Some (e1, answers)" by (cases r) auto
  note own1 = owns_keep [OF own exchange_both_live [OF laws r]]
  have "pending_requests vt = []"
    using vt by (simp add: sockets_unset_def)
  with connected_ok_abandon [OF laws own1 fds] connect_handle_ok [OF laws own1 fds vt] show ?thesis
    by (simp add: connect_barrier_def r del: One_nat_def)
qed (simp add: connect_barrier_def)

lemma connect_transition_ok:
  assumes laws: "pg_laws env live" and own: "owns live B (transport_parts a vt \<union> open_sockets nf pf) e"
    and fds: "0 \<le> nf" "0 \<le> pf" and vt: "sockets_unset vt"
  shows "connected_ok env live B (vt_rank vt) (vt_world_size vt) (connect_transition env qn qp rn rp nf pf a vt e)"
proof -
  obtain e1 s1 where t1: "transition_qp_to_rts env qn (qpn rn) (lid rn) e = (e1, s1)" by fastforce
  obtain e2 s2 where t2: "transition_qp_to_rts env qp (qpn rp) (lid rp) e1 = (e2, s2)" by fastforce
  note own1 = owns_keep [OF own transition_live [OF laws t1]]
  note own2 = owns_keep [OF own1 transition_live [OF laws t2]]
  have p: "pending_requests vt = []"
    using vt by (simp add: sockets_unset_def)
  show ?thesis
    using connected_ok_abandon [OF laws own1 fds p] connected_ok_abandon [OF laws own2 fds p]
      connect_barrier_ok [OF laws own2 fds vt]
    by (simp add: connect_transition_def t1 t2)
qed

lemma connect_exchange_ok:
  assumes laws: "pg_laws env live" and own: "owns live B (transport_parts a vt \<union> open_sockets nf pf) e"
    and fds: "0 \<le> nf" "0 \<le> pf" and vt: "sockets_unset vt"
  shows "connected_ok env live B (vt_rank vt) (vt_world_size vt) (connect_exchange env port qn qp nf pf a vt e)"
proof -
  let ?x = "exchange_both env nf pf (exchange_to_bytes \<lparr>qpn = qp_num env qn, lid = port_lid port, exchange_reserved = 0\<rparr>)
    (exchange_to_bytes \<lparr>qpn = qp_num env qp, lid = port_lid port, exchange_reserved = 0\<rparr>) 8 e"
  show ?thesis
  proof (cases ?x)
    case (Some r)
    then obtain e1 d where r: "?x = Some (e1, d)" by (cases r) auto
    note own1 = owns_keep [OF own exchange_both_live [OF laws r]]
    have "pending_requests vt = []"
      using vt by (simp add: sockets_unset_def)
    with connected_ok_abandon [OF laws own1 fds] connect_transition_ok [OF laws own1 fds vt] r show ?thesis
      by (auto simp: connect_exchange_def split: option.split)
  qed (simp add: connect_exchange_def)
qed

lemma connect_ring_ok:
  assumes laws: "pg_laws env live" and own: "owns live B (transport_parts a vt) e" and vt: "sockets_unset vt"
  shows "connected_ok env live B (vt_rank vt) (vt_world_size vt) (connect_ring env r n hosts port qn qp a vt e)"
proof (cases "ring_sockets env r n hosts e")
  case (Some x)
  then obtain e1 nf pf where x: "ring_sockets env r n hosts e = Some (e1, nf, pf)" by (cases x) auto
  note own1 = ring_sockets_owns [OF laws own x]
  let ?e2 = "close_if_open (verbs env) pf (close_if_open (verbs env) nf e1)"
  have "live ?e2 = live e1 - open_sockets nf pf"
    by (auto simp: close_if_open_def open_sockets_simps verbs_laws_release(6) [OF pg_laws_verbs [OF laws]])
  moreover have "pending_requests vt = []"
    using vt by (simp add: sockets_unset_def)
  ultimately have "owns live B {} (delete_verbs_transport (verbs env) a vt ?e2)"
    by (intro delete_owner [OF laws own1]) (use own1 in \<open>auto simp: owns_def\<close>)
  then have "connected_ok env live B (vt_rank vt) (vt_world_size vt) (connect_failed PG_ERR_TRANSPORT (delete_verbs_transport (verbs env) a vt ?e2))"
    by (intro connected_okI) simp_all
  with connect_exchange_ok [OF laws own1 _ _ vt] show ?thesis
    by (simp add: connect_ring_def x not_less)
qed (simp add: connect_ring_def)

text \<open>A transport just constructed.\<close>

definition unconnected :: "VerbsTransport \<Rightarrow> bool" where
  "unconnected vt = (pending_requests vt = [] \<and> next_socket vt = -1 \<and> previous_socket vt = -1 \<and> qp_next vt = None \<and> qp_prev vt = None)"

lemma connect_queue_pairs_ok:
  assumes laws: "pg_laws env live" and own: "owns live B (transport_parts a vt) e" and vt: "unconnected vt"
  shows "connected_ok env live B (vt_rank vt) (vt_world_size vt) (connect_queue_pairs env r n hosts port pd a vt e)"
proof -
  obtain e1 q1 where q1: "create_qp env pd (vt_cq vt) e = (e1, q1)" by fastforce
  obtain e2 q2 where q2: "create_qp env pd (vt_cq vt) e1 = (e2, q2)" by fastforce
  let ?Q = "Qp ` set_option q1 \<union> Qp ` set_option q2"
  have own1: "owns live B (transport_parts a vt \<union> Qp ` set_option q1) e1"
    using owns_create [OF own, where mk = Qp] owns_none [OF own, where mk = Qp] pg_laws_create(7) [OF laws q1 [unfolded create_qp_def]] by (cases q1) auto
  have own2: "owns live B (transport_parts a vt \<union> ?Q) e2"
    using owns_create [OF own1, where mk = Qp] owns_none [OF own1, where mk = Qp] pg_laws_create(7) [OF laws q2 [unfolded create_qp_def]]
    by (cases q2) (auto simp: Un_assoc)
  show ?thesis
  proof (cases "q1 = None \<or> q2 = None")
    case True
    let ?e3 = "destroy_qp_if (verbs env) q2 (destroy_qp_if (verbs env) q1 e2)"
    have "live ?e3 = live e2 - ?Q"
      using verbs_laws_release(2) [OF pg_laws_verbs [OF laws]] by (auto simp: destroy_qp_if_def split: option.split)
    then have "owns live B {} (delete_verbs_transport (verbs env) a vt ?e3)"
      by (intro delete_owner [OF laws own2]) (use own2 vt in \<open>auto simp: owns_def unconnected_def\<close>)
    then have "connected_ok env live B (vt_rank vt) (vt_world_size vt) (connect_failed PG_ERR_TRANSPORT (delete_verbs_transport (verbs env) a vt ?e3))"
      by (intro connected_okI) simp_all
    with True q1 q2 show ?thesis by (simp add: connect_queue_pairs_def)
  next
    case False
    then obtain k1 k2 where k: "q1 = Some k1" "q2 = Some k2" by auto
    let ?vt = "vt\<lparr>qp_next := Some k1, qp_prev := Some k2\<rparr>"
    have "transport_parts a ?vt = transport_parts a vt \<union> ?Q"
      using vt k by (auto simp: transport_parts_def owned_handles_def unconnected_def)
    with own2 have "owns live B (transport_parts a ?vt) e2" by simp
    then have "connected_ok env live B (vt_rank ?vt) (vt_world_size ?vt) (connect_ring env r n hosts port k1 k2 a ?vt e2)"
      by (rule connect_ring_ok [OF laws]) (use vt in \<open>simp add: unconnected_def sockets_unset_def\<close>)
    then show ?thesis
      using q1 q2 k by (simp add: connect_queue_pairs_def set_ring_qps_def)
  qed
qed

lemma construct_failed_live:
  assumes laws: "verbs_laws env live" and y: "construct_verbs_transport env r n (Some d) (Some pd) e = (e', Inl ex)"
  shows "live e' = live e"
proof -
  obtain e1 q where q: "ibv_create_cq env d 2048 e = (e1, q)" by fastforce
  have "creates live Cq e (e1, q)"
    using laws q unfolding verbs_laws_def by metis
  with y q show ?thesis
    by (cases q) (auto simp: construct_verbs_transport_def creates_def split: if_splits)
qed

lemma new_verbs_transport_owns:
  assumes laws: "pg_laws env live" and own: "owns live B {Device d, Pd pd} e"
    and new: "new_verbs_transport (verbs env) r n (Some d) (Some pd) e = (e', x)"
  shows "case x of Inl _ \<Rightarrow> owns live B {Device d, Pd pd} e'
    | Inr (a, vt) \<Rightarrow> owns live B (transport_parts a vt) e' \<and> unconnected vt \<and> vt_rank vt = r \<and> vt_world_size vt = n"
proof -
  obtain e1 ar where ar: "new_transport (verbs env) e = (e1, ar)" by fastforce
  note c = pg_laws_create(1) [OF laws ar]
  show ?thesis
  proof (cases ar)
    case None
    with new ar owns_none [OF own] c show ?thesis by (auto simp: new_verbs_transport_def)
  next
    case (Some a)
    have o1: "owns live B {Transport_object a, Device d, Pd pd} e1" "Transport_object a \<notin> B"
      using owns_create [OF own, where mk = Transport_object] c Some by auto
    obtain e2 y where y: "construct_verbs_transport (verbs env) r n (Some d) (Some pd) e1 = (e2, y)" by fastforce
    show ?thesis
    proof (cases y)
      case (Inl ex)
      have "live e2 = live e1"
        by (rule construct_failed_live [OF pg_laws_verbs [OF laws] y [unfolded Inl]])
      with o1 Inl new ar Some y show ?thesis
        by (auto simp: new_verbs_transport_def owns_def pg_laws_release [OF laws])
    next
      case (Inr vt)
      note made = constructed_inv [OF pg_laws_verbs [OF laws] y [unfolded Inr]]
      have vt: "unconnected vt" "vt_rank vt = r" "vt_world_size vt = n" "vt_pd vt = pd" "vt_context vt = d"
        using y Inr by (auto simp: construct_verbs_transport_def unconnected_def split: if_splits prod.splits option.splits)
      have "live e2 = insert (Cq (vt_cq vt)) (live e1)"
        using made(1) no_request_resources [OF made(3)] by (simp add: resources_inv_def)
      moreover have "transport_parts a vt = {Transport_object a, Cq (vt_cq vt), Pd pd, Device d}"
        using vt by (auto simp: transport_parts_def owned_handles_def unconnected_def)
      ultimately have "owns live B (transport_parts a vt) e2"
        using o1(1) made(2) by (auto simp: owns_def)
      with new ar Some y Inr vt show ?thesis by (auto simp: new_verbs_transport_def)
    qed
  qed
qed

lemma connect_transport_ok:
  assumes laws: "pg_laws env live" and own: "owns live B {Device d, Pd pd} e"
  shows "connected_ok env live B r n (connect_transport env r n hosts d pd e)"
proof -
  have released: "connected_ok env live B r n (connect_failed PG_ERR_TRANSPORT (ibv_close_device (verbs env) d (ibv_dealloc_pd (verbs env) pd e')))"
    if "owns live B {Device d, Pd pd} e'" for e'
    using that by (intro connected_okI) (auto simp: owns_def verbs_laws_release [OF pg_laws_verbs [OF laws]])
  obtain e1 port where port: "ibv_query_port env d 1 e = (e1, port)" by fastforce
  note own1 = owns_keep [OF own pg_laws_keep(1) [OF laws port]]
  obtain e2 x where x: "new_verbs_transport (verbs env) r n (Some d) (Some pd) e1 = (e2, x)" by fastforce
  note made = new_verbs_transport_owns [OF laws own1 x]
  show ?thesis
  proof (cases x)
    case Inl
    with made port x released [of e2] released [OF own1] show ?thesis
      by (simp add: connect_transport_def)
  next
    case (Inr y)
    obtain a vt where y: "y = (a, vt)" by fastforce
    from made Inr y have "owns live B (transport_parts a vt) e2" "unconnected vt" "vt_rank vt = r" "vt_world_size vt = n"
      by simp_all
    with connect_queue_pairs_ok [OF laws this(1,2)] Inr y port x released [OF own1] show ?thesis
      by (auto simp: connect_transport_def)
  qed
qed

text \<open>
  The one exception: a device list that was returned but holds no device is not freed.
\<close>

lemma connect_device_ok:
  assumes laws: "pg_laws env live" and own: "owns live B {} e"
  shows "connected_ok env live B r n (connect_device env r n hosts e) \<or>
    (\<exists>e' l. ibv_get_device_list env e = (e', Some (l, [])) \<and> connect_device env r n hosts e = connect_failed PG_ERR_TRANSPORT e' \<and>
      live e' = insert (Device_list l) (live e))"
proof -
  obtain e1 dl where dl: "ibv_get_device_list env e = (e1, dl)" by fastforce
  note c = pg_laws_create(4) [OF laws dl]
  show ?thesis
  proof (cases dl)
    case None
    with dl owns_none [OF own] c show ?thesis
      by (auto simp: connect_device_def intro!: connected_okI)
  next
    case (Some p)
    obtain l names where p: "p = (l, names)" by fastforce
    have o1: "owns live B {Device_list l} e1" "Device_list l \<notin> B"
      using owns_create [OF own c [unfolded Some p]] by simp_all
    show ?thesis
    proof (cases "names = []")
      case True
      with dl Some p c show ?thesis
        by (auto simp: connect_device_def creates_def)
    next
      case False
      obtain e2 opened where o: "ibv_open_device env (hd names) e1 = (e2, opened)" by fastforce
      let ?e3 = "ibv_free_device_list env l e2"
      note co = pg_laws_create(5) [OF laws o]
      obtain e4 pr where pr: "ibv_alloc_pd env (the opened) ?e3 = (e4, pr)" by fastforce
      note cp = pg_laws_create(6) [OF laws pr]
      show ?thesis
      proof (cases opened)
        case None
        with o1 co have "owns live B {} ?e3"
          by (auto simp: owns_def creates_def pg_laws_release [OF laws])
        with dl Some p o False None show ?thesis
          by (auto simp: connect_device_def intro!: connected_okI)
      next
        case od: (Some d)
        with o1 co have o3: "owns live B {Device d} ?e3"
          by (auto simp: owns_def creates_def pg_laws_release [OF laws])
        show ?thesis
        proof (cases pr)
          case None
          with cp o3 have "owns live B {} (ibv_close_device (verbs env) d e4)"
            by (auto simp: owns_def creates_def verbs_laws_release [OF pg_laws_verbs [OF laws]])
          with dl Some p o False od pr None show ?thesis
            by (auto simp: connect_device_def intro!: connected_okI)
        next
          case (Some pd)
          with cp od o3 have "owns live B {Device d, Pd pd} e4"
            by (auto simp: owns_def creates_def)
          from connect_transport_ok [OF laws this] \<open>dl = Some p\<close> dl p o False od pr Some show ?thesis
            by (auto simp: connect_device_def)
        qed
      qed
    qed
  qed
qed

end
