(* ===== verification/Process_Session.thy ===== *)
theory Process_Session
  imports Process_Connect Ring_Inflight
begin

text \<open>
  A process group over the verbs transport from the connect to the close: the collectives run
  call by call on the transport of the handle, whatever the other ranks and the network do, and
  whatever the calls answer.
\<close>

section \<open>Runs of programs\<close>

inductive runs :: "(call \<Rightarrow> 'w \<Rightarrow> ('w \<times> resp) option) \<Rightarrow> 'w \<Rightarrow> 'a prog \<Rightarrow> 'w \<Rightarrow> 'a \<Rightarrow> bool"
  for t :: "call \<Rightarrow> 'w \<Rightarrow> ('w \<times> resp) option" where
  runs_ret: "runs t w (Ret a) w a"
| runs_call: "t c w = Some (w1, x) \<Longrightarrow> runs t w1 (k x) w2 a \<Longrightarrow> runs t w (Call c k) w2 a"

inductive_cases runs_RetE [elim!]: "runs t w (Ret a) w' b"
inductive_cases runs_CallE [elim!]: "runs t w (Call c k) w' b"

lemma runs_bindE:
  assumes "runs t w (bind p f) w' b"
  obtains w1 a where "runs t w p w1 a" "runs t w1 (f a) w' b"
  using assms
proof (induction p arbitrary: w thesis)
  case (Ret a)
  show ?case
    by (rule Ret.prems(1) [OF runs_ret]) (use Ret.prems(2) in simp)
next
  case (Call c k)
  from Call.prems(2) obtain w1 x where x: "t c w = Some (w1, x)" "runs t w1 (bind (k x) f) w' b"
    by auto
  then obtain w2 a where "runs t w1 (k x) w2 a" "runs t w2 (f a) w' b"
    using Call.IH [of "k x" w1] by (metis rangeI)
  with x(1) Call.prems(1) runs_call show ?case by metis
qed

lemma runs_outcome: "runs t w p w' a \<Longrightarrow> in_flight_within b Q p n \<Longrightarrow> \<exists>m. Q a m"
  by (induction arbitrary: n rule: runs.induct) auto

lemma runs_invariant:
  assumes "runs t w p w' a" and "I w" and "\<And>c w w' x. I w \<Longrightarrow> t c w = Some (w', x) \<Longrightarrow> I w'"
  shows "I w'"
  using assms(1,2) by (induction rule: runs.induct) (auto intro: assms(3))

section \<open>The transport calls of a collective\<close>

definition connection :: "VerbsTransport \<Rightarrow> nat option \<times> nat option \<times> int \<times> int" where
  "connection vt = (qp_next vt, qp_prev vt, next_socket vt, previous_socket vt)"

lemma add_request_connection: "add_request env k tag mode mr vt e = (e', vt', r) \<Longrightarrow> connection vt' = connection vt"
  by (auto simp: add_request_def connection_def split: prod.splits option.splits)

lemma drop_request_connection: "drop_request env a mr vt e = (e', vt') \<Longrightarrow> connection vt' = connection vt"
  by (auto simp: drop_request_def connection_def)

lemma post_receive_connection:
  "post_receive_previous env buffer n tag mode rq vt e = Some (e', vt', rq', x) \<Longrightarrow> connection vt' = connection vt"
  by (auto simp: post_receive_previous_def Let_def split: if_splits sum.splits option.splits prod.splits
      dest!: add_request_connection drop_request_connection)

lemma post_send_connection:
  "post_send_next env buffer n tag mode rq vt e = Some (e', vt', rq', x) \<Longrightarrow> connection vt' = connection vt"
  by (auto simp: post_send_next_def Let_def split: if_splits sum.splits option.splits prod.splits
      dest!: add_request_connection drop_request_connection)

lemma connection_poll_invariant: "poll_invariant env (\<lambda>vt e. connection vt = C)"
  by (auto simp: poll_invariant_def handle_completion_def connection_def Let_def split: if_splits option.splits)

lemma wait_connection:
  assumes "wait_request env rq vt e = Some (e', vt', rq', x)"
  shows "connection vt' = connection vt"
proof -
  have "connection vt1 = connection vt" if "wait_completed env a vt e = Some (e1, vt1, y)" for a e1 vt1 y
    using wait_completed_invariant [OF connection_poll_invariant refl that] by blast
  moreover have "connection (vt1\<lparr>pending_requests := p\<rparr>) = connection vt1" for vt1 p
    by (simp add: connection_def)
  ultimately show ?thesis
    using assms by (auto simp: wait_request_def consume_request_def Let_def split: if_splits option.splits sum.splits)
qed

text \<open>Only a failing allocation throws \<open>std::bad_alloc\<close>.\<close>

lemma no_bad_alloc:
  assumes "\<And>e. snd (new_state env e) \<noteq> None"
  shows "post_send_next env buffer n tag mode rq vt e = Some (e', vt', rq', Inl x) \<Longrightarrow> x \<noteq> Bad_alloc"
    and "post_receive_previous env buffer n tag mode rq vt e = Some (e', vt', rq', Inl x) \<Longrightarrow> x \<noteq> Bad_alloc"
proof -
  have add: "add_request env k tag mode mr vt e \<noteq> (e1, vt1, Inl y)" for k tag mode mr vt e e1 vt1 y
    using assms [of e] by (auto simp: add_request_def split: prod.splits option.splits)
  have reg: "register_memory env vt p n lw rw e \<noteq> (e1, Inl Bad_alloc)" for vt p n lw rw e e1
    by (auto simp: register_memory_def split: if_splits prod.splits option.splits)
  have mode: "choose_mode m n \<noteq> Inl Bad_alloc" for m n
    by (auto simp: choose_mode_def split: if_splits)
  show "post_send_next env buffer n tag mode rq vt e = Some (e', vt', rq', Inl x) \<Longrightarrow> x \<noteq> Bad_alloc"
    by (auto simp: post_send_next_def Let_def add reg mode split: if_splits sum.splits option.splits prod.splits)
  show "post_receive_previous env buffer n tag mode rq vt e = Some (e', vt', rq', Inl x) \<Longrightarrow> x \<noteq> Bad_alloc"
    by (auto simp: post_receive_previous_def Let_def add reg mode split: if_splits sum.splits option.splits prod.splits)
qed

text \<open>
  A call of a collective on the transport at \<open>a\<close>; \<open>get\<close> and \<open>put\<close> are the process's memory.
\<close>

definition verbs_call :: "'e verbs_env \<Rightarrow> nat \<Rightarrow> ('e \<Rightarrow> memory) \<Rightarrow> (memory \<Rightarrow> 'e \<Rightarrow> 'e) \<Rightarrow> call \<Rightarrow> 'e verbs_world \<Rightarrow>
    ('e verbs_world \<times> resp) option" where
  "verbs_call env a get put c w =
     exec_call (snd (get_c_transport env a)) (\<lambda>(e, vt). get e) (\<lambda>m (e, vt). (put m e, vt)) c w"

definition session_inv :: "('e \<Rightarrow> resource set) \<Rightarrow> resource set \<Rightarrow> VerbsTransport \<Rightarrow> 'e verbs_world \<Rightarrow> bool" where
  "session_inv live B v0 w =
     (\<exists>e v. w = (e, Some v) \<and> resources_inv live B (handles v0) v e \<and> connection v = connection v0)"

lemma verbs_call_cases:
  assumes "verbs_call env a get put c (e, Some v) = Some (w', x)"
  obtains (sends) buffer n tag mode rq e' v' rq' y where "post_send_next env buffer n tag mode rq v e = Some (e', v', rq', y)" "w' = (e', Some v')"
  | (receives) buffer n tag mode rq e' v' rq' y where "post_receive_previous env buffer n tag mode rq v e = Some (e', v', rq', y)" "w' = (e', Some v')"
  | (waits) rq e' v' rq' y where "wait_request env rq v e = Some (e', v', rq', y)" "w' = (e', Some v')"
  | (memory) m where "w' = (put m e, Some v)"
proof (cases c)
  case (Post_send_next buffer n tag mode rq)
  with assms that(1) show thesis
    by (force simp: verbs_call_def exec_call_def get_c_transport_def verbs_operations_def verbs_post_send_next_def verbs_implementation_of_def)
next
  case (Post_recv_prev buffer n tag mode rq)
  with assms that(2) show thesis
    by (force simp: verbs_call_def exec_call_def get_c_transport_def verbs_operations_def verbs_post_recv_prev_def verbs_implementation_of_def)
next
  case (Wait rq)
  with assms that(3) show thesis
    by (force simp: verbs_call_def exec_call_def get_c_transport_def verbs_operations_def verbs_wait_def verbs_implementation_of_def)
qed (use assms that(4) in \<open>auto simp: verbs_call_def exec_call_def get_c_transport_def split: option.splits\<close>)

lemma session_inv_call:
  assumes laws: "verbs_laws env live" and alloc: "\<And>e. snd (new_state env e) \<noteq> None" and put: "\<And>m e. live (put m e) = live e"
    and inv: "session_inv live B v0 w" and call: "verbs_call env a get put c w = Some (w', x)"
  shows "session_inv live B v0 w'"
proof -
  obtain e v where w: "w = (e, Some v)" and v: "resources_inv live B (handles v0) v e" "connection v = connection v0"
    using inv by (auto simp: session_inv_def)
  show ?thesis
    using call [unfolded w]
  proof (cases rule: verbs_call_cases)
    case (sends buffer n tag mode rq e' v' rq' y)
    then have "y \<noteq> Inl Bad_alloc"
      using no_bad_alloc(1) [OF alloc] by blast
    with sends resources_inv_post_send [OF laws v(1) sends(1)] post_send_connection [OF sends(1)] v(2) show ?thesis
      by (simp add: session_inv_def)
  next
    case (receives buffer n tag mode rq e' v' rq' y)
    then have "y \<noteq> Inl Bad_alloc"
      using no_bad_alloc(2) [OF alloc] by blast
    with receives resources_inv_post_receive [OF laws v(1) receives(1)] post_receive_connection [OF receives(1)] v(2) show ?thesis
      by (simp add: session_inv_def)
  next
    case (waits rq e' v' rq' y)
    with resources_inv_wait [OF laws v(1) waits(1)] wait_connection [OF waits(1)] v(2) show ?thesis
      by (simp add: session_inv_def)
  next
    case (memory m)
    have "live (put m e) = live e" by (rule put)
    with memory v show ?thesis by (simp add: session_inv_def resources_inv_def)
  qed
qed

section \<open>Sessions\<close>

text \<open>Any number of All-Reduce calls on a handle, each run to its end with whatever status.\<close>

inductive pg_session :: "(call \<Rightarrow> 'w \<Rightarrow> ('w \<times> resp) option) \<Rightarrow> 'w \<Rightarrow> 'w ProcessGroupHandle \<Rightarrow> 'w \<Rightarrow> 'w ProcessGroupHandle \<Rightarrow> bool"
  for t :: "call \<Rightarrow> 'w \<Rightarrow> ('w \<times> resp) option" where
  opened: "pg_session t w hl w hl"
| reduced: "pg_session t w hl w1 hl1 \<Longrightarrow>
    runs t w1 (pg_all_reduce sendbuf recvbuf count dt oper (Some hl1)) w2 (status, Some hl2) \<Longrightarrow> pg_session t w hl w2 hl2"

text \<open>An All-Reduce changes of the handle at most the layout and the sequence number of the context.\<close>

lemma pg_all_reduce_handle:
  assumes "runs t w (pg_all_reduce sendbuf recvbuf count dt oper (Some hl)) w' (status, hl')" and "collectives hl = Some ctx"
  shows "\<exists>ctx'. hl' = Some (hl\<lparr>collectives := Some ctx'\<rparr>) \<and> temporary_buffer ctx' = temporary_buffer ctx"
proof (cases "sendbuf = NullPtr \<or> recvbuf = NullPtr \<or> count \<le> 0")
  case True
  with assms have "hl' = Some hl"
    by (auto simp: pg_all_reduce_def)
  with assms(2) show ?thesis
    by (intro exI [of _ ctx]) (cases hl, simp)
next
  case False
  with assms obtain w1 s c where r: "runs t w (ring_all_reduce (Some ctx) sendbuf recvbuf (nat count) dt oper) w1 (s, c)"
      and hl': "hl' = Some (hl\<lparr>collectives := c\<rparr>)"
    by (auto simp: pg_all_reduce_def elim!: runs_bindE)
  obtain m where "all_reduce_outcome ctx (s, c) m"
    using runs_outcome [OF r in_flight_all_reduce] by blast
  then obtain ctx' where "c = Some ctx'" "temporary_buffer ctx' = temporary_buffer ctx"
    by (auto simp: all_reduce_outcome_def)
  with hl' show ?thesis by blast
qed

lemma pg_session_handle:
  assumes "pg_session t w hl w' hl'" and "collectives hl = Some ctx"
  shows "\<exists>ctx'. hl' = hl\<lparr>collectives := Some ctx'\<rparr> \<and> temporary_buffer ctx' = temporary_buffer ctx"
  using assms
proof (induction rule: pg_session.induct)
  case (opened w hl)
  then show ?case by (intro exI [of _ ctx]) (cases hl, simp)
next
  case (reduced w hl w1 hl1 sendbuf recvbuf count dt oper w2 status hl2)
  then obtain ctx1 where c: "hl1 = hl\<lparr>collectives := Some ctx1\<rparr>" "temporary_buffer ctx1 = temporary_buffer ctx" by blast
  then have "collectives hl1 = Some ctx1" by simp
  with pg_all_reduce_handle [OF reduced.hyps(2) this] c show ?case by auto
qed

lemma pg_session_inv:
  assumes "pg_session t w hl w' hl'" and "I w" and "\<And>c w w' x. I w \<Longrightarrow> t c w = Some (w', x) \<Longrightarrow> I w'"
  shows "I w'"
  using assms(1,2)
proof (induction rule: pg_session.induct)
  case (reduced w hl w1 hl1 sendbuf recvbuf count dt oper w2 status hl2)
  show ?case
    using runs_invariant [where I = I, OF reduced.hyps(2) reduced.IH [OF reduced.prems]] assms(3) by metis
qed

text \<open>Closing the handle releases the context, the transport with its pending requests, and the handle.\<close>

lemma pg_close_verbs:
  assumes laws: "pg_laws env live" and "distinct (map fst (pending_requests v))"
    and "handle_transport hl = get_c_transport (verbs env) a" and "owns_transport hl" and "collectives hl = Some ctx"
  shows "\<exists>e'. pg_close (lift_objects (objects env)) (Some (h, hl)) (e, Some v) = ((e', None), PG_SUCCESS) \<and>
    live e' = live e - request_resources v - transport_parts a v - {Handle_object h, Context_object (temporary_buffer ctx)}"
proof -
  let ?e1 = "delete_verbs_transport (verbs env) a v (delete_context (objects env) (temporary_buffer ctx) e)"
  have "pg_close (lift_objects (objects env)) (Some (h, hl)) (e, Some v) = ((delete_handle (objects env) h ?e1, None), PG_SUCCESS)"
    using assms(3-) by (simp add: pg_close_def ring_collective_destroy_def lift_objects_def pg_transport_destroy_def
        get_c_transport_def verbs_operations_def verbs_destroy_def verbs_implementation_of_def)
  moreover have "live (delete_handle (objects env) h ?e1) =
      live e - {Context_object (temporary_buffer ctx)} - request_resources v - transport_parts a v - {Handle_object h}"
    by (simp only: pg_laws_release [OF laws] delete_verbs_live [OF laws assms(2)])
  ultimately show ?thesis by auto
qed

lemma session_closed:
  assumes laws: "pg_laws env live" and alloc: "\<And>e. snd (new_state (verbs env) e) \<noteq> None" and put: "\<And>m e. live (put m e) = live e"
    and own: "owns live B (transport_parts a v \<union> {Handle_object h, Context_object (temporary_buffer ctx)}) e"
    and v: "pending_requests v = []" and hl: "hl = \<lparr>handle_transport = get_c_transport (verbs env) a, collectives = Some ctx, owns_transport = True\<rparr>"
    and session: "pg_session (verbs_call (verbs env) a get put) (e, Some v) hl w hl'"
  shows "\<exists>e'. pg_close (lift_objects (objects env)) (Some (h, hl')) w = ((e', None), PG_SUCCESS) \<and> live e' = B"
proof -
  have "resources_inv live (live e) (handles v) v e"
    using no_request_resources [OF v] v by (simp add: resources_inv_def pend_def region_of_def dom_def)
  then have "session_inv live (live e) v (e, Some v)"
    by (simp add: session_inv_def)
  moreover have "session_inv live (live e) v w2" if "session_inv live (live e) v w1" "verbs_call (verbs env) a get put c w1 = Some (w2, x)" for c w1 w2 x
    by (rule session_inv_call [where put = put and get = get and env = "verbs env", OF pg_laws_verbs [OF laws] alloc _ that]) (rule put)
  ultimately have "session_inv live (live e) v w"
    using pg_session_inv [where I = "session_inv live (live e) v", OF session] by metis
  then obtain e1 v1 where w: "w = (e1, Some v1)" and inv: "resources_inv live (live e) (handles v) v1 e1" "connection v1 = connection v"
    by (auto simp: session_inv_def)
  obtain ctx' where hl': "hl' = hl\<lparr>collectives := Some ctx'\<rparr>" "temporary_buffer ctx' = temporary_buffer ctx"
    using pg_session_handle [OF session, of ctx] hl by auto
  have v1: "distinct (map fst (pending_requests v1))" "handles v1 = handles v" "live e1 = live e \<union> request_resources v1"
      "live e \<inter> request_resources v1 = {}"
    using inv(1) by (simp_all add: resources_inv_def)
  have parts: "transport_parts a v1 = transport_parts a v"
    using v1(2) inv(2) by (simp add: transport_parts_def owned_handles_def connection_def handles_def)
  have "\<exists>e'. pg_close (lift_objects (objects env)) (Some (h, hl')) (e1, Some v1) = ((e', None), PG_SUCCESS) \<and>
    live e' = live e1 - request_resources v1 - transport_parts a v1 - {Handle_object h, Context_object (temporary_buffer ctx')}"
    by (rule pg_close_verbs [OF laws v1(1)]) (simp_all add: hl hl'(1))
  moreover have "live e1 - request_resources v1 - transport_parts a v1 - {Handle_object h, Context_object (temporary_buffer ctx')} = B"
  proof -
    have "live e1 - request_resources v1 = live e"
      using v1(3,4) by blast
    moreover have "live e - transport_parts a v - {Handle_object h, Context_object (temporary_buffer ctx)} = B"
      using own unfolding owns_def by blast
    ultimately show ?thesis by (simp only: parts hl'(2))
  qed
  ultimately show ?thesis by (simp add: w)
qed

end
