(* ===== verification/Process_Properties.thy ===== *)
theory Process_Properties
  imports Process_Session
begin

text \<open>
  What the public entry points guarantee: how they read their configuration, how the ranks find
  each other, what becomes of the queue pairs, and that every resource made by a connect is
  released again, at once when it fails and by \<open>pg_close\<close> when it succeeds.
\<close>

section \<open>Numbers and hosts from the environment\<close>

text \<open>A number as \<open>strtol\<close> takes it without sign or with a plus.\<close>

definition number_text :: "string \<Rightarrow> nat \<Rightarrow> bool" where
  "number_text s v =
     (\<exists>ws sign ds. s = ws @ sign @ ds \<and> list_all is_space ws \<and> sign \<in> {[], [CHR ''+'']} \<and> ds \<noteq> [] \<and> list_all is_digit ds \<and>
       digits_value ds = v)"

lemma strtol_number:
  assumes "number_text s v" and "int v \<le> 2 ^ 63 - 1"
  shows "strtol s = (int v, [], False)" and "s \<noteq> []"
proof -
  obtain ws sign ds where s: "s = ws @ sign @ ds" "\<forall>c\<in>set ws. is_space c" "sign \<in> {[], [CHR ''+'']}" "ds \<noteq> []"
      "\<forall>c\<in>set ds. is_digit c" "digits_value ds = v"
    using assms(1) by (auto simp: number_text_def list_all_iff)
  obtain d ds' where ds: "ds = d # ds'" using s(4) by (cases ds) auto
  have d: "\<not> is_space d" "d \<noteq> CHR ''-''" "d \<noteq> CHR ''+''"
    using digit_not_space [of d] s(5) ds by simp_all
  have "dropWhile is_space s = sign @ ds"
    using s(2,3) d(1) by (auto simp: s(1) ds is_space_def)
  moreover have "takeWhile is_digit ds = ds" "dropWhile is_digit ds = []"
    using s(5) by (simp_all add: takeWhile_eq_all_conv dropWhile_eq_Nil_conv)
  ultimately show "strtol s = (int v, [], False)"
    using s(3,4,6) d assms(2) by (auto simp: strtol_def Let_def ds simp del: takeWhile_eq_all_conv dropWhile_eq_Nil_conv)
  show "s \<noteq> []" using s(4) by (simp add: s(1))
qed

lemma strtol_positive:
  assumes "strtol s = (v, [], False)" and "0 < v"
  shows "number_text s (nat v)"
proof -
  define s1 where "s1 = dropWhile is_space s"
  define s2 where "s2 = (if s1 \<noteq> [] \<and> hd s1 \<in> {CHR ''-'', CHR ''+''} then tl s1 else s1)"
  define ds where "ds = takeWhile is_digit s2"
  define rest where "rest = dropWhile is_digit s2"
  define w where "w = (if s1 \<noteq> [] \<and> hd s1 = CHR ''-'' then - int (digits_value ds) else int (digits_value ds))"
  have "strtol s = (if ds = [] then (0, s, False) else if w > 2 ^ 63 - 1 then (2 ^ 63 - 1, rest, True)
      else if w < - (2 ^ 63) then (- (2 ^ 63), rest, True) else (w, rest, False))"
    by (simp only: strtol_def Let_def s1_def s2_def ds_def rest_def w_def)
  with assms have "ds \<noteq> []" and rest: "rest = []" and w: "v = w"
    by (auto split: if_splits)
  have neg: "\<not> (s1 \<noteq> [] \<and> hd s1 = CHR ''-'')" and v: "v = int (digits_value ds)"
    using assms(2) w by (auto simp: w_def split: if_splits)
  obtain sign where sign: "s1 = sign @ s2" "sign \<in> {[], [CHR ''+'']}"
  proof
    show "s1 = (if s1 \<noteq> [] \<and> hd s1 = CHR ''+'' then [CHR ''+''] else []) @ s2"
      using neg by (cases s1) (auto simp: s2_def)
  qed auto
  have "s2 = ds"
    using rest takeWhile_dropWhile_id [of is_digit s2] unfolding ds_def [symmetric] rest_def [symmetric] by simp
  with sign(1) have "s = takeWhile is_space s @ sign @ ds"
    using takeWhile_dropWhile_id [of is_space s] by (simp add: s1_def)
  moreover have "list_all is_space (takeWhile is_space s)" "list_all is_digit ds"
    by (auto simp: list_all_iff ds_def dest: set_takeWhileD)
  ultimately show ?thesis
    using \<open>ds \<noteq> []\<close> v sign(2) unfolding number_text_def by (metis nat_int)
qed

text \<open>
  C39. A positive integer setting: empty gives the default; otherwise it is accepted exactly when
  it is a decimal number, with leading white space and a plus at most, between 1 and the largest
  \<open>int\<close>, and is then that number; anything else is the exception that names it. What
  \<open>std::to_string\<close> prints is read back.
\<close>

theorem environment_int:
  assumes "getenv env name = Some s"
  shows "(\<forall>v. parse_positive_environment_int env name d = Inr v \<longleftrightarrow>
      (if s = [] then v = d else \<exists>n. number_text s n \<and> 0 < n \<and> n < 2 ^ 31 \<and> v = int n)) \<and>
    (\<forall>x. parse_positive_environment_int env name d = Inl x \<longrightarrow> x = Invalid_environment_value name s) \<and>
    (\<forall>n. s = to_string n \<and> 0 < n \<and> n < 2 ^ 31 \<longrightarrow> parse_positive_environment_int env name d = Inr n)"
proof -
  obtain v rest er where r: "strtol s = (v, rest, er)" by (cases "strtol s")
  have iff: "parse_positive_environment_int env name d = Inr u \<longleftrightarrow> (\<exists>n. number_text s n \<and> 0 < n \<and> n < 2 ^ 31 \<and> u = int n)" if "s \<noteq> []" for u
  proof
    assume "parse_positive_environment_int env name d = Inr u"
    with that assms r have "\<not> er" "rest = []" "0 < v" "v < 2 ^ 31" "u = v"
      by (auto simp: parse_positive_environment_int_def split: if_splits)
    with strtol_positive [of s v] r show "\<exists>n. number_text s n \<and> 0 < n \<and> n < 2 ^ 31 \<and> u = int n"
      by (intro exI [of _ "nat v"]) auto
  next
    assume "\<exists>n. number_text s n \<and> 0 < n \<and> n < 2 ^ 31 \<and> u = int n"
    then obtain n where n: "number_text s n" "0 < n" "n < 2 ^ 31" "u = int n" by blast
    then have "strtol s = (int n, [], False)"
      by (intro strtol_number) simp_all
    with n that assms show "parse_positive_environment_int env name d = Inr u"
      by (simp add: parse_positive_environment_int_def)
  qed
  have "number_text (to_string n) (nat n)" if "0 < n" for n
    using that nat_string_digits [of "nat n"]
    unfolding number_text_def
    by (intro exI [of _ "[]"] exI [of _ "nat_string (nat n)"]) (simp add: to_string_def list_all_iff digits_value_nat_string)
  with iff have "parse_positive_environment_int env name d = Inr n" if "s = to_string n" "0 < n" "n < 2 ^ 31" for n
    using that by (auto simp: to_string_def nat_less_iff intro!: exI [of _ "nat n"])
  moreover have "x = Invalid_environment_value name s" if "parse_positive_environment_int env name d = Inl x" for x
    using that assms by (auto simp: parse_positive_environment_int_def split: if_splits prod.splits)
  moreover have "s = [] \<Longrightarrow> parse_positive_environment_int env name d = Inr d"
    using assms by (simp add: parse_positive_environment_int_def)
  ultimately show ?thesis using iff by auto
qed

text \<open>A concrete outside for the whole process: \<open>vars\<close> is the environment of the process.\<close>

definition grow_socket :: "outside \<Rightarrow> outside \<times> int" where
  "grow_socket e = (e\<lparr>o_live := Socket (int (fresh_handle e)) # o_live e\<rparr>, int (fresh_handle e))"

definition demo_pg :: "(string \<times> string) list \<Rightarrow> outside pg_env" where
  "demo_pg vars = \<lparr>verbs = demo_env, getenv = map_of vars,
     ibv_get_device_list = (\<lambda>e. (fst (grow Device_list e), Some (fresh_handle e, [0]))),
     ibv_free_device_list = (\<lambda>l. shrink (Device_list l)),
     ibv_open_device = (\<lambda>d. grow Device), ibv_alloc_pd = (\<lambda>d. grow Pd),
     ibv_query_port = (\<lambda>d p e. (e, Some \<lparr>port_active = True, port_lid = 3\<rparr>)),
     ibv_create_qp = (\<lambda>pd attr. grow Qp), qp_num = word_of_nat, ibv_modify_qp = (\<lambda>q attr m e. (e, 0)),
     tcp_socket = grow_socket, set_reuse_address = (\<lambda>fd e. e), sys_bind_any = (\<lambda>fd p e. (e, 0)),
     sys_listen = (\<lambda>fd k e. (e, 0)), sys_accept = (\<lambda>fd e. Some (grow_socket e)),
     getaddrinfo = (\<lambda>h p e. (fst (grow Address_list e),
       Some (fresh_handle e, [\<lparr>ai_family = 2, ai_socktype = 1, ai_protocol = 6, ai_addr = 0\<rparr>]))),
     freeaddrinfo = (\<lambda>l. shrink (Address_list l)), sys_socket = (\<lambda>f t p. grow_socket),
     sys_connect = (\<lambda>fd a e. (e, 0)), usleep = (\<lambda>t e. e),
     objects = \<lparr>new_context = grow Context_object, delete_context = (\<lambda>a. shrink (Context_object a)),
       new_handle = grow Handle_object, delete_handle = (\<lambda>a. shrink (Handle_object a))\<rparr>\<rparr>"

lemma demo_pg_laws: "pg_laws (demo_pg vars) demo_live"
proof -
  have list: "creates demo_live (\<lambda>l. mk (fst l)) e (fst (grow mk e), Some (fresh_handle e, x))"
    if "\<And>n. handle_number (mk n) = n" for mk :: "nat \<Rightarrow> resource" and e and x :: 'x
    using grow_creates [OF that, of e] by (auto simp: creates_def grow_def demo_live_def)
  have socket: "creates_socket demo_live e (grow_socket e)" for e
    using handle_number_fresh [of "Socket (int (fresh_handle e))" e]
    by (auto simp: creates_socket_def grow_socket_def demo_live_def)
  show ?thesis
    unfolding pg_laws_def demo_pg_def
    by (simp add: demo_laws list socket grow_creates) (auto simp: demo_env_def grow_creates demo_live_def shrink_def socket)
qed

lemma demo_getenv [simp]: "getenv (demo_pg vars) = map_of vars"
  by (simp add: demo_pg_def)

theorem environment_int_witness:
  "parse_positive_environment_int (demo_pg [(''N'', ''12'')]) ''N'' 4 = Inr 12"
proof -
  have n: "''12'' = to_string 12"
    by code_simp
  have "getenv (demo_pg [(''N'', ''12'')]) ''N'' = Some ''12''"
    by simp
  note environment_int [OF this, of 4, THEN conjunct2, THEN conjunct2, THEN spec [of _ 12]]
  with n show ?thesis by simp
qed

section \<open>Hosts\<close>

fun join_hosts :: "string list \<Rightarrow> string" where
  "join_hosts [] = []"
| "join_hosts [host] = host"
| "join_hosts (host # hosts) = host @ CHR '','' # join_hosts hosts"

lemma host_names_Nil [simp]: "host_names [] = []"
  by (subst host_names.simps) simp

lemma host_names_last: "CHR '','' \<notin> set h \<Longrightarrow> h \<noteq> [] \<Longrightarrow> host_names h = [h]"
proof -
  assume h: "CHR '','' \<notin> set h" "h \<noteq> []"
  then have "takeWhile (\<lambda>c. c \<noteq> CHR '','') h = h"
    by (subst takeWhile_eq_all_conv) auto
  with h(2) show ?thesis by (subst host_names.simps) (simp add: Let_def del: takeWhile_eq_all_conv)
qed

lemma host_names_comma: "CHR '','' \<notin> set h \<Longrightarrow> host_names (h @ CHR '','' # s) = (if h = [] then host_names s else h # host_names s)"
proof -
  assume "CHR '','' \<notin> set h"
  then have "takeWhile (\<lambda>c. c \<noteq> CHR '','') (h @ CHR '','' # s) = h"
    by (induction h) auto
  then show ?thesis by (subst host_names.simps) simp
qed

lemma host_names_join:
  "\<forall>h\<in>set hosts. h \<noteq> [] \<and> CHR '','' \<notin> set h \<Longrightarrow> host_names (join_hosts hosts) = hosts"
  by (induction hosts rule: join_hosts.induct) (simp_all add: host_names_last host_names_comma)

text \<open>A stream without a comma, or a name, a comma and the rest.\<close>

lemma host_names_cases:
  obtains (last) "CHR '','' \<notin> set s" | (comma) h r where "s = h @ CHR '','' # r" "CHR '','' \<notin> set h"
  using split_list_first [of "CHR '',''" s] by blast

lemma host_names_proper:
  "(\<forall>h\<in>set (host_names s). h \<noteq> [] \<and> CHR '','' \<notin> set h) \<and> (host_names s = [] \<longleftrightarrow> (\<forall>c\<in>set s. c = CHR '',''))"
proof (induction "length s" arbitrary: s rule: less_induct)
  case less
  show ?case
  proof (cases rule: host_names_cases [of s])
    case last
    show ?thesis
    proof (cases "s = []")
      case False
      then have "\<not> (\<forall>c\<in>set s. c = CHR '','')"
        using last by (metis list.set_intros(1) neq_Nil_conv)
      with False last show ?thesis by (simp add: host_names_last [OF last False])
    qed simp
  next
    case (comma h r)
    have "(\<forall>h\<in>set (host_names r). h \<noteq> [] \<and> CHR '','' \<notin> set h) \<and> (host_names r = [] \<longleftrightarrow> (\<forall>c\<in>set r. c = CHR '',''))"
    proof (rule less)
      show "length r < length s"
        unfolding comma(1) by simp
    qed
    moreover have "(\<forall>c\<in>set h. c = CHR '','') \<longleftrightarrow> h = []"
      using comma(2) by (cases h) auto
    ultimately show ?thesis
      unfolding comma(1) host_names_comma [OF comma(2)] using comma(2) by (cases "h = []") auto
  qed
qed



section \<open>The ring\<close>

lemma smod_not_negative: "0 \<le> v \<Longrightarrow> 0 < m \<Longrightarrow> v smod m = v mod (m :: int)"
  by (cases "v = 0") (simp_all add: signed_modulo_int_def signed_divide_int_def minus_div_mult_eq_mod)

lemma exchange_from_to: "exchange_from_bytes (exchange_to_bytes d) = d"
proof -
  have w: "word_of_nat (le_value (le_bytes 4 (unat x))) = x" for x :: "32 word"
    using word_le_bytes [of x] by (simp del: le_bytes_numeral)
  have h: "word_of_nat (le_value (le_bytes 2 (unat x))) = x" for x :: "16 word"
    using word_le_bytes [of x] by (simp del: le_bytes_numeral)
  show ?thesis
    by (simp add: exchange_from_bytes_def exchange_to_bytes_def word_at_def slice_def w h del: le_bytes_numeral)
qed

lemma length_exchange_to_bytes [simp]: "length (exchange_to_bytes d) = 8"
  by (simp add: exchange_to_bytes_def del: le_bytes_numeral)



section \<open>Queue pairs\<close>

text \<open>
  The attributes the manual of \<open>ibv_modify_qp\<close> requires for each step of a reliable connection,
  and a device that makes every step it is asked for with these: \<open>st\<close> is the state of a queue
  pair, \<open>peer\<close> the queue pair and port it is connected to.
\<close>

fun rc_required :: "ibv_qp_state \<Rightarrow> ibv_qp_state \<Rightarrow> ibv_qp_attr_mask set option" where
  "rc_required IBV_QPS_RESET IBV_QPS_INIT = Some {IBV_QP_STATE, IBV_QP_PKEY_INDEX, IBV_QP_PORT, IBV_QP_ACCESS_FLAGS}"
| "rc_required IBV_QPS_INIT IBV_QPS_RTR = Some {IBV_QP_STATE, IBV_QP_AV, IBV_QP_PATH_MTU, IBV_QP_DEST_QPN, IBV_QP_RQ_PSN,
     IBV_QP_MAX_DEST_RD_ATOMIC, IBV_QP_MIN_RNR_TIMER}"
| "rc_required IBV_QPS_RTR IBV_QPS_RTS = Some {IBV_QP_STATE, IBV_QP_SQ_PSN, IBV_QP_MAX_QP_RD_ATOMIC, IBV_QP_RETRY_CNT,
     IBV_QP_RNR_RETRY, IBV_QP_TIMEOUT}"
| "rc_required _ _ = None"

definition rc_device :: "'e pg_env \<Rightarrow> ('e \<Rightarrow> nat \<Rightarrow> ibv_qp_state) \<Rightarrow> ('e \<Rightarrow> nat \<Rightarrow> 32 word \<times> 16 word) \<Rightarrow> bool" where
  "rc_device env st peer =
     (\<forall>e q attr mask required. rc_required (st e q) (qp_state attr) = Some required \<and> required \<subseteq> mask \<longrightarrow>
       (\<exists>e'. ibv_modify_qp env q attr mask e = (e', 0) \<and> st e' = (st e)(q := qp_state attr) \<and>
         peer e' = (if IBV_QP_DEST_QPN \<in> mask \<and> IBV_QP_AV \<in> mask then (peer e)(q := (dest_qp_num attr, ah_dlid attr)) else peer e)))"


text \<open>A device that is its queue pairs, refusing every other step.\<close>

definition table_modify :: "nat \<Rightarrow> ibv_qp_attr \<Rightarrow> ibv_qp_attr_mask set \<Rightarrow> (nat \<Rightarrow> ibv_qp_state \<times> 32 word \<times> 16 word) \<Rightarrow>
    (nat \<Rightarrow> ibv_qp_state \<times> 32 word \<times> 16 word) \<times> int" where
  "table_modify q attr ms e =
     (case rc_required (fst (e q)) (qp_state attr) of
        None \<Rightarrow> (e, 22)
      | Some required \<Rightarrow>
          if required \<subseteq> ms then
            (e(q := (qp_state attr,
               if IBV_QP_DEST_QPN \<in> ms \<and> IBV_QP_AV \<in> ms then (dest_qp_num attr, ah_dlid attr) else snd (e q))), 0)
          else (e, 22))"


section \<open>Connect and close\<close>


definition demo_start :: "byte \<Rightarrow> outside" where
  "demo_start ready = \<lparr>o_live = [], o_input = [9, 0, 0, 0, 3, 0, 0, 0, 8, 0, 0, 0, 3, 0, 0, 0, ready, 1], o_completions = []\<rparr>"

definition demo_vars :: "(string \<times> string) list" where
  "demo_vars = [(''RANK'', ''1''), (''WORLD_SIZE'', ''2'')]"

definition connect_code :: "'e connected \<Rightarrow> int option" where
  "connect_code r = map_option (\<lambda>(w, code, h). code) r"

lemma connect_code_simps [simp]: "connect_code (Some (w, code, h)) = Some code" "connect_code None = None"
  by (simp_all add: connect_code_def)

lemma demo_write_all: "write_all demo_env fd bs e = Some (e, True)"
  by (cases "bs = []") (simp_all add: write_all.simps demo_env_def)

lemma demo_read_all: "0 < n \<Longrightarrow> n \<le> length (o_input e) \<Longrightarrow>
    read_all demo_env fd n [] e = Some (e\<lparr>o_input := drop n (o_input e)\<rparr>, take n (o_input e), True)"
  by (subst read_all.simps) (auto simp: demo_env_def read_all.simps)

lemma demo_numbers: "atoi ''1'' = 1" "atoi ''2'' = 2"
  by code_simp+

lemma demo_pg_fields [simp]:
  "verbs (demo_pg vars) = demo_env"
  "ibv_get_device_list (demo_pg vars) e = (fst (grow Device_list e), Some (fresh_handle e, [0]))"
  "ibv_free_device_list (demo_pg vars) l e = shrink (Device_list l) e"
  "ibv_open_device (demo_pg vars) d e = (fst (grow Device e), Some (fresh_handle e))" "ibv_alloc_pd (demo_pg vars) d e = (fst (grow Pd e), Some (fresh_handle e))"
  "ibv_query_port (demo_pg vars) d p e = (e, Some \<lparr>port_active = True, port_lid = 3\<rparr>)"
  "ibv_create_qp (demo_pg vars) k attr e = (fst (grow Qp e), Some (fresh_handle e))" "ibv_modify_qp (demo_pg vars) q at m e = (e, 0)"
  "tcp_socket (demo_pg vars) e = (fst (grow_socket e), int (fresh_handle e))" "set_reuse_address (demo_pg vars) fd e = e"
  "sys_bind_any (demo_pg vars) fd po e = (e, 0)" "sys_listen (demo_pg vars) fd n e = (e, 0)"
  "sys_accept (demo_pg vars) fd e = Some (fst (grow_socket e), int (fresh_handle e))"
  "getaddrinfo (demo_pg vars) h s e = (fst (grow Address_list e),
     Some (fresh_handle e, [\<lparr>ai_family = 2, ai_socktype = 1, ai_protocol = 6, ai_addr = 0\<rparr>]))"
  "freeaddrinfo (demo_pg vars) l e = shrink (Address_list l) e"
  "sys_socket (demo_pg vars) f t pr e = (fst (grow_socket e), int (fresh_handle e))" "sys_connect (demo_pg vars) fd ad e = (e, 0)"
  "new_handle (objects (demo_pg vars)) e = (fst (grow Handle_object e), Some (fresh_handle e))"
  "new_context (objects (demo_pg vars)) e = (fst (grow Context_object e), Some (fresh_handle e))"
  by (simp_all add: demo_pg_def grow_def grow_socket_def)

lemma demo_env_fields [simp]:
  "new_transport demo_env e = (fst (grow Transport_object e), Some (fresh_handle e))" "ibv_create_cq demo_env c n e = (fst (grow Cq e), Some (fresh_handle e))"
  "sys_close demo_env fd e = shrink (Socket fd) e"
  by (simp_all add: demo_env_def grow_def)

lemma demo_input [simp]: "o_input (fst (grow mk e)) = o_input e" "o_input (shrink r e) = o_input e"
  "o_input (fst (grow_socket e)) = o_input e"
  by (simp_all add: grow_def shrink_def grow_socket_def)

lemma demo_connect:
  "connect_code (connect_process_group (demo_pg demo_vars) None False (demo_start ready)) = Some (if ready = 1 then 0 else -3)"
proof -
  have "get_host_list (demo_pg demo_vars) None 2 = [''localhost'', ''localhost'']"
    by (simp add: get_host_list_def demo_vars_def numeral_2_eq_2)
  then have a: "connect_process_group (demo_pg demo_vars) None False (demo_start ready) =
      connect_device (demo_pg demo_vars) 1 2 [''localhost'', ''localhost''] (demo_start ready)"
    by (simp add: connect_process_group_def demo_vars_def demo_numbers)
  have cfg: "environment_config (demo_pg demo_vars) = Inr \<lparr>pipeline_piece_bytes = 65536, max_inflight = 4, transfer_mode = PG_TRANSFER_AUTO\<rparr>"
    by (simp add: environment_config_def parse_positive_environment_int_def parse_transfer_mode_environment_def demo_vars_def)
  have sockets: "\<exists>e' n p. ring_sockets (demo_pg demo_vars) 1 2 hosts e = Some (e', n, p) \<and> 0 \<le> n \<and> 0 \<le> p \<and> o_input e' = o_input e" for hosts e
    by (simp add: ring_sockets_def listen_and_accept_def connect_to_host_def numeral_eq_Suc grow_socket_def Let_def split_beta)
  have handle: "connect_code (connect_handle (demo_pg demo_vars) n p a vt e) = Some 0" if "vt_rank vt = 1" "vt_world_size vt = 2" for n p a vt e
    using that by (simp add: connect_handle_def cfg pg_create_from_transport_def ring_collective_create_def lift_objects_def grow_def get_c_transport_def
        pg_transport_rank_def pg_transport_size_def verbs_operations_def verbs_rank_def verbs_size_def verbs_implementation_of_def
        set_control_sockets_def Let_def)
  have barrier: "connect_code (connect_exchange (demo_pg demo_vars) port qn qp n p a vt e) = Some (if ready = 1 then 0 else -3)"
    if "o_input e = o_input (demo_start ready)" "vt_rank vt = 1" "vt_world_size vt = 2" for port qn qp n p a vt e
    using that
    by (simp add: connect_exchange_def connect_transition_def connect_barrier_def exchange_both_def demo_write_all demo_read_all Let_def
       transition_qp_to_rts_def demo_start_def handle abandon_def connect_failed_def)
  have ring: "connect_code (connect_ring (demo_pg demo_vars) 1 2 hosts port qn qp a vt e) = Some (if ready = 1 then 0 else -3)"
    if "o_input e = o_input (demo_start ready)" "vt_rank vt = 1" "vt_world_size vt = 2" for hosts port qn qp a vt e
  proof -
    obtain e' n p where r: "ring_sockets (demo_pg demo_vars) 1 2 hosts e = Some (e', n, p)" "0 \<le> n" "0 \<le> p" "o_input e' = o_input e"
      using sockets by blast
    then show ?thesis
      using barrier [of e' vt] that by (simp add: connect_ring_def)
  qed
  show ?thesis
    unfolding a connect_device_def connect_transport_def connect_queue_pairs_def
    by (simp add: new_verbs_transport_def construct_verbs_transport_def Let_def create_qp_def set_ring_qps_def ring del: if_split)
qed




end
