(* ===== verification/Process_Mock.thy ===== *)
theory Process_Mock
  imports Process_Group Ring_Correctness
begin

text \<open>
  Process groups over the mock transport: handles opened rank after rank, and All-Reduce calls
  through the public entry point, run as the collective layer's programs are.
\<close>

section \<open>A program whose result is repackaged\<close>

text \<open>The programs \<open>ps\<close> of the ranks below \<open>P\<close> are those of \<open>progs\<close> with their result changed by \<open>f\<close>.\<close>

definition repackaged :: "nat \<Rightarrow> (nat \<Rightarrow> 'a \<Rightarrow> 'b) \<Rightarrow> (nat \<Rightarrow> 'a prog) \<Rightarrow> (nat \<Rightarrow> 'b prog) \<Rightarrow> bool" where
  "repackaged P f progs ps = (\<forall>r<P. ps r = bind (progs r) (\<lambda>a. Ret (f r a)))"

lemma repackaged_back:
  assumes "repackaged P f progs ps" and "sys_step t P (w, ps) (w', ps')"
  shows "\<exists>progs'. sys_step t P (w, progs) (w', progs') \<and> repackaged P f progs' ps'"
proof -
  from assms(2) obtain r c k x where s: "r < P" "ps r = Call c k" "t r c w = Some (w', x)" "ps' = ps(r := k x)"
    by (auto elim: sys_step.cases)
  then obtain k0 where k0: "progs r = Call c k0" "k = (\<lambda>x. bind (k0 x) (\<lambda>a. Ret (f r a)))"
    using assms(1) by (cases "progs r") (auto simp: repackaged_def)
  have "repackaged P f (progs(r := k0 x)) ps'"
    using assms(1) by (simp add: repackaged_def s(4) k0(2))
  with rank_step [where tcall = t and progs = progs, OF s(1) k0(1) s(3)] show ?thesis by blast
qed

lemma repackaged_forth:
  assumes "repackaged P f progs ps" and "sys_step t P (w, progs) (w', progs')"
  shows "\<exists>s. sys_step t P (w, ps) s"
proof -
  from assms(2) obtain r c k x where s: "r < P" "progs r = Call c k" "t r c w = Some (w', x)"
    by (auto elim: sys_step.cases)
  then have "ps r = Call c (\<lambda>x. bind (k x) (\<lambda>a. Ret (f r a)))"
    using assms(1) by (simp add: repackaged_def)
  from sys_step.rank_step [where tcall = t and progs = ps and r = r and c = c and k = "\<lambda>x. bind (k x) (\<lambda>a. Ret (f r a))" and x = x, OF s(1) this s(3)]
  show ?thesis by blast
qed

lemma repackaged_steps:
  assumes "repackaged P f progs ps"
  shows "(sys_step t P ^^ n) (w, ps) (w', ps') \<Longrightarrow> \<exists>progs'. (sys_step t P ^^ n) (w, progs) (w', progs') \<and> repackaged P f progs' ps'"
proof (induction n arbitrary: w' ps')
  case (Suc n)
  then obtain w1 ps1 where "(sys_step t P ^^ n) (w, ps) (w1, ps1)" and s: "sys_step t P (w1, ps1) (w', ps')"
    by (auto simp: relpowp.simps(2) relcompp_apply)
  with Suc.IH obtain progs1 where p: "(sys_step t P ^^ n) (w, progs) (w1, progs1)" "repackaged P f progs1 ps1" by blast
  from repackaged_back [OF p(2) s] obtain progs' where "sys_step t P (w1, progs1) (w', progs')" "repackaged P f progs' ps'" by blast
  with p(1) show ?case
    by (metis relpowp_Suc_I)
qed (use assms in auto)

lemma every_schedule_repackaged:
  assumes "every_schedule (sys_step t P) (w, progs) Q" and "repackaged P f progs ps"
  shows "every_schedule (sys_step t P) (w, ps) (\<lambda>(w', ps'). \<exists>progs'. repackaged P f progs' ps' \<and> Q (w', progs'))"
proof -
  obtain work where work: "\<And>n s. (sys_step t P ^^ n) (w, progs) s \<Longrightarrow>
      n \<le> work \<and> (n < work \<longrightarrow> (\<exists>s'. sys_step t P s s')) \<and> (n = work \<longrightarrow> Q s)"
    using assms(1) unfolding every_schedule_def by blast
  show ?thesis
    unfolding every_schedule_def
  proof (intro exI [of _ work] allI impI)
    fix n s assume run: "(sys_step t P ^^ n) (w, ps) s"
    obtain w' ps' where s: "s = (w', ps')" by (cases s)
    obtain progs' where p: "(sys_step t P ^^ n) (w, progs) (w', progs')" "repackaged P f progs' ps'"
      using repackaged_steps [OF assms(2) run [unfolded s]] by blast
    note W = work [OF p(1)]
    have "\<exists>s'. sys_step t P s s'" if "n < work"
    proof -
      from W that obtain w2 progs2 where "sys_step t P (w', progs') (w2, progs2)" by fastforce
      from repackaged_forth [OF p(2) this] show ?thesis by (simp add: s)
    qed
    with W p(2) show "n \<le> work \<and> (n < work \<longrightarrow> (\<exists>s'. sys_step t P s s')) \<and>
        (n = work \<longrightarrow> (case s of (w', ps) \<Rightarrow> \<exists>progs'. repackaged P f progs' ps \<and> Q (w', progs')))"
      by (auto simp: s)
  qed
qed

text \<open>\<open>pg_all_reduce\<close> with proper arguments repackages the result of \<open>ring_all_reduce\<close>.\<close>

lemma pg_all_reduce_repackaged:
  assumes "\<And>r. r < P \<Longrightarrow> sendbuf r \<noteq> NullPtr" and "\<And>r. r < P \<Longrightarrow> collectives (hl r) = Some (ctx r)" and "0 < count"
  shows "repackaged P (\<lambda>r (status, c). (status, Some ((hl r)\<lparr>collectives := c\<rparr>)))
    (\<lambda>r. ring_all_reduce (Some (ctx r)) (sendbuf r) (Ptr (rb r) 0) count dt oper)
    (\<lambda>r. pg_all_reduce (sendbuf r) (Ptr (rb r) 0) (int count) dt oper (Some (hl r)))"
  using assms by (auto simp: repackaged_def pg_all_reduce_def intro!: arg_cong [where f = "bind _"] split: prod.split)

section \<open>Handles over the mock transport\<close>

text \<open>The allocator of rank \<open>r\<close>: one context, whose vector is block \<open>b\<close>, and one handle at \<open>h\<close>.\<close>

definition mock_heap :: "nat \<Rightarrow> nat \<Rightarrow> nat \<Rightarrow> mock_world heap" where
  "mock_heap r b h =
     \<lparr>new_context = (\<lambda>w. if memories w r b = None
        then (w\<lparr>memories := (memories w)(r := (memories w r)(b \<mapsto> []))\<rparr>, Some b) else (w, None)),
      delete_context = (\<lambda>b w. w\<lparr>memories := (memories w)(r := (memories w r)(b := None))\<rparr>),
      new_handle = (\<lambda>w. (w, Some h)), delete_handle = (\<lambda>h w. w)\<rparr>"

text \<open>The configuration a context gets.\<close>

definition effective_config :: "ring_collective_config option \<Rightarrow> ring_collective_config" where
  "effective_config config_arg =
     (case config_arg of
        None \<Rightarrow> \<lparr>pipeline_piece_bytes = kDefaultPieceBytes, max_inflight = kDefaultMaxInflight, transfer_mode = PG_TRANSFER_AUTO\<rparr>
      | Some c \<Rightarrow> \<lparr>pipeline_piece_bytes = (if pipeline_piece_bytes c = 0 then kDefaultPieceBytes else pipeline_piece_bytes c),
          max_inflight = (if max_inflight c = 0 then kDefaultMaxInflight else min (max_inflight c) kMaxInflightLimit),
          transfer_mode = transfer_mode c\<rparr>)"

definition context_of :: "nat \<Rightarrow> nat \<Rightarrow> ring_collective_config option \<Rightarrow> nat \<Rightarrow> ring_collective_context" where
  "context_of P r config_arg b =
     \<lparr>transport = r, config = effective_config config_arg, rank = int r, world_size = int P,
      layout = \<lparr>counts = [], offsets = []\<rparr>, temporary_buffer = b, sequence = 0\<rparr>"

lemma group_transports:
  assumes "mock_transport_group_create (int P) False mems False = (0, Some (w, ts))"
  shows "r < P \<Longrightarrow> ts ! r = mock_transport r"
    and "mock_transport_group_create (int P) False m False = (0, Some (w\<lparr>memories := m\<rparr>, ts))"
    and "r < P \<Longrightarrow> pg_transport_rank (mock_transport r) (w\<lparr>memories := m\<rparr>) = int r"
    and "r < P \<Longrightarrow> pg_transport_size (mock_transport r) (w\<lparr>memories := m\<rparr>) = int P"
  using assms
  by (auto simp: mock_transport_group_create_def pg_transport_rank_def pg_transport_size_def mock_transport_def
      kMockOperations_def mock_rank_def mock_size_def endpoint_of_def mock_endpoint_def split: if_splits)

lemma opened_handle:
  assumes "mock_transport_group_create (int P) False mems False = (0, Some (w, ts))" and "r < P"
    and "pg_create_from_transport (mock_heap r b h) (Some (r, ts ! r)) own config_arg False (w\<lparr>memories := m\<rparr>) =
      (w', PG_SUCCESS, Some (h', hl))"
  shows "m r b = None" and "w' = w\<lparr>memories := m(r := (m r)(b \<mapsto> []))\<rparr>" and "collectives hl = Some (context_of P r config_arg b)"
proof -
  have "m r b = None \<and> w' = w\<lparr>memories := m(r := (m r)(b \<mapsto> []))\<rparr> \<and> collectives hl = Some (context_of P r config_arg b)"
    using assms(3) group_transports(1,3,4) [OF assms(1) assms(2)]
    by (auto simp: pg_create_from_transport_def ring_collective_create_def mock_heap_def mock_transport_def Let_def
        context_of_def effective_config_def split: if_splits option.splits)
  then show "m r b = None" and "w' = w\<lparr>memories := m(r := (m r)(b \<mapsto> []))\<rparr>" and "collectives hl = Some (context_of P r config_arg b)"
    by simp_all
qed

text \<open>All ranks open their handles, rank 0 first.\<close>

lemma opened_group:
  assumes group: "mock_transport_group_create (int P) False mems False = (0, Some (w, ts))" and start: "ws 0 = w"
    and opened: "\<And>r. r < P \<Longrightarrow> pg_create_from_transport (mock_heap r (tb r) (h r)) (Some (r, ts ! r)) own config_arg False (ws r) =
      (ws (Suc r), PG_SUCCESS, Some (h r, hl r))"
  shows "\<And>r. r < P \<Longrightarrow> mems r (tb r) = None \<and> collectives (hl r) = Some (context_of P r config_arg (tb r)) \<and>
      memories (ws P) r = (mems r)(tb r \<mapsto> [])"
    and "idle_world P (ws P)"
proof -
  let ?m = "\<lambda>k r. if r < k then (mems r)(tb r \<mapsto> []) else mems r"
  have w: "w\<lparr>memories := mems\<rparr> = w"
    using group_idle(2) [OF group] by simp
  have ws: "ws k = w\<lparr>memories := ?m k\<rparr>" if "k \<le> P" for k
    using that
  proof (induction k)
    case (Suc k)
    then have "ws k = w\<lparr>memories := ?m k\<rparr>" by simp
    with opened [of k] Suc.prems have "pg_create_from_transport (mock_heap k (tb k) (h k)) (Some (k, ts ! k)) own config_arg False
        (w\<lparr>memories := ?m k\<rparr>) = (ws (Suc k), PG_SUCCESS, Some (h k, hl k))" by simp
    from opened_handle(2) [OF group _ this] Suc.prems have "ws (Suc k) = w\<lparr>memories := (?m k)(k := (?m k k)(tb k \<mapsto> []))\<rparr>"
      by simp
    moreover have "(?m k)(k := (?m k k)(tb k \<mapsto> [])) = ?m (Suc k)"
      by (auto simp: fun_eq_iff less_Suc_eq)
    ultimately show ?case by simp
  qed (simp add: start w)
  show "mems r (tb r) = None \<and> collectives (hl r) = Some (context_of P r config_arg (tb r)) \<and>
      memories (ws P) r = (mems r)(tb r \<mapsto> [])" if r: "r < P" for r
    using opened_handle [OF group r opened [OF r, unfolded ws [OF less_imp_le [OF r]]]] ws [OF order_refl] r by simp
  show "idle_world P (ws P)"
    unfolding ws [OF order_refl] by (rule group_idle(1) [OF group_transports(2) [OF group]])
qed

end
