(* ===== verification/Spec2Isabelle.thy ===== *)
theory Spec2Isabelle
  imports Ring_Correctness Ring_Sequence Ring_Inflight Mock_Properties Verbs_Properties Process_Properties Process_Mock
begin

text \<open>
  A verification of the ring collectives of this repository: Reduce-Scatter, All-Gather and
  All-Reduce over a table of transport operations, the two transports behind the table (the
  mock one of the tests and the one over RDMA verbs), and the process group that connects the
  ranks and owns everything.

  The program and its theories, from the bottom:

  \<^item> \<open>Prelude\<close>, \<open>Pg_Types\<close>: bytes, slices of buffers, \<open>size_t\<close> arithmetic modulo \<open>2 ^ 64\<close>, the C
    enumerations (with a constructor for values outside them), status codes, pointers and
    memory. A pointer is a block with an offset, an access outside a block has no result.
  \<^item> \<open>Block_Layout\<close> (\<open>src/block_layout.cpp\<close>) and \<open>Reduction_Ops\<close> (\<open>src/reduction_ops.cpp\<close>):
    the partition of the elements into blocks, and \<open>reduce_in_place\<close> on bytes; float and double
    are IEEE 754 operations on bit patterns. \<open>Reduction_Algebra\<close> has the locale of an
    associative and commutative reduction, interpreted on the three integer operations.
  \<^item> \<open>Transport_Api\<close> (\<open>include/pg_transport.h\<close>): the table, and routines written against it as
    programs: a result, or the next call with what is done with its answer.
    \<open>Transport_Contract\<close> is the comment of that header as an executable endpoint of one rank: a
    call it does not allow has no result. \<open>Ring_System\<close> has the step relation of all ranks
    running at once, the locale \<open>ring_transport\<close> of a transport that keeps the contract, and the
    theorem that matching programs end under every schedule (\<open>every_schedule\<close>: all schedules
    have the same length, none is stuck before, the result does not depend on the schedule).
  \<^item> \<open>Ring_Collectives\<close> (\<open>src/ring_collectives.cpp\<close>): every routine, every loop a recursive
    function, every early return an \<open>Inl\<close>. Nothing in it needs fuel.
    \<open>Ring_Arith\<close>, \<open>Ring_Exchange\<close>, \<open>Ring_Pieces\<close>, \<open>Ring_Phases\<close>, \<open>Ring_Steps\<close>, \<open>Ring_Local\<close> run it on
    the contract endpoint: tags, pieces, batches, steps, whole phases.
    \<open>Ring_Correctness\<close> puts the ranks together; \<open>Ring_Sequence\<close> has one collective after the
    other on the same contexts, without a barrier between them; \<open>Ring_Inflight\<close> is about arbitrary answers of
    the transport, failures included.
  \<^item> \<open>Mock_Transport\<close> (\<open>tests/mock_transport.cpp\<close>): each operation is one step on the shared
    world, because the source holds the mutex of the ring throughout; a wait on the condition
    variable is a call without a step. \<open>Early_Delivery\<close>, \<open>Mock_Refinement\<close>,
    \<open>Mock_Interpretation\<close> relate it to the contract endpoints and interpret
    \<open>ring_transport\<close> on it; \<open>Mock_Properties\<close> has its own guarantees.
  \<^item> \<open>Verbs_Library\<close>, \<open>Verbs_Transport\<close> (\<open>src/verbs_transport.cpp\<close>): every method and wrapper, an
    exception a value of \<open>verbs_exception\<close>, a loop that may retry or poll for ever a
    \<open>partial_function\<close> with the value None then. The verbs library, sockets and the allocator
    are not in the repository: they are the fields of \<open>verbs_env\<close>, arguments of every
    definition. \<open>Verbs_Loops\<close> has invariant rules for the loops, \<open>Verbs_Resources\<close> the laws
    assumed of the library (\<open>verbs_laws\<close>: what is created is new, what is released is gone) and
    the invariant, \<open>Verbs_Properties\<close> the guarantees and a concrete outside for the witnesses.
  \<^item> \<open>Process_Library\<close>, \<open>Process_Group\<close> (\<open>src/process_group_api.cpp\<close>): the public entry points;
    \<open>connect_process_group\<close> is cut into stages where the ownership of resources changes.
    \<open>strtol\<close> and \<open>atoi\<close> are defined as the C library has them, devices, ports, queue pairs and
    sockets are the fields of \<open>pg_env\<close> with the laws \<open>pg_laws\<close>. \<open>Process_Resources\<close>,
    \<open>Process_Connect\<close> follow the ownership through the stages, \<open>Process_Session\<close> from connect
    to close over any All-Reduce calls, \<open>Process_Properties\<close> has the guarantees.
    \<open>Process_Mock\<close> opens handles over the mock transport.
  \<^item> This theory: the collectives over the mock transport for the caller, in the terms of the
    receive buffers, and from the public entry points.

  Bounds. The functional theorems hold for \<open>ring_setup\<close>: at most 129 ranks (the step field of a
  tag has 7 bits and a ring of P ranks makes steps 0 to P - 2), at most 4096 pieces in the
  largest block (12 bits), a buffer and a piece size below \<open>2 ^ 64\<close> bytes, and 1 to 1024 requests
  in flight, which is what \<open>ring_collective_create\<close> lets through (\<open>create_branches\<close>). Beyond
  them \<open>make_tag\<close> answers \<open>PG_ERR_TAG_RANGE\<close> (\<open>make_tag_range\<close>). Signed overflow of the
  reductions is undefined in C++ and wraps around here, as the compiled code does;
  \<open>all_reduce_int32_exact_sum\<close> says when it does not matter. Floating-point sums are covered by
  \<open>all_reduce_every_schedule\<close>: same bits on every rank, in ring order.

  Not modelled. The collectives over the verbs transport between several processes: the
  network is part of the outside of each process, so the theorems about that transport are
  about one process (descriptors, tags, completions, resources) and not about the reduced
  values. Log output; exceptions of string and vector allocations outside the \<open>new\<close>
  expressions named above; byte order other than little-endian. The tests, the benchmark and
  the RDMA test runner are drivers that start threads, fill buffers and print.
\<close>

section \<open>All-Reduce over the mock transport\<close>

text \<open>
  C1. All ranks call \<open>ring_all_reduce\<close> with ready contexts and buffers on an idle mock
  transport. Under every schedule of their calls, no rank blocks forever, all schedules have
  the same length, and at the end every rank has returned \<open>PG_SUCCESS\<close>, has advanced its
  sequence number, and holds the same fully reduced buffer; apart from the receive buffer and
  the context's own vector no memory has changed, and the transport is idle again.
\<close>

theorem all_reduce_every_schedule:
  assumes "ring_setup P count (datatype_size dt) cfg" and "contexts_ready P cfg sq ctx"
    and "byte_op dt oper = Some g" and "0 < count" and "idle_world P w"
    and "\<And>r. r < P \<Longrightarrow> buffers_ready count (datatype_size dt) input r (memories w r) (ctx r) (sendbuf r) (rb r)"
  shows "every_schedule (sys_step mock_call P)
    (w, \<lambda>r. ring_all_reduce (Some (ctx r)) (sendbuf r) (Ptr (rb r) 0) count dt oper)
    (\<lambda>(w', progs'). idle_world P w' \<and>
      (\<forall>r<P. progs' r = Ret (PG_SUCCESS, Some ((with_layout count (ctx r))\<lparr>sequence := sq + 1\<rparr>)) \<and>
        buffers_after (temporary_buffer (ctx r)) (memories w r) (memories w' r)
          (ring_result P count (datatype_size dt) g input) (rb r)))"
  by (rule all_reduce_schedule [OF assms])

text \<open>Two ranks with two integers each, in place.\<close>

definition sample_config :: ring_collective_config where
  "sample_config = \<lparr>pipeline_piece_bytes = 4, max_inflight = 1, transfer_mode = PG_TRANSFER_AUTO\<rparr>"

definition sample_context :: "nat \<Rightarrow> ring_collective_context" where
  "sample_context r = \<lparr>transport = r, config = sample_config, rank = int r, world_size = 2,
     layout = \<lparr>counts = [], offsets = []\<rparr>, temporary_buffer = 1, sequence = 0\<rparr>"

definition sample_input :: "nat \<Rightarrow> bytes" where
  "sample_input r = [word_of_nat r, 0, 0, 0, 5, 0, 0, 0]"

definition sample_memory :: "nat \<Rightarrow> memory" where
  "sample_memory r = [0 \<mapsto> sample_input r, 1 \<mapsto> []]"

definition sample_world :: mock_world where
  "sample_world = fst (the (snd (mock_transport_group_create 2 False sample_memory False)))"

lemma sample_setup: "ring_setup 2 2 (datatype_size PG_INT32) sample_config"
  by (simp add: ring_setup_def sample_config_def size_modulus_def kMaxInflightLimit_def pieces_def block_count_def
      piece_elements_for_def)

lemma sample_contexts: "contexts_ready 2 sample_config 0 sample_context"
  by (simp add: contexts_ready_def sample_context_def)

lemma sample_idle: "idle_world 2 sample_world" and sample_memories: "memories sample_world = sample_memory"
proof -
  have "mock_transport_group_create (int 2) False sample_memory False =
      (0, Some (sample_world, map mock_transport [0..<2]))"
    by (simp add: sample_world_def mock_transport_group_create_def)
  from group_idle [OF this] show "idle_world 2 sample_world" and "memories sample_world = sample_memory" .
qed

lemma sample_buffers:
  "buffers_ready 2 (datatype_size PG_INT32) sample_input r (memories sample_world r) (sample_context r) (Ptr 0 0) 0"
  "workbuf_ready 2 (datatype_size PG_INT32) sample_input r (memories sample_world r) (sample_context r) 0"
  by (simp_all add: buffers_ready_def workbuf_ready_def sample_memories sample_memory_def sample_context_def
      sample_input_def slice_def)

lemma byte_op_int32_sum: "byte_op PG_INT32 PG_SUM = Some (stored_op int32_type (+))"
  by (simp add: int32_type_def)

lemma sample_elements: "int32_at (sample_input q) 0 = word_of_nat (unat (word_of_nat q :: byte))" "int32_at (sample_input q) 1 = 5"
  by (simp_all add: int32_at_def int32_type_def element_def sample_input_def slice_def)

theorem all_reduce_every_schedule_witness:
  "every_schedule (sys_step mock_call 2)
    (sample_world, \<lambda>r. ring_all_reduce (Some (sample_context r)) (Ptr 0 0) (Ptr 0 0) 2 PG_INT32 PG_SUM)
    (\<lambda>(w', progs'). idle_world 2 w' \<and>
      (\<forall>r<2. progs' r = Ret (PG_SUCCESS, Some ((with_layout 2 (sample_context r))\<lparr>sequence := 0 + 1\<rparr>)) \<and>
        buffers_after (temporary_buffer (sample_context r)) (memories sample_world r) (memories w' r)
          (ring_result 2 2 (datatype_size PG_INT32) (stored_op int32_type (+)) sample_input) 0))"
proof (rule all_reduce_every_schedule [where sendbuf = "\<lambda>r. Ptr 0 0" and rb = "\<lambda>r. 0"])
  show "byte_op PG_INT32 PG_SUM = Some (stored_op int32_type (+))"
    by (rule byte_op_int32_sum)
qed (use sample_setup sample_contexts sample_idle sample_buffers in simp_all)

section \<open>One All-Reduce after the other\<close>

text \<open>
  C2. Every rank calls \<open>ring_all_reduce\<close> for a list of jobs, one after the other on the same
  context and with nothing that keeps the ranks together: counts, datatypes, operations and
  buffers change from job to job, and a job may work on what an earlier one has left. Under
  every schedule all calls of all ranks return \<open>PG_SUCCESS\<close>, and the memories are what the jobs
  make of them in order (\<open>jobs_after\<close>): no message of one call is taken for one of another.
\<close>

theorem all_reduce_sequence:
  assumes "idle_world P w" and "jobs_ready P cfg tb js S"
    and "\<And>r. r < P \<Longrightarrow> context_between P cfg (tb r) sq r (ctx r)"
    and "\<And>r. r < P \<Longrightarrow> \<exists>T. memories w r = (S r)(tb r \<mapsto> T)"
  shows "every_schedule (sys_step mock_call P) (w, \<lambda>r. all_reduces js r (Some (ctx r)))
    (\<lambda>(w', progs'). idle_world P w' \<and>
      (\<forall>r<P. progs' r = Ret (replicate (length js) PG_SUCCESS, Some (jobs_context js (ctx r))) \<and>
         (\<exists>T. memories w' r = (jobs_after P js S r)(tb r \<mapsto> T))))"
  by (rule jobs_schedule [OF assms])

text \<open>Two integers are added up, then the eight bytes are taken for one double.\<close>

definition sample_jobs :: "job list" where
  "sample_jobs =
     [\<lparr>job_count = 2, job_datatype = PG_INT32, job_operation = PG_SUM, job_send = \<lambda>r. Ptr 0 0, job_recv = \<lambda>r. 0\<rparr>,
      \<lparr>job_count = 1, job_datatype = PG_FLOAT64, job_operation = PG_MAX, job_send = \<lambda>r. Ptr 0 0, job_recv = \<lambda>r. 0\<rparr>]"

lemma sample_setup_double: "ring_setup 2 1 (datatype_size PG_FLOAT64) sample_config"
  by (simp add: ring_setup_def sample_config_def size_modulus_def kMaxInflightLimit_def pieces_def block_count_def
      piece_elements_for_def)

lemma sample_jobs_ready: "jobs_ready 2 sample_config (\<lambda>r. 1) sample_jobs sample_memory"
proof -
  have "job_input (hd sample_jobs) sample_memory r = sample_input r" for r
    by (simp add: job_input_def sample_jobs_def job_size_def sample_memory_def sample_input_def slice_def)
  then have "length (ring_result 2 2 4 (stored_op int32_type f) (job_input (hd sample_jobs) sample_memory)) = 8" for f
    using length_ring_result [of 2 "job_input (hd sample_jobs) sample_memory" 2 4]
    by (simp add: stored_op_def int32_type_def sample_input_def)
  then show ?thesis
    using sample_setup sample_setup_double
    by (simp add: sample_jobs_def job_ready_def job_after_def job_size_def job_function_def sample_memory_def sample_input_def slice_def)
qed

theorem all_reduce_sequence_witness:
  "every_schedule (sys_step mock_call 2) (sample_world, \<lambda>r. all_reduces sample_jobs r (Some (sample_context r)))
    (\<lambda>(w', progs'). idle_world 2 w' \<and>
      (\<forall>r<2. progs' r = Ret (replicate (length sample_jobs) PG_SUCCESS, Some (jobs_context sample_jobs (sample_context r))) \<and>
         (\<exists>T. memories w' r = (jobs_after 2 sample_jobs sample_memory r)(1 \<mapsto> T))))"
proof (rule all_reduce_sequence [where tb = "\<lambda>r. 1" and S = sample_memory and sq = 0, OF sample_idle sample_jobs_ready])
  show "context_between 2 sample_config 1 0 r (sample_context r)" for r
    by (simp add: context_between_def sample_context_def)
  show "\<exists>T. memories sample_world r = (sample_memory r)(1 \<mapsto> T)" for r
    by (intro exI [of _ "[]"]) (simp add: sample_memories sample_memory_def fun_eq_iff)
qed

lemma sum_of_elements:
  assumes "ring_setup P count (datatype_size PG_INT32) cfg"
    and "\<And>r. r < P \<Longrightarrow> buffers_ready count (datatype_size PG_INT32) input r (m r) (ctx r) (sendbuf r) (rb r)" and "e < count"
  shows "int32_at (ring_result P count (datatype_size PG_INT32) (stored_op int32_type (+)) input) e = (\<Sum>q<P. int32_at (input q) e)"
proof -
  have P: "0 < P"
    using assms(1) by (simp add: ring_setup_def)
  have "length (input r) = count * 4" if "r < P" for r
    using buffers_ready_length [OF assms(2) [OF that]] by simp
  then show ?thesis
    using int32_sum.ring_result_value [OF int32_decode, of P input count e] assms(3) P combine_sum [OF P]
    by (simp add: int32_at_def)
qed

text \<open>
  C3. For 32-bit integers and the sum: when the schedule is through, element \<open>e\<close> of every
  rank's receive buffer is the sum over all ranks of element \<open>e\<close> of their inputs, modulo
  \<open>2 ^ 32\<close>, whatever the world size, the number of elements and the block \<open>e\<close> lies in.
\<close>

theorem all_reduce_int32_sum:
  assumes "ring_setup P count (datatype_size PG_INT32) cfg" and "contexts_ready P cfg sq ctx"
    and "0 < count" and "idle_world P w"
    and "\<And>r. r < P \<Longrightarrow> buffers_ready count (datatype_size PG_INT32) input r (memories w r) (ctx r) (sendbuf r) (rb r)"
  shows "every_schedule (sys_step mock_call P)
    (w, \<lambda>r. ring_all_reduce (Some (ctx r)) (sendbuf r) (Ptr (rb r) 0) count PG_INT32 PG_SUM)
    (\<lambda>(w', progs'). received_values P count rb (datatype_size PG_INT32)
      (\<lambda>e buf. int32_at buf e = (\<Sum>q<P. int32_at (input q) e)) w')"
  by (rule all_reduce_done [OF assms(1,2) byte_op_int32_sum assms(3-5)]) (assumption | rule sum_of_elements [OF assms(1,5)])+

theorem all_reduce_int32_sum_witness:
  "every_schedule (sys_step mock_call 2)
    (sample_world, \<lambda>r. ring_all_reduce (Some (sample_context r)) (Ptr 0 0) (Ptr 0 0) 2 PG_INT32 PG_SUM)
    (\<lambda>(w', progs'). received_values 2 2 (\<lambda>r. 0) (datatype_size PG_INT32)
      (\<lambda>e buf. int32_at buf e = (\<Sum>q<2. int32_at (sample_input q) e)) w')"
  by (rule all_reduce_int32_sum [where sendbuf = "\<lambda>r. Ptr 0 0" and rb = "\<lambda>r. 0"])
     (use sample_setup sample_contexts sample_idle sample_buffers in simp_all)

text \<open>
  C4. For 32-bit integers and the minimum: element \<open>e\<close> of every rank's receive buffer, read
  as a signed number, is in the end the least of the ranks' elements \<open>e\<close>.
\<close>

theorem all_reduce_int32_min:
  assumes "ring_setup P count (datatype_size PG_INT32) cfg" and "contexts_ready P cfg sq ctx"
    and "0 < count" and "idle_world P w"
    and "\<And>r. r < P \<Longrightarrow> buffers_ready count (datatype_size PG_INT32) input r (memories w r) (ctx r) (sendbuf r) (rb r)"
  shows "every_schedule (sys_step mock_call P)
    (w, \<lambda>r. ring_all_reduce (Some (ctx r)) (sendbuf r) (Ptr (rb r) 0) count PG_INT32 PG_MIN)
    (\<lambda>(w', progs'). received_values P count rb (datatype_size PG_INT32)
      (\<lambda>e buf. sint (int32_at buf e) = Min ((\<lambda>q. sint (int32_at (input q) e)) ` {..<P})) w')"
proof (rule all_reduce_done [OF assms(1,2) _ assms(3-5)])
  show "byte_op PG_INT32 PG_MIN = Some (stored_op int32_type (std_min word_sless))"
    by (simp add: int32_type_def)
  have P: "0 < P"
    using assms(1) by (simp add: ring_setup_def)
  have len: "length (input r) = count * 4" if "r < P" for r
    using buffers_ready_length [OF assms(5) [OF that]] by simp
  show "sint (int32_at (ring_result P count (datatype_size PG_INT32) (stored_op int32_type (std_min word_sless)) input) e) =
      Min ((\<lambda>q. sint (int32_at (input q) e)) ` {..<P})" if "e < count" for e
    using int32_min.ring_result_value [OF int32_decode, of P input count e] that P len combine_min [OF P]
    by (simp add: int32_at_def)
qed

theorem all_reduce_int32_min_witness:
  "every_schedule (sys_step mock_call 2)
    (sample_world, \<lambda>r. ring_all_reduce (Some (sample_context r)) (Ptr 0 0) (Ptr 0 0) 2 PG_INT32 PG_MIN)
    (\<lambda>(w', progs'). received_values 2 2 (\<lambda>r. 0) (datatype_size PG_INT32)
      (\<lambda>e buf. sint (int32_at buf e) = Min ((\<lambda>q. sint (int32_at (sample_input q) e)) ` {..<2})) w')"
  by (rule all_reduce_int32_min [where sendbuf = "\<lambda>r. Ptr 0 0" and rb = "\<lambda>r. 0"])
     (use sample_setup sample_contexts sample_idle sample_buffers in simp_all)

text \<open>
  C5. For 32-bit integers and the maximum: element \<open>e\<close> of every rank's receive buffer, read
  as a signed number, is in the end the greatest of the ranks' elements \<open>e\<close>.
\<close>

theorem all_reduce_int32_max:
  assumes "ring_setup P count (datatype_size PG_INT32) cfg" and "contexts_ready P cfg sq ctx"
    and "0 < count" and "idle_world P w"
    and "\<And>r. r < P \<Longrightarrow> buffers_ready count (datatype_size PG_INT32) input r (memories w r) (ctx r) (sendbuf r) (rb r)"
  shows "every_schedule (sys_step mock_call P)
    (w, \<lambda>r. ring_all_reduce (Some (ctx r)) (sendbuf r) (Ptr (rb r) 0) count PG_INT32 PG_MAX)
    (\<lambda>(w', progs'). received_values P count rb (datatype_size PG_INT32)
      (\<lambda>e buf. sint (int32_at buf e) = Max ((\<lambda>q. sint (int32_at (input q) e)) ` {..<P})) w')"
proof (rule all_reduce_done [OF assms(1,2) _ assms(3-5)])
  show "byte_op PG_INT32 PG_MAX = Some (stored_op int32_type (std_max word_sless))"
    by (simp add: int32_type_def)
  have P: "0 < P"
    using assms(1) by (simp add: ring_setup_def)
  have len: "length (input r) = count * 4" if "r < P" for r
    using buffers_ready_length [OF assms(5) [OF that]] by simp
  show "sint (int32_at (ring_result P count (datatype_size PG_INT32) (stored_op int32_type (std_max word_sless)) input) e) =
      Max ((\<lambda>q. sint (int32_at (input q) e)) ` {..<P})" if "e < count" for e
    using int32_max.ring_result_value [OF int32_decode, of P input count e] that P len combine_max [OF P]
    by (simp add: int32_at_def)
qed

theorem all_reduce_int32_max_witness:
  "every_schedule (sys_step mock_call 2)
    (sample_world, \<lambda>r. ring_all_reduce (Some (sample_context r)) (Ptr 0 0) (Ptr 0 0) 2 PG_INT32 PG_MAX)
    (\<lambda>(w', progs'). received_values 2 2 (\<lambda>r. 0) (datatype_size PG_INT32)
      (\<lambda>e buf. sint (int32_at buf e) = Max ((\<lambda>q. sint (int32_at (sample_input q) e)) ` {..<2})) w')"
  by (rule all_reduce_int32_max [where sendbuf = "\<lambda>r. Ptr 0 0" and rb = "\<lambda>r. 0"])
     (use sample_setup sample_contexts sample_idle sample_buffers in simp_all)

section \<open>The two phases\<close>

text \<open>
  C10. Reduce-Scatter alone, on all ranks under every schedule: it ends on every rank, reports
  the block after the rank as the owned block, and that block of the work buffer is fully
  reduced.
\<close>

theorem reduce_scatter_every_schedule:
  assumes "ring_setup P count (datatype_size dt) cfg" and "contexts_ready P cfg sq ctx"
    and "byte_op dt oper = Some g" and "idle_world P w"
    and "\<And>r. r < P \<Longrightarrow> workbuf_ready count (datatype_size dt) input r (memories w r) (ctx r) (rb r)"
  shows "every_schedule (sys_step mock_call P)
    (w, \<lambda>r. ring_reduce_scatter_inplace (Some (ctx r)) (Ptr (rb r) 0) count dt oper (Some owned))
    (\<lambda>(w', progs'). idle_world P w' \<and>
      (\<forall>r<P. progs' r = Ret (PG_SUCCESS, Some (with_layout count (ctx r)), Some (int (next_rank P r))) \<and>
        owned_block_reduced P count (datatype_size dt) (temporary_buffer (ctx r)) r (memories w r) (memories w' r)
          (ring_result P count (datatype_size dt) g input) (rb r)))"
  by (rule schedule_rounds [OF assms(4)], rule reduce_scatter_contract [OF assms(1,2) _ assms(3,5)])

theorem reduce_scatter_every_schedule_witness:
  "every_schedule (sys_step mock_call 2)
    (sample_world, \<lambda>r. ring_reduce_scatter_inplace (Some (sample_context r)) (Ptr 0 0) 2 PG_INT32 PG_SUM (Some (-1)))
    (\<lambda>(w', progs'). idle_world 2 w' \<and>
      (\<forall>r<2. progs' r = Ret (PG_SUCCESS, Some (with_layout 2 (sample_context r)), Some (int (next_rank 2 r))) \<and>
        owned_block_reduced 2 2 (datatype_size PG_INT32) (temporary_buffer (sample_context r)) r (memories sample_world r) (memories w' r)
          (ring_result 2 2 (datatype_size PG_INT32) (stored_op int32_type (+)) sample_input) 0))"
proof (rule reduce_scatter_every_schedule [where rb = "\<lambda>r. 0"])
  show "byte_op PG_INT32 PG_SUM = Some (stored_op int32_type (+))"
    by (rule byte_op_int32_sum)
qed (use sample_setup sample_contexts sample_idle sample_buffers in simp_all)

text \<open>
  C11. All-Gather alone, on all ranks under every schedule: it ends on every rank, and every
  work buffer is the blocks of their owners put together; nothing else in memory changes.
\<close>

theorem all_gather_every_schedule:
  assumes "ring_setup P count (datatype_size dt) cfg" and "contexts_ready P cfg sq ctx" and "idle_world P w"
    and "\<And>r. r < P \<Longrightarrow> workbuf_ready count (datatype_size dt) buffers r (memories w r) (ctx r) (rb r)"
  shows "every_schedule (sys_step mock_call P)
    (w, \<lambda>r. ring_all_gather_inplace (Some (ctx r)) (Ptr (rb r) 0) count dt (int (next_rank P r)))
    (\<lambda>(w', progs'). idle_world P w' \<and>
      (\<forall>r<P. progs' r = Ret (PG_SUCCESS, Some (with_layout count (ctx r))) \<and>
        memories w' r = (memories w r)(rb r \<mapsto> gather_result P count (datatype_size dt) buffers)))"
  by (rule schedule_rounds [OF assms(3), where Q = "\<lambda>r m'. m' = (memories w r)(rb r \<mapsto> gather_result P count (datatype_size dt) buffers)"],
      rule all_gather_contract [OF assms(1,2) _ assms(4)])

theorem all_gather_every_schedule_witness:
  "every_schedule (sys_step mock_call 2)
    (sample_world, \<lambda>r. ring_all_gather_inplace (Some (sample_context r)) (Ptr 0 0) 2 PG_INT32 (int (next_rank 2 r)))
    (\<lambda>(w', progs'). idle_world 2 w' \<and>
      (\<forall>r<2. progs' r = Ret (PG_SUCCESS, Some (with_layout 2 (sample_context r))) \<and>
        memories w' r = (memories sample_world r)(0 \<mapsto> gather_result 2 2 (datatype_size PG_INT32) sample_input)))"
  by (rule all_gather_every_schedule [where rb = "\<lambda>r. 0"])
     (use sample_setup sample_contexts sample_idle sample_buffers in simp_all)

section \<open>Requests in flight and results\<close>

text \<open>
  C12. Whatever the transport answers, an All-Reduce never has more than twice
  \<open>max_inflight\<close> requests in flight. When it returns success none is left and the sequence
  number has advanced by one; with any other status the sequence number is as before. Rank,
  world size, configuration and buffers of the context never change.
\<close>

theorem all_reduce_in_flight_bound:
  "in_flight_within (2 * max_inflight (config ctx)) (all_reduce_outcome ctx)
     (ring_all_reduce (Some ctx) sendbuf recvbuf count dt oper) 0"
  by (rule in_flight_all_reduce)

text \<open>
  C13. Null pointers and an empty buffer are refused with \<open>PG_ERR_INVALID_ARGUMENT\<close>, a datatype
  without a size with \<open>PG_ERR_UNSUPPORTED_DATATYPE\<close>; in both cases no transport call is made
  and no buffer touched.
\<close>

theorem all_reduce_rejects:
  "(context_arg = None \<or> sendbuf = NullPtr \<or> recvbuf = NullPtr \<or> count = 0 \<longrightarrow>
      ring_all_reduce context_arg sendbuf recvbuf count dt oper = Ret (PG_ERR_INVALID_ARGUMENT, context_arg)) \<and>
   (context_arg \<noteq> None \<and> sendbuf \<noteq> NullPtr \<and> recvbuf \<noteq> NullPtr \<and> count \<noteq> 0 \<and> datatype_size dt = 0 \<longrightarrow>
      ring_all_reduce context_arg sendbuf recvbuf count dt oper = Ret (PG_ERR_UNSUPPORTED_DATATYPE, context_arg))"
  by (simp add: ring_all_reduce_def)

theorem all_reduce_rejects_witness:
  "ring_all_reduce None (Ptr 0 0) (Ptr 0 0) 2 PG_INT32 PG_SUM = Ret (PG_ERR_INVALID_ARGUMENT, None) \<and>
   ring_all_reduce (Some (sample_context 0)) (Ptr 0 0) (Ptr 0 0) 2 (Bad_datatype 9) PG_SUM =
     Ret (PG_ERR_UNSUPPORTED_DATATYPE, Some (sample_context 0))"
  using all_reduce_rejects [of None "Ptr 0 0" "Ptr 0 0" 2 PG_INT32 PG_SUM]
    all_reduce_rejects [of "Some (sample_context 0)" "Ptr 0 0" "Ptr 0 0" 2 "Bad_datatype 9" PG_SUM] by simp

section \<open>Contexts\<close>

text \<open>
  C15. \<open>ring_collective_create\<close> on every branch: it fails with \<open>PG_ERR_INVALID_ARGUMENT\<close> for a
  null transport, a transport without operations or a null result pointer, with
  \<open>PG_ERR_TRANSPORT\<close> when the transport's rank is not inside its size, with
  \<open>PG_ERR_NO_MEMORY\<close> when the allocation fails; otherwise the context has the transport's rank
  and size, sequence number 0, a piece size that is not 0 and between 1 and 1024 requests in
  flight.
\<close>

theorem create_branches:
  "case ring_collective_create heap transport_arg config_arg context_null w of (w', code, result) \<Rightarrow>
    (code = PG_ERR_INVALID_ARGUMENT \<longleftrightarrow> context_null \<or> (case transport_arg of None \<Rightarrow> True | Some (a, tr) \<Rightarrow> operations tr = None)) \<and>
    (code = PG_SUCCESS \<longleftrightarrow> result \<noteq> None) \<and>
    code \<in> {PG_SUCCESS, PG_ERR_INVALID_ARGUMENT, PG_ERR_TRANSPORT, PG_ERR_NO_MEMORY} \<and>
    w' = (if code \<in> {PG_SUCCESS, PG_ERR_NO_MEMORY} then fst (new_context heap w) else w) \<and>
    (\<forall>a tr. transport_arg = Some (a, tr) \<and> code \<noteq> PG_ERR_INVALID_ARGUMENT \<longrightarrow>
      (code = PG_ERR_TRANSPORT \<longleftrightarrow> \<not> (0 \<le> pg_transport_rank tr w \<and> pg_transport_rank tr w < pg_transport_size tr w)) \<and>
      (code = PG_ERR_NO_MEMORY \<longrightarrow> snd (new_context heap w) = None) \<and>
      (\<forall>ctx. result = Some ctx \<longrightarrow>
        transport ctx = a \<and> Some (temporary_buffer ctx) = snd (new_context heap w) \<and> rank ctx = pg_transport_rank tr w \<and>
        world_size ctx = pg_transport_size tr w \<and> sequence ctx = 0 \<and>
        0 < pipeline_piece_bytes (config ctx) \<and> 0 < max_inflight (config ctx) \<and> max_inflight (config ctx) \<le> 1024 \<and>
        (config_arg = None \<longrightarrow> config ctx = \<lparr>pipeline_piece_bytes = 65536, max_inflight = 4, transfer_mode = PG_TRANSFER_AUTO\<rparr>) \<and>
        (\<forall>c. config_arg = Some c \<longrightarrow> transfer_mode (config ctx) = transfer_mode c)))"
proof (cases transport_arg)
  case (Some at)
  obtain a tr where a: "at = (a, tr)" by (cases at)
  obtain w1 b where "new_context heap w = (w1, b)" by fastforce
  with Some a show ?thesis
    by (cases b) (auto simp: ring_collective_create_def Let_def kDefaultPieceBytes_def kDefaultMaxInflight_def kMaxInflightLimit_def
        split: option.split)
qed (simp add: ring_collective_create_def)

theorem create_branches_witness:
  "case ring_collective_create (mock_heap 1 7 8) (Some (0, mock_transport 1)) (Some \<lparr>pipeline_piece_bytes = 0, max_inflight = 5000, transfer_mode = PG_TRANSFER_EAGER\<rparr>)
     False (fst (the (snd (mock_transport_group_create 2 False (\<lambda>r. Map.empty) False)))) of (w', code, result) \<Rightarrow>
     code = PG_SUCCESS \<and> (\<exists>ctx. result = Some ctx \<and> rank ctx = 1 \<and> world_size ctx = 2 \<and> 0 < max_inflight (config ctx) \<and> max_inflight (config ctx) \<le> 1024)"
  using create_branches [where heap = "mock_heap 1 7 8" and transport_arg = "Some (0, mock_transport 1)" and context_null = False
      and config_arg = "Some \<lparr>pipeline_piece_bytes = 0, max_inflight = 5000, transfer_mode = PG_TRANSFER_EAGER\<rparr>"
      and w = "fst (the (snd (mock_transport_group_create 2 False (\<lambda>r. Map.empty) False)))"]
  by (simp add: ring_collective_create_def mock_transport_group_create_def pg_transport_rank_def pg_transport_size_def
      mock_transport_def kMockOperations_def mock_rank_def mock_size_def endpoint_of_def mock_endpoint_def mock_heap_def Let_def)

section \<open>From nothing to the reduced buffers\<close>

text \<open>
  C7. The public entry points from nothing: a new mock group, \<open>pg_create_from_transport\<close> on each of
  its ranks with one configuration, then \<open>pg_all_reduce\<close> of every rank. Under every schedule all
  calls end with \<open>PG_SUCCESS\<close>, every receive buffer holds the same reduced elements, and of the
  rest of a rank's memory only the context's own vector has changed.
\<close>

theorem process_group_all_reduce:
  assumes "mock_transport_group_create (int P) False mems False = (0, Some (w, ts))" and "ws 0 = w"
    and "\<And>r. r < P \<Longrightarrow> pg_create_from_transport (mock_heap r (tb r) (h r)) (Some (r, ts ! r)) own config_arg False (ws r) =
      (ws (Suc r), PG_SUCCESS, Some (h r, hl r))"
    and "ring_setup P count (datatype_size dt) (effective_config config_arg)" and "byte_op dt oper = Some g" and "0 < count"
    and "\<And>r. r < P \<Longrightarrow> load (mems r) (sendbuf r) (count * datatype_size dt) = Some (input r)"
    and "\<And>r. r < P \<Longrightarrow> sendbuf r = Ptr (rb r) 0 \<or>
      region_disjoint (Ptr (rb r) 0) (count * datatype_size dt) (sendbuf r) (count * datatype_size dt)"
    and "\<And>r. r < P \<Longrightarrow> \<exists>R. mems r (rb r) = Some R \<and> length R = count * datatype_size dt"
  shows "every_schedule (sys_step mock_call P)
    (ws P, \<lambda>r. pg_all_reduce (sendbuf r) (Ptr (rb r) 0) (int count) dt oper (Some (hl r)))
    (\<lambda>(w', progs'). \<forall>r<P. (\<exists>hl'. progs' r = Ret (PG_SUCCESS, Some hl')) \<and>
        (\<exists>T. memories w' r = (mems r)(rb r \<mapsto> ring_result P count (datatype_size dt) g input, tb r \<mapsto> T)))"
proof -
  let ?ctx = "\<lambda>r. context_of P r config_arg (tb r)" and ?sz = "datatype_size dt"
  have made: "mems r (tb r) = None" "collectives (hl r) = Some (?ctx r)" "memories (ws P) r = (mems r)(tb r \<mapsto> [])" if "r < P" for r
    using opened_group(1) [where ws = ws and h = h and hl = hl and own = own, OF assms(1,2) assms(3) that] by simp_all
  have idle: "idle_world P (ws P)"
    by (rule opened_group(2) [where ws = ws and h = h and hl = hl and own = own, OF assms(1,2) assms(3)])
  have ready: "contexts_ready P (effective_config config_arg) 0 ?ctx"
    by (simp add: contexts_ready_def context_of_def)
  have buffers: "buffers_ready count ?sz input r (memories (ws P) r) (?ctx r) (sendbuf r) (rb r)" if r: "r < P" for r
  proof -
    have rb: "rb r \<noteq> tb r"
      using made(1) [OF r] assms(9) [OF r] by auto
    have "load ((mems r)(tb r \<mapsto> [])) (sendbuf r) (count * ?sz) = Some (input r)"
      using assms(7) [OF r] made(1) [OF r] by (cases "sendbuf r") (auto split: option.splits if_splits)
    with made(3) [OF r] assms(8,9) [OF r] rb show ?thesis
      by (simp add: buffers_ready_def context_of_def)
  qed
  have send: "sendbuf r \<noteq> NullPtr" if "r < P" for r
    using assms(7) [OF that] by auto
  note run = every_schedule_repackaged [OF all_reduce_schedule [OF assms(4) ready assms(5,6) idle buffers]
      pg_all_reduce_repackaged [where ctx = ?ctx and hl = hl and rb = rb, OF send made(2) assms(6)]]
  show ?thesis
    by (rule every_schedule_weaken [OF run])
       (auto simp: repackaged_def buffers_after_def made(3) context_of_def)
qed

text \<open>Two ranks again, the handles opened one after the other.\<close>

definition bare_memory :: "nat \<Rightarrow> memory" where
  "bare_memory r = [0 \<mapsto> sample_input r]"

definition bare_world :: mock_world where
  "bare_world = fst (the (snd (mock_transport_group_create 2 False bare_memory False)))"

definition open_rank :: "nat \<Rightarrow> mock_world \<Rightarrow> mock_world \<times> int \<times> (nat \<times> mock_world ProcessGroupHandle) option" where
  "open_rank r w = pg_create_from_transport (mock_heap r 1 5) (Some (r, mock_transport r)) 1 (Some sample_config) False w"

fun opened_world :: "nat \<Rightarrow> mock_world" where
  "opened_world 0 = bare_world"
| "opened_world (Suc r) = fst (open_rank r (opened_world r))"

definition opened_rank :: "nat \<Rightarrow> mock_world ProcessGroupHandle" where
  "opened_rank r = snd (the (snd (snd (open_rank r (opened_world r)))))"

lemma bare_group: "mock_transport_group_create (int 2) False bare_memory False = (0, Some (bare_world, map mock_transport [0..<2]))"
  by (simp add: bare_world_def mock_transport_group_create_def)

lemma opened_ranks:
  assumes "r < 2"
  shows "pg_create_from_transport (mock_heap r 1 5) (Some (r, map mock_transport [0..<2] ! r)) 1 (Some sample_config) False (opened_world r) =
    (opened_world (Suc r), PG_SUCCESS, Some (5, opened_rank r))"
proof -
  have "\<exists>hl. open_rank r (bare_world\<lparr>memories := m\<rparr>) = ((bare_world\<lparr>memories := m(r := (m r)(1 \<mapsto> []))\<rparr>), PG_SUCCESS, Some (5, hl))"
    if "r < 2" "m r 1 = None" for r m
    using that group_transports(3,4) [OF bare_group that(1), of m]
    by (simp add: open_rank_def pg_create_from_transport_def ring_collective_create_def mock_heap_def mock_transport_def Let_def)
  note opens = this
  have w0: "opened_world 0 = bare_world\<lparr>memories := bare_memory\<rparr>"
    using group_idle(2) [OF bare_group] by simp
  have w1: "opened_world 1 = bare_world\<lparr>memories := bare_memory(0 := (bare_memory 0)(1 \<mapsto> []))\<rparr>"
    using opens [of 0 bare_memory] w0 by (auto simp: bare_memory_def)
  have "\<exists>w' hl. open_rank r (opened_world r) = (w', PG_SUCCESS, Some (5, hl))"
    using less_2_cases [OF assms] w0 w1 opens [of 0 bare_memory] opens [of 1 "bare_memory(0 := (bare_memory 0)(1 \<mapsto> []))"]
    by (auto simp: bare_memory_def)
  with assms show ?thesis
    by (auto simp: opened_rank_def open_rank_def)
qed

theorem process_group_all_reduce_witness:
  "every_schedule (sys_step mock_call 2)
    (opened_world 2, \<lambda>r. pg_all_reduce (Ptr 0 0) (Ptr 0 0) (int 2) PG_INT32 PG_SUM (Some (opened_rank r)))
    (\<lambda>(w', progs'). \<forall>r<2. (\<exists>hl'. progs' r = Ret (PG_SUCCESS, Some hl')) \<and>
        (\<exists>T. memories w' r = (bare_memory r)(0 \<mapsto> ring_result 2 2 (datatype_size PG_INT32) (stored_op int32_type (+)) sample_input, 1 \<mapsto> T)))"
proof (rule process_group_all_reduce [OF bare_group, where ws = opened_world and tb = "\<lambda>r. 1" and h = "\<lambda>r. 5" and hl = opened_rank
      and sendbuf = "\<lambda>r. Ptr 0 0" and rb = "\<lambda>r. 0" and input = sample_input and own = 1 and config_arg = "Some sample_config"])
  show "byte_op PG_INT32 PG_SUM = Some (stored_op int32_type (+))"
    by (rule byte_op_int32_sum)
  show "ring_setup 2 2 (datatype_size PG_INT32) (effective_config (Some sample_config))"
    using sample_setup by (simp add: effective_config_def sample_config_def kMaxInflightLimit_def)
qed (use opened_ranks in \<open>simp_all add: bare_memory_def sample_input_def slice_def\<close>)

lemma sint_sum_exact:
  fixes P :: nat and x :: "nat \<Rightarrow> 32 word"
  assumes "- (2 ^ 31) \<le> (\<Sum>q<P. sint (x q))" and "(\<Sum>q<P. sint (x q)) < 2 ^ 31"
  shows "sint (\<Sum>q<P. x q) = (\<Sum>q<P. sint (x q))"
proof -
  have "word_of_int (\<Sum>q<n. sint (x q)) = (\<Sum>q<n. x q)" for n :: nat
    by (induction n) (simp_all add: wi_hom_add [symmetric])
  then have "(\<Sum>q<P. x q) = word_of_int (\<Sum>q<P. sint (x q))"
    by simp
  moreover have "sint (word_of_int k :: 32 word) = k" if "- (2 ^ 31) \<le> k" "k < 2 ^ 31" for k
    using that by (simp add: sint_sbintrunc' signed_take_bit_int_eq_self)
  ultimately show ?thesis
    using assms by metis
qed



end
